(* ===== verification/Gep_Prelude.thy ===== *)
theory Gep_Prelude
  imports "HOL-Library.Word" "HOL-Library.Monad_Syntax" "HOL-Library.Signed_Division"
begin

text \<open>
  What every component shares: machine integers, bounds-checked byte memory and the
  convention for behaviour the C++ standard leaves undefined.

  Unsigned C++ integers are words. Signed ones are \<open>int\<close> with the range written out:
  a signed operation whose result does not fit is undefined behaviour. Every operation
  that can run into undefined behaviour (or that need not return) has an option type, and
  \<open>None\<close> means that the C++ code has no defined result. A theorem that an operation
  yields \<open>Some\<close> is thus a safety and termination statement.

  Memory is a function from offsets to bytes with a capacity: \<open>peek\<close> and \<open>poke\<close>
  are the only accesses and both are \<open>None\<close> beyond the capacity.
\<close>

unbundle bit_operations_syntax

type_synonym u8 = "8 word"
type_synonym u16 = "16 word"
type_synonym u32 = "32 word"
type_synonym u64 = "64 word"
type_synonym mem = "nat \<Rightarrow> u8"

named_theorems mem_simps \<open>reading back what was written to a byte memory\<close>
named_theorems cint_simps \<open>conversions between C integers in their common range\<close>

section \<open>C integers\<close>

definition i32_ok :: "int \<Rightarrow> bool" where
  "i32_ok x \<longleftrightarrow> - (2 ^ 31) \<le> x \<and> x < 2 ^ 31"

definition i64_ok :: "int \<Rightarrow> bool" where
  "i64_ok x \<longleftrightarrow> - (2 ^ 63) \<le> x \<and> x < 2 ^ 63"

definition chk32 :: "int \<Rightarrow> int option" where
  "chk32 x = (if i32_ok x then Some x else None)"

definition chk64 :: "int \<Rightarrow> int option" where
  "chk64 x = (if i64_ok x then Some x else None)"

text \<open>Conversions: to an unsigned type (modulo), and back to a signed one.\<close>

definition to_u32 :: "int \<Rightarrow> u32" where
  "to_u32 x = word_of_int x"

definition to_u64 :: "int \<Rightarrow> u64" where
  "to_u64 x = word_of_int x"

definition u32_to_int :: "u32 \<Rightarrow> int" where
  "u32_to_int x = sint x"

definition u64_to_i64 :: "u64 \<Rightarrow> int" where
  "u64_to_i64 x = sint x"

text \<open>The narrowing \<open>(int)\<close> of a \<open>size_t\<close> or of a \<open>ssize_t\<close>.\<close>

definition narrow32 :: "int \<Rightarrow> int" where
  "narrow32 x = sint (word_of_int x :: u32)"

section \<open>Bounds-checked memory\<close>

definition bytes_at :: "mem \<Rightarrow> nat \<Rightarrow> nat \<Rightarrow> u8 list" where
  "bytes_at m off n = map (\<lambda>i. m (off + i)) [0..<n]"

definition peek :: "nat \<Rightarrow> mem \<Rightarrow> nat \<Rightarrow> nat \<Rightarrow> u8 list option" where
  "peek cap m off n = (if off + n \<le> cap then Some (bytes_at m off n) else None)"

definition poke :: "nat \<Rightarrow> mem \<Rightarrow> nat \<Rightarrow> u8 list \<Rightarrow> mem option" where
  "poke cap m off bs =
     (if off + length bs \<le> cap
      then Some (\<lambda>i. if off \<le> i \<and> i < off + length bs then bs ! (i - off) else m i)
      else None)"

text \<open>Reading one element of an array argument.\<close>

definition nth_opt :: "'a list \<Rightarrow> nat \<Rightarrow> 'a option" where
  "nth_opt xs i = (if i < length xs then Some (xs ! i) else None)"

section \<open>Lemmas\<close>

lemma chk32_eq_Some [simp]: "chk32 x = Some y \<longleftrightarrow> i32_ok x \<and> y = x"
  by (auto simp: chk32_def)

lemma chk64_eq_Some [simp]: "chk64 x = Some y \<longleftrightarrow> i64_ok x \<and> y = x"
  by (auto simp: chk64_def)

lemma length_bytes_at [simp]: "length (bytes_at m off n) = n"
  by (simp add: bytes_at_def)

lemma nth_bytes_at [simp]: "i < n \<Longrightarrow> bytes_at m off n ! i = m (off + i)"
  by (simp add: bytes_at_def)

lemma bytes_at_0 [simp]: "bytes_at m off 0 = []"
  by (simp add: bytes_at_def)

lemma bytes_at_split:
  "k \<le> n \<Longrightarrow> bytes_at m off n = bytes_at m off k @ bytes_at m (off + k) (n - k)"
  by (rule nth_equalityI) (auto simp: nth_append)

lemma take_bytes_at [mem_simps]: "take k (bytes_at m off n) = bytes_at m off (min k n)"
  by (rule nth_equalityI) auto

lemma drop_bytes_at [mem_simps]: "drop k (bytes_at m off n) = bytes_at m (off + k) (n - k)"
  by (rule nth_equalityI) (auto simp: add.assoc)

lemma bytes_at_cong:
  "(\<And>i. i < n \<Longrightarrow> m (off + i) = m' (off' + i)) \<Longrightarrow> bytes_at m off n = bytes_at m' off' n"
  by (rule nth_equalityI) auto

lemma peek_eq_Some [simp]:
  "peek cap m off n = Some bs \<longleftrightarrow> off + n \<le> cap \<and> bs = bytes_at m off n"
  by (auto simp: peek_def)

lemma poke_Some_iff: "(\<exists>m'. poke cap m off bs = Some m') \<longleftrightarrow> off + length bs \<le> cap"
  by (simp add: poke_def)

lemma poke_same [mem_simps]:
  "poke cap m off bs = Some m' \<Longrightarrow> bytes_at m' off (length bs) = bs"
  by (rule nth_equalityI) (auto simp: poke_def split: if_splits)

lemma poke_other [mem_simps]:
  "poke cap m off bs = Some m' \<Longrightarrow> i < off \<or> off + length bs \<le> i \<Longrightarrow> m' i = m i"
  by (auto simp: poke_def split: if_splits)

lemma poke_in [mem_simps]:
  "poke cap m off bs = Some m' \<Longrightarrow> off \<le> i \<Longrightarrow> i < off + length bs \<Longrightarrow> m' i = bs ! (i - off)"
  by (auto simp: poke_def split: if_splits)

lemma poke_below:
  "poke cap m off bs = Some m' \<Longrightarrow> a + n \<le> off \<Longrightarrow> bytes_at m' a n = bytes_at m a n"
  by (rule bytes_at_cong) (auto simp: poke_other)

lemma poke_append:
  assumes "poke cap m off bs = Some m'"
  shows "bytes_at m' 0 (off + length bs) = bytes_at m 0 off @ bs"
proof -
  have "bytes_at m' 0 (off + length bs) = bytes_at m' 0 off @ bytes_at m' off (length bs)"
    using bytes_at_split [of off "off + length bs" m' 0] by simp
  then show ?thesis
    using poke_below [OF assms, of 0 off] poke_same [OF assms] by simp
qed

lemma nth_opt_eq_Some [simp]: "nth_opt xs i = Some x \<longleftrightarrow> i < length xs \<and> x = xs ! i"
  by (auto simp: nth_opt_def)

lemma unat_to_u32 [cint_simps]: "0 \<le> x \<Longrightarrow> x < 2 ^ 32 \<Longrightarrow> unat (to_u32 x) = nat x"
  by (simp add: to_u32_def unat_eq_nat_uint take_bit_int_eq_self uint_word_of_int_eq)

lemma unat_to_u64 [cint_simps]: "0 \<le> x \<Longrightarrow> x < 2 ^ 64 \<Longrightarrow> unat (to_u64 x) = nat x"
  by (simp add: to_u64_def unat_eq_nat_uint take_bit_int_eq_self uint_word_of_int_eq)

lemma u64_to_i64_id: "i64_ok x \<Longrightarrow> u64_to_i64 (to_u64 x) = x"
  by (simp add: u64_to_i64_def to_u64_def i64_ok_def sint_sbintrunc' signed_take_bit_int_eq_self)

lemma narrow32_id [cint_simps]: "i32_ok x \<Longrightarrow> narrow32 x = x"
  by (simp add: narrow32_def i32_ok_def sint_sbintrunc' signed_take_bit_int_eq_self)

lemma u32_to_int_small [cint_simps]:
  assumes "unat x < 2147483648"
  shows "u32_to_int x = int (unat x)"
proof -
  have "uint x = int (unat x)"
    by simp
  then have "uint x < 2147483648"
    using assms by linarith
  moreover have "- 2147483648 \<le> uint x"
    by (rule order_trans [of _ 0]) simp_all
  ultimately have "signed_take_bit (LENGTH(32) - 1) (uint x) = uint x"
    by (intro signed_take_bit_int_eq_self) simp_all
  then show ?thesis
    unfolding u32_to_int_def sint_uint by simp
qed

end
