(* ===== verification/Gep_Utils.thy ===== *)
theory Gep_Utils
  imports Gep_Prelude
begin

text \<open>
  The utilities of \<open>src/utils.h\<close> and \<open>src/utils.cc\<close>: the big-endian load and store
  macros, the time conversions, the log level and the printing helpers that write into a
  caller-supplied character buffer.
\<close>

section \<open>Big-endian loads and stores\<close>

text \<open>
  The load macros read the bytes at a pointer; the argument is the list of those bytes.
  The store macros yield the bytes that are written from the pointer on.
\<close>

definition UINT64 :: "u8 list \<Rightarrow> u64" where
  "UINT64 x =
     push_bit 56 (ucast (x ! 0)) OR push_bit 48 (ucast (x ! 1)) OR
     push_bit 40 (ucast (x ! 2)) OR push_bit 32 (ucast (x ! 3)) OR
     push_bit 24 (ucast (x ! 4)) OR push_bit 16 (ucast (x ! 5)) OR
     push_bit 8 (ucast (x ! 6)) OR ucast (x ! 7)"

definition INT64 :: "u8 list \<Rightarrow> int" where
  "INT64 x = sint (UINT64 x)"

definition UINT32 :: "u8 list \<Rightarrow> u32" where
  "UINT32 x =
     push_bit 24 (ucast (x ! 0)) OR push_bit 16 (ucast (x ! 1)) OR
     push_bit 8 (ucast (x ! 2)) OR ucast (x ! 3)"

definition INT32 :: "u8 list \<Rightarrow> int" where
  "INT32 x = sint (UINT32 x)"

text \<open>\<open>UINT16\<close> has type \<open>uint32_t\<close> in the source.\<close>

definition UINT16 :: "u8 list \<Rightarrow> u32" where
  "UINT16 x = push_bit 8 (ucast (x ! 0)) OR ucast (x ! 1)"

definition INT16 :: "u8 list \<Rightarrow> int" where
  "INT16 x = sint (ucast (UINT16 x) :: u16)"

definition SET_UINT8 :: "u64 \<Rightarrow> u8 list" where
  "SET_UINT8 y = [ucast y]"

definition SET_UINT16 :: "u64 \<Rightarrow> u8 list" where
  "SET_UINT16 y = [ucast (drop_bit 8 y), ucast y]"

definition SET_UINT32 :: "u32 \<Rightarrow> u8 list" where
  "SET_UINT32 y =
     [ucast (drop_bit 24 y), ucast (drop_bit 16 y), ucast (drop_bit 8 y), ucast y]"

definition SET_UINT64 :: "u64 \<Rightarrow> u8 list" where
  "SET_UINT64 y =
     [ucast (drop_bit 56 y), ucast (drop_bit 48 y), ucast (drop_bit 40 y),
      ucast (drop_bit 32 y), ucast (drop_bit 24 y), ucast (drop_bit 16 y),
      ucast (drop_bit 8 y), ucast y]"

section \<open>Time conversions\<close>

record timeval =
  tv_sec :: int
  tv_usec :: int

definition kMsecsPerSec :: int where "kMsecsPerSec = 1000"
definition kUsecsPerSec :: int where "kUsecsPerSec = 1000000"
definition kUsecsPerMsec :: int where "kUsecsPerMsec = 1000"
definition kNsecsPerSec :: int where "kNsecsPerSec = 1000000000"
definition kNsecsPerUsec :: int where "kNsecsPerUsec = 1000"
definition kNsecsPerMsec :: int where "kNsecsPerMsec = 1000000"

definition secs_to_msecs :: "int \<Rightarrow> int option" where
  "secs_to_msecs secs = chk64 (secs * kMsecsPerSec)"

definition msecs_to_secs :: "int \<Rightarrow> int" where
  "msecs_to_secs msecs = msecs sdiv kMsecsPerSec"

definition secs_to_usecs :: "int \<Rightarrow> int option" where
  "secs_to_usecs secs = chk64 (secs * kUsecsPerSec)"

definition usecs_to_secs :: "int \<Rightarrow> int" where
  "usecs_to_secs usecs = usecs sdiv kUsecsPerSec"

definition msecs_to_usecs :: "int \<Rightarrow> int option" where
  "msecs_to_usecs msecs = chk64 (msecs * kUsecsPerMsec)"

definition usecs_to_msecs :: "int \<Rightarrow> int" where
  "usecs_to_msecs usecs = usecs sdiv kUsecsPerMsec"

definition usecs_to_nsecs :: "int \<Rightarrow> int option" where
  "usecs_to_nsecs usecs = chk64 (usecs * kNsecsPerUsec)"

definition nsecs_to_usecs :: "int \<Rightarrow> int" where
  "nsecs_to_usecs nsecs = nsecs sdiv kNsecsPerUsec"

definition timeval_to_usecs :: "timeval \<Rightarrow> int option" where
  "timeval_to_usecs tv = do {
     s \<leftarrow> secs_to_usecs (tv_sec tv);
     chk64 (s + tv_usec tv)
   }"

definition usecs_to_timeval :: "int \<Rightarrow> timeval" where
  "usecs_to_timeval usecs =
     \<lparr>tv_sec = usecs sdiv kUsecsPerSec, tv_usec = usecs smod kUsecsPerSec\<rparr>"

section \<open>Log level\<close>

datatype LogLevel = LOG_ERROR | LOG_WARNING | LOG_DEBUG

primrec log_code :: "LogLevel \<Rightarrow> nat" where
  "log_code LOG_ERROR = 1"
| "log_code LOG_WARNING = 2"
| "log_code LOG_DEBUG = 3"

text \<open>An enum compares as its integer values.\<close>

instantiation LogLevel :: linorder
begin

definition less_eq_LogLevel :: "LogLevel \<Rightarrow> LogLevel \<Rightarrow> bool" where
  "less_eq_LogLevel a b \<longleftrightarrow> log_code a \<le> log_code b"

definition less_LogLevel :: "LogLevel \<Rightarrow> LogLevel \<Rightarrow> bool" where
  "less_LogLevel a b \<longleftrightarrow> log_code a < log_code b"

instance
proof
  fix a b :: LogLevel
  assume "a \<le> b" and "b \<le> a"
  then show "a = b" by (cases a; cases b) (simp_all add: less_eq_LogLevel_def)
qed (auto simp: less_eq_LogLevel_def less_LogLevel_def)

end

text \<open>The guard of \<open>gep_log\<close>: a message is printed unless its level exceeds the global one.\<close>

definition gep_log_prints :: "LogLevel \<Rightarrow> LogLevel \<Rightarrow> bool" where
  "gep_log_prints gep_log_level level \<longleftrightarrow> \<not> (level > gep_log_level)"

section \<open>Printing into a buffer\<close>

text \<open>
  \<open>nice_snprintf\<close> at offset \<open>off\<close> of a character buffer, for a call whose formatted text
  is \<open>out\<close>. \<open>vsnprintf\<close> writes at most \<open>size - 1\<close> characters and a terminator, and returns
  the length of the whole text.
\<close>

definition nice_snprintf :: "nat \<Rightarrow> mem \<Rightarrow> nat \<Rightarrow> nat \<Rightarrow> u8 list \<Rightarrow> (nat \<times> mem) option" where
  "nice_snprintf cap m off sz out =
     (let bi = length out in do {
        m' \<leftarrow> (if sz = 0 then Some m else poke cap m off (take (sz - 1) out @ [0]));
        Some (if bi > sz then sz else bi, m')
      })"

definition isprint :: "u8 \<Rightarrow> bool" where
  "isprint c \<longleftrightarrow> 32 \<le> c \<and> c \<le> 126"

definition hex_digit :: "u8 \<Rightarrow> u8" where
  "hex_digit n = (if n < 10 then 48 + n else 87 + n)"

text \<open>The texts of the formats \<open>%02x\<close> and, per character, of \<open>%c\<close> or \<open>\x%02x\<close>.\<close>

definition fmt_hex :: "u8 \<Rightarrow> u8 list" where
  "fmt_hex d = [hex_digit (drop_bit 4 d), hex_digit (d AND 15)]"

definition fmt_printable :: "u8 \<Rightarrow> u8 list" where
  "fmt_printable d = (if isprint d then [d] else [92, 120] @ fmt_hex d)"

text \<open>
  The loop both printing helpers run; \<open>fmt\<close> is the format call of the body. \<open>bufsize\<close>
  and \<open>len\<close> are the signed arguments of the source.
\<close>

function snprintf_loop ::
  "(u8 \<Rightarrow> u8 list) \<Rightarrow> nat \<Rightarrow> int \<Rightarrow> u8 list \<Rightarrow> int \<Rightarrow> nat \<Rightarrow> nat \<Rightarrow> mem \<Rightarrow> (nat \<times> mem) option"
where
  "snprintf_loop fmt cap bufsize data len i bi m =
     (if int i < len \<and> int bi < bufsize then do {
        d \<leftarrow> nth_opt data i;
        (n, m') \<leftarrow> nice_snprintf cap m bi (nat (bufsize - int bi)) (fmt d);
        snprintf_loop fmt cap bufsize data len (Suc i) (bi + n) m'
      } else Some (bi, m))"
  by pat_completeness auto
termination
  by (relation "measure (\<lambda>(fmt, cap, bufsize, data, len, i, bi, m). nat (len - int i))") auto

declare snprintf_loop.simps [simp del]

definition snprintf_hex :: "nat \<Rightarrow> mem \<Rightarrow> int \<Rightarrow> u8 list \<Rightarrow> int \<Rightarrow> (nat \<times> mem) option" where
  "snprintf_hex cap buf bufsize data len = do {
     buf \<leftarrow> poke cap buf 0 [0];
     snprintf_loop fmt_hex cap bufsize data len 0 0 buf
   }"

definition snprintf_printable ::
  "nat \<Rightarrow> mem \<Rightarrow> int \<Rightarrow> u8 list \<Rightarrow> int \<Rightarrow> (nat \<times> mem) option" where
  "snprintf_printable cap buf bufsize data len = do {
     buf \<leftarrow> poke cap buf 0 [0];
     snprintf_loop fmt_printable cap bufsize data len 0 0 buf
   }"

section \<open>Lemmas: loads and stores\<close>

lemma length_SET_UINT32 [simp]: "length (SET_UINT32 y) = 4"
  by (simp add: SET_UINT32_def)

lemma bit_u8_beyond [simp]: "8 \<le> n \<Longrightarrow> bit (x :: u8) n = False"
  using bit_imp_le_length by fastforce

text \<open>One byte of a word, cut out and shifted back to its place.\<close>

lemma bit_slice:
  fixes y :: "'a::len word"
  shows "bit (push_bit k (ucast (ucast (drop_bit k y) :: u8)) :: 'a word) n \<longleftrightarrow> k \<le> n \<and> n < k + 8 \<and> bit y n"
  by (auto simp: bit_simps dest: bit_imp_le_length)

lemma bit_slice_0:
  fixes y :: "'a::len word"
  shows "bit (ucast (ucast y :: u8) :: 'a word) n \<longleftrightarrow> n < 8 \<and> bit y n"
  using bit_slice [of 0 y n] by simp

lemma UINT32_SET_UINT32 [simp]: "UINT32 (SET_UINT32 y) = y"
proof (rule bit_word_eqI)
  fix n
  assume "n < LENGTH(32)"
  then have "n < 8 \<or> 8 \<le> n \<and> n < 16 \<or> 16 \<le> n \<and> n < 24 \<or> 24 \<le> n \<and> n < 32"
    by simp arith
  then show "bit (UINT32 (SET_UINT32 y)) n = bit y n"
    unfolding UINT32_def SET_UINT32_def by (auto simp: bit_or_iff bit_slice bit_slice_0)
qed

lemma UINT64_SET_UINT64 [simp]: "UINT64 (SET_UINT64 y) = y"
proof (rule bit_word_eqI)
  fix n
  assume "n < LENGTH(64)"
  then have "n < 8 \<or> 8 \<le> n \<and> n < 16 \<or> 16 \<le> n \<and> n < 24 \<or> 24 \<le> n \<and> n < 32 \<or>
      32 \<le> n \<and> n < 40 \<or> 40 \<le> n \<and> n < 48 \<or> 48 \<le> n \<and> n < 56 \<or> 56 \<le> n \<and> n < 64"
    by simp arith
  then show "bit (UINT64 (SET_UINT64 y)) n = bit y n"
    unfolding UINT64_def SET_UINT64_def by (auto simp: bit_or_iff bit_slice bit_slice_0)
qed

lemma UINT16_SET_UINT16: "UINT16 (SET_UINT16 y) = ucast (y AND 65535)"
proof (rule bit_word_eqI)
  have mask: "(65535 :: u64) = mask 16"
    by (simp add: mask_eq_exp_minus_1)
  fix n
  show "bit (UINT16 (SET_UINT16 y)) n = bit (ucast (y AND 65535) :: u32) n" if "n < LENGTH(32)"
    using that unfolding UINT16_def SET_UINT16_def mask
    by (cases "n < 8"; cases "n < 16") (auto simp: bit_simps)
qed

lemma SET_UINT32_UINT32:
  assumes "length x = 4"
  shows "SET_UINT32 (UINT32 x) = x"
proof -
  obtain a b c d where x: "x = [a, b, c, d]"
    using assms by (auto simp: numeral_eq_Suc length_Suc_conv)
  show ?thesis
    unfolding x UINT32_def SET_UINT32_def
    by (auto simp: bit_simps intro!: bit_word_eqI)
qed

section \<open>Lemmas: time\<close>

lemmas time_consts =
  kMsecsPerSec_def kUsecsPerSec_def kUsecsPerMsec_def kNsecsPerSec_def kNsecsPerUsec_def
  kNsecsPerMsec_def

lemma sdiv_smod_numeral:
  fixes u :: int
  assumes "0 < k"
  shows "u sdiv k * k + u smod k = u" and "\<bar>u sdiv k * k\<bar> \<le> \<bar>u\<bar>" and "\<bar>u smod k\<bar> < k"
    and "0 \<le> u \<Longrightarrow> 0 \<le> u smod k"
proof -
  have d: "u sdiv k = sgn u * (\<bar>u\<bar> div k)" and m: "u smod k = sgn u * (\<bar>u\<bar> mod k)"
    using assms by (simp_all add: signed_divide_int_def signed_modulo_int_def)
  have e: "\<bar>u\<bar> div k * k + \<bar>u\<bar> mod k = \<bar>u\<bar>" and n: "0 \<le> \<bar>u\<bar> mod k" "\<bar>u\<bar> mod k < k"
    and q: "0 \<le> \<bar>u\<bar> div k"
    using assms by (simp_all add: pos_imp_zdiv_nonneg_iff)
  then have le: "\<bar>u\<bar> div k * k \<le> \<bar>u\<bar>"
    by linarith
  show "u sdiv k * k + u smod k = u"
    using smod_sdiv_mult_eq [of u k] by (simp add: add.commute)
  show "\<bar>u sdiv k * k\<bar> \<le> \<bar>u\<bar>"
    using le q assms by (cases "u = 0") (auto simp: d abs_mult abs_sgn_eq)
  show "\<bar>u smod k\<bar> < k" "0 \<le> u \<Longrightarrow> 0 \<le> u smod k"
    using n assms by (auto simp: m abs_mult sgn_if)
qed

section \<open>Lemmas: printing into a buffer\<close>

lemma poke_text:
  assumes "poke cap m off (bs @ [0]) = Some m'"
  shows "bytes_at m' 0 (off + length bs) = bytes_at m 0 off @ bs" and "m' (off + length bs) = 0"
proof -
  have "bytes_at m' 0 (off + length bs) @ [m' (off + length bs)] = (bytes_at m 0 off @ bs) @ [0]"
    using poke_append [OF assms] bytes_at_split [of "off + length bs" "Suc (off + length bs)" m' 0]
    by (simp add: bytes_at_def)
  then show "bytes_at m' 0 (off + length bs) = bytes_at m 0 off @ bs"
    and "m' (off + length bs) = 0" by simp_all
qed

lemma nice_snprintf_fits:
  assumes "off + sz \<le> cap" and "0 < sz"
  obtains m' where "nice_snprintf cap m off sz out = Some (min sz (length out), m')"
    and "bytes_at m' 0 (off + min (sz - 1) (length out)) = bytes_at m 0 off @ take (sz - 1) out"
    and "m' (off + min (sz - 1) (length out)) = 0"
proof -
  have "off + length (take (sz - 1) out @ [0]) \<le> cap"
    using assms by auto
  then obtain m' where m': "poke cap m off (take (sz - 1) out @ [0]) = Some m'"
    using poke_Some_iff by blast
  show thesis
  proof (rule that)
    show "nice_snprintf cap m off sz out = Some (min sz (length out), m')"
      using assms m' by (simp add: nice_snprintf_def min_def Let_def)
    show "bytes_at m' 0 (off + min (sz - 1) (length out)) = bytes_at m 0 off @ take (sz - 1) out"
      using poke_text(1) [OF m'] by (simp add: min.commute)
    show "m' (off + min (sz - 1) (length out)) = 0"
      using poke_text(2) [OF m'] by (simp add: min.commute)
  qed
qed

lemma snprintf_loop_done: "\<not> (int i < len \<and> int bi < bufsize) \<Longrightarrow>
  snprintf_loop fmt cap bufsize data len i bi m = Some (bi, m)"
  by (subst snprintf_loop.simps) auto

lemma snprintf_loop_spec:
  fixes fmt :: "u8 \<Rightarrow> u8 list"
  assumes "B \<le> cap" and "nat len \<le> length data" and "bi < B" and "m bi = 0"
  defines "out \<equiv> \<lambda>i. concat (map fmt (drop i (take (nat len) data)))"
  shows "\<exists>m'. snprintf_loop fmt cap (int B) data len i bi m = Some (min B (bi + length (out i)), m') \<and>
    bytes_at m' 0 (min (B - 1) (bi + length (out i))) = bytes_at m 0 bi @ take (B - 1 - bi) (out i) \<and>
    m' (min (B - 1) (bi + length (out i))) = 0"
  using assms(3,4)
proof (induction "nat len - i" arbitrary: i bi m)
  case 0
  then have "out i = []" by (simp add: out_def)
  with 0 show ?case by (simp add: snprintf_loop_done)
next
  case (Suc k)
  let ?d = "data ! i"
  from Suc.hyps(2) assms(2) have i: "i < nat len" "i < length data" "int i < len" by linarith+
  then have out: "out i = fmt ?d @ out (Suc i)"
    by (simp add: out_def Cons_nth_drop_Suc [symmetric])
  obtain m1 where m1: "nice_snprintf cap m bi (B - bi) (fmt ?d) = Some (min (B - bi) (length (fmt ?d)), m1)"
    and b1: "bytes_at m1 0 (bi + min (B - bi - 1) (length (fmt ?d))) = bytes_at m 0 bi @ take (B - bi - 1) (fmt ?d)"
    and z1: "m1 (bi + min (B - bi - 1) (length (fmt ?d))) = 0"
    using nice_snprintf_fits [of bi "B - bi" cap m "fmt ?d"] Suc.prems assms(1) by auto
  have step: "snprintf_loop fmt cap (int B) data len i bi m =
      snprintf_loop fmt cap (int B) data len (Suc i) (bi + min (B - bi) (length (fmt ?d))) m1"
    using i Suc.prems m1 by (subst snprintf_loop.simps) (simp add: nth_opt_def nat_diff_distrib)
  show ?case
  proof (cases "length (fmt ?d) < B - bi")
    case True
    then have mn: "min (B - bi) (length (fmt ?d)) = length (fmt ?d)"
      "min (B - bi - 1) (length (fmt ?d)) = length (fmt ?d)" by auto
    have "k = nat len - Suc i" "bi + length (fmt ?d) < B" using Suc.hyps(2) True by linarith+
    from Suc.hyps(1) [OF this, of m1] z1 mn b1 True show ?thesis
      unfolding step mn out by (auto simp: algebra_simps)
  next
    case False
    then have "min (B - bi) (length (fmt ?d)) = B - bi" "min (B - bi - 1) (length (fmt ?d)) = B - bi - 1"
      by auto
    moreover have "bi + (B - bi - 1) = B - 1" "bi + (B - bi) = B" using Suc.prems by auto
    ultimately show ?thesis
      using b1 z1 False Suc.prems unfolding step out
      by (auto simp: snprintf_loop_done)
  qed
qed

text \<open>What both helpers leave in the buffer: the text cut to \<open>bufsize - 1\<close>, terminated.\<close>

lemma snprintf_text:
  fixes fmt :: "u8 \<Rightarrow> u8 list"
  assumes "int cap \<ge> bufsize" and "0 < bufsize" and "nat len \<le> length data"
  defines "out \<equiv> concat (map fmt (take (nat len) data))"
  shows "\<exists>m0 m'. poke cap buf 0 [0] = Some m0 \<and>
    snprintf_loop fmt cap bufsize data len 0 0 m0 = Some (min (nat bufsize) (length out), m') \<and>
    bytes_at m' 0 (min (nat bufsize - 1) (length out)) = take (nat bufsize - 1) out \<and>
    m' (min (nat bufsize - 1) (length out)) = 0"
proof -
  have "0 + length [0 :: u8] \<le> cap" using assms(1,2) by simp
  then obtain m0 where m0: "poke cap buf 0 [0] = Some m0"
    using poke_Some_iff by blast
  have "m0 0 = 0" using poke_in [OF m0, of 0] by simp
  moreover have "nat bufsize \<le> cap" "0 < nat bufsize" "int (nat bufsize) = bufsize" using assms(1,2) by auto
  ultimately show ?thesis
    using snprintf_loop_spec [of "nat bufsize" cap len data 0 m0 fmt 0] assms(3) m0
    by (auto simp: out_def)
qed

lemma snprintf_printable_defined:
  assumes "bufsize \<le> int cap" and "0 < bufsize" and "nat len \<le> length data"
  shows "\<exists>r. snprintf_printable cap buf bufsize data len = Some r"
  using snprintf_text [OF assms, of buf fmt_printable] by (auto simp: snprintf_printable_def)

lemma snprintf_printable_no_room: "snprintf_printable 0 buf bufsize data len = None"
  by (simp add: snprintf_printable_def poke_def)

end
