(* ===== verification/Gep_World.thy ===== *)
theory Gep_World
  imports Gep_Utils
begin

text \<open>
  The world outside the program: the operating system as a parameter, the record of what
  the program did to it, the thin wrapper \<open>RawSocketInterface\<close>
  (\<open>src/raw_socket_interface.h\<close>) and \<open>TimeManager\<close> (\<open>src/time_manager.cc\<close>).

  The kernel is code outside the repository. It is a record of functions over an unknown
  kernel state \<open>'w\<close>: each system call maps its arguments and the state to its answer and
  the next state. What the program relies on about those answers is stated by the named
  predicates \<open>os_send_ok\<close> to \<open>os_select_ok\<close>, which are hypotheses of the theorems
  that need them.

  The trace in the world is a log of the effects: it holds what was sent and received on
  each descriptor, which descriptors were opened and closed, and which callbacks ran.
  Messages of \<open>gep_log\<close> and \<open>gep_perror\<close> go to stdout only and are not recorded.
\<close>

section \<open>System calls\<close>

datatype sockopt = SO_PRIORITY | TCP_NODELAY | SO_REUSEADDR

datatype recv_answer = Received "u8 list" | Recv_failed int

datatype send_answer = Accepted nat | Send_failed int

definition EINTR :: int where "EINTR = 4"
definition EAGAIN :: int where "EAGAIN = 11"
definition EWOULDBLOCK :: int where "EWOULDBLOCK = 11"

text \<open>
  The result pairs are (return value, \<open>errno\<close>, next kernel state). A \<open>recv\<close> or
  \<open>send\<close> that does not fail returns the number of bytes it moved.
\<close>

record 'w os =
  sys_socket :: "'w \<Rightarrow> int \<times> int \<times> 'w"
  sys_bind :: "int \<Rightarrow> u16 \<Rightarrow> 'w \<Rightarrow> int \<times> int \<times> 'w"
  sys_listen :: "int \<Rightarrow> int \<Rightarrow> 'w \<Rightarrow> int \<times> int \<times> 'w"
  sys_accept :: "int \<Rightarrow> 'w \<Rightarrow> int \<times> int \<times> 'w"
  sys_connect :: "int \<Rightarrow> u16 \<Rightarrow> 'w \<Rightarrow> int \<times> int \<times> 'w"
  sys_close :: "int \<Rightarrow> 'w \<Rightarrow> int \<times> int \<times> 'w"
  sys_recv :: "int \<Rightarrow> nat \<Rightarrow> 'w \<Rightarrow> recv_answer \<times> 'w"
  sys_send :: "int \<Rightarrow> u8 list \<Rightarrow> 'w \<Rightarrow> send_answer \<times> 'w"
  sys_select :: "int \<Rightarrow> int set \<Rightarrow> int set \<Rightarrow> timeval \<Rightarrow> 'w \<Rightarrow> (int \<times> int \<times> int set) \<times> 'w"
  sys_setsockopt :: "int \<Rightarrow> sockopt \<Rightarrow> int \<Rightarrow> 'w \<Rightarrow> int \<times> int \<times> 'w"
  sys_getfl :: "int \<Rightarrow> 'w \<Rightarrow> int \<times> int \<times> 'w"
  sys_setfl :: "int \<Rightarrow> int \<Rightarrow> 'w \<Rightarrow> int \<times> int \<times> 'w"
  sys_getsockname :: "int \<Rightarrow> 'w \<Rightarrow> (int \<times> int \<times> u16) \<times> 'w"
  sys_getpeername :: "int \<Rightarrow> 'w \<Rightarrow> u8 list option \<times> 'w"
  sys_clock :: "'w \<Rightarrow> (int \<times> int) \<times> 'w"
  sys_nanosleep :: "int \<Rightarrow> int \<Rightarrow> 'w \<Rightarrow> int \<times> int \<times> 'w"

datatype 'm event =
    Ev_socket int
  | Ev_bind int u16 int
  | Ev_listen int int int
  | Ev_accept int int
  | Ev_connect int u16 int
  | Ev_close int
  | Ev_recv int "u8 list"
  | Ev_send int "u8 list"
  | Ev_select int
  | Ev_setopt int sockopt int int
  | Ev_setfl int int
  | Ev_sleep int int
  | Ev_dispatch int u32 'm
  | Ev_add_client int
  | Ev_del_client int

record ('w, 'm) world =
  w_os :: 'w
  w_errno :: int
  w_log_level :: LogLevel
  w_trace :: "'m event list"

definition emit :: "'m event \<Rightarrow> ('w, 'm) world \<Rightarrow> ('w, 'm) world" where
  "emit e w = w\<lparr>w_trace := w_trace w @ [e]\<rparr>"

definition gep_log_get_level :: "('w, 'm) world \<Rightarrow> LogLevel" where
  "gep_log_get_level w = w_log_level w"

definition gep_log_set_level :: "LogLevel \<Rightarrow> ('w, 'm) world \<Rightarrow> ('w, 'm) world" where
  "gep_log_set_level level w = w\<lparr>w_log_level := level\<rparr>"

text \<open>A system call with an integer result; a failure sets \<open>errno\<close>.\<close>

definition syscall ::
  "('w \<Rightarrow> int \<times> int \<times> 'w) \<Rightarrow> (int \<Rightarrow> 'm event) \<Rightarrow> ('w, 'm) world \<Rightarrow> int \<times> ('w, 'm) world" where
  "syscall f ev w =
     (case f (w_os w) of (r, e, s) \<Rightarrow>
        (r, emit (ev r) (w\<lparr>w_os := s, w_errno := (if r < 0 then e else w_errno w)\<rparr>)))"

section \<open>RawSocketInterface\<close>

definition Raw_Socket :: "'w os \<Rightarrow> ('w, 'm) world \<Rightarrow> int \<times> ('w, 'm) world" where
  "Raw_Socket os = syscall (sys_socket os) Ev_socket"

definition Raw_Bind :: "'w os \<Rightarrow> int \<Rightarrow> u16 \<Rightarrow> ('w, 'm) world \<Rightarrow> int \<times> ('w, 'm) world" where
  "Raw_Bind os fd prt = syscall (sys_bind os fd prt) (Ev_bind fd prt)"

definition Raw_Listen :: "'w os \<Rightarrow> int \<Rightarrow> int \<Rightarrow> ('w, 'm) world \<Rightarrow> int \<times> ('w, 'm) world" where
  "Raw_Listen os fd backlog = syscall (sys_listen os fd backlog) (Ev_listen fd backlog)"

definition Raw_Accept :: "'w os \<Rightarrow> int \<Rightarrow> ('w, 'm) world \<Rightarrow> int \<times> ('w, 'm) world" where
  "Raw_Accept os fd = syscall (sys_accept os fd) (Ev_accept fd)"

text \<open>\<open>recv\<close> yields its return value and the bytes it stored.\<close>

definition Raw_Recv ::
  "'w os \<Rightarrow> int \<Rightarrow> nat \<Rightarrow> ('w, 'm) world \<Rightarrow> int \<times> u8 list \<times> ('w, 'm) world" where
  "Raw_Recv os fd len w =
     (case sys_recv os fd len (w_os w) of
        (Received bs, s) \<Rightarrow> (int (length bs), bs, emit (Ev_recv fd bs) (w\<lparr>w_os := s\<rparr>))
      | (Recv_failed e, s) \<Rightarrow> (-1, [], w\<lparr>w_os := s, w_errno := e\<rparr>))"

definition Raw_Send ::
  "'w os \<Rightarrow> int \<Rightarrow> u8 list \<Rightarrow> ('w, 'm) world \<Rightarrow> int \<times> ('w, 'm) world" where
  "Raw_Send os fd buf w =
     (case sys_send os fd buf (w_os w) of
        (Accepted n, s) \<Rightarrow> (int n, emit (Ev_send fd (take n buf)) (w\<lparr>w_os := s\<rparr>))
      | (Send_failed e, s) \<Rightarrow> (-1, w\<lparr>w_os := s, w_errno := e\<rparr>))"

text \<open>\<open>select\<close> yields its return value and the read set it leaves behind.\<close>

definition Raw_Select ::
  "'w os \<Rightarrow> int \<Rightarrow> int set \<Rightarrow> int set \<Rightarrow> timeval \<Rightarrow> ('w, 'm) world \<Rightarrow> int \<times> int set \<times> ('w, 'm) world" where
  "Raw_Select os nfds rd wr tv w =
     (case sys_select os nfds rd wr tv (w_os w) of ((r, e, rd'), s) \<Rightarrow>
        (r, rd', emit (Ev_select r) (w\<lparr>w_os := s, w_errno := (if r < 0 then e else w_errno w)\<rparr>)))"

definition Raw_SetSockOpt ::
  "'w os \<Rightarrow> int \<Rightarrow> sockopt \<Rightarrow> int \<Rightarrow> ('w, 'm) world \<Rightarrow> int \<times> ('w, 'm) world" where
  "Raw_SetSockOpt os fd opt val = syscall (sys_setsockopt os fd opt val) (Ev_setopt fd opt val)"

definition Raw_GetSockName ::
  "'w os \<Rightarrow> int \<Rightarrow> ('w, 'm) world \<Rightarrow> int \<times> u16 \<times> ('w, 'm) world" where
  "Raw_GetSockName os fd w =
     (case sys_getsockname os fd (w_os w) of ((r, e, p), s) \<Rightarrow>
        (r, p, w\<lparr>w_os := s, w_errno := (if r < 0 then e else w_errno w)\<rparr>))"

text \<open>The calls the program makes directly, without the wrapper class.\<close>

definition os_close :: "'w os \<Rightarrow> int \<Rightarrow> ('w, 'm) world \<Rightarrow> ('w, 'm) world" where
  "os_close os fd w = snd (syscall (sys_close os fd) (\<lambda>_. Ev_close fd) w)"

definition os_connect :: "'w os \<Rightarrow> int \<Rightarrow> u16 \<Rightarrow> ('w, 'm) world \<Rightarrow> int \<times> ('w, 'm) world" where
  "os_connect os fd prt = syscall (sys_connect os fd prt) (Ev_connect fd prt)"

definition FD_SETSIZE :: int where "FD_SETSIZE = 1024"

text \<open>\<open>FD_SET\<close> and \<open>FD_ISSET\<close> index a fixed array: outside it they are undefined.\<close>

definition FD_SET :: "int \<Rightarrow> int set \<Rightarrow> int set option" where
  "FD_SET fd fds = (if 0 \<le> fd \<and> fd < FD_SETSIZE then Some (insert fd fds) else None)"

definition FD_ISSET :: "int \<Rightarrow> int set \<Rightarrow> bool option" where
  "FD_ISSET fd fds = (if 0 \<le> fd \<and> fd < FD_SETSIZE then Some (fd \<in> fds) else None)"

section \<open>TimeManager\<close>

definition get_now_ns :: "'w os \<Rightarrow> ('w, 'm) world \<Rightarrow> (u64 \<times> ('w, 'm) world) option" where
  "get_now_ns os w =
     (case sys_clock os (w_os w) of ((sec, nsec), s) \<Rightarrow> do {
        a \<leftarrow> chk64 (sec * kNsecsPerSec);
        ns \<leftarrow> chk64 (a + nsec);
        Some (to_u64 ns, w\<lparr>w_os := s\<rparr>)
      })"

definition ms_elapse :: "'w os \<Rightarrow> u64 \<Rightarrow> ('w, 'm) world \<Rightarrow> (u64 \<times> ('w, 'm) world) option" where
  "ms_elapse os start_time_ms w = do {
     (now, w) \<leftarrow> get_now_ns os w;
     Some ((now - start_time_ms * to_u64 kNsecsPerMsec) div to_u64 kNsecsPerMsec, w)
   }"

definition ns_sleep :: "'w os \<Rightarrow> u64 \<Rightarrow> ('w, 'm) world \<Rightarrow> ('w, 'm) world" where
  "ns_sleep os nsecs =
     (let sec = u64_to_i64 (nsecs div to_u64 kNsecsPerSec);
          nsec = u64_to_i64 (nsecs mod to_u64 kNsecsPerSec)
      in snd \<circ> syscall (sys_nanosleep os sec nsec) (\<lambda>_. Ev_sleep sec nsec))"

definition ms_sleep :: "'w os \<Rightarrow> u64 \<Rightarrow> ('w, 'm) world \<Rightarrow> ('w, 'm) world" where
  "ms_sleep os msecs = ns_sleep os (to_u64 kNsecsPerMsec * msecs)"

definition us_sleep :: "'w os \<Rightarrow> u64 \<Rightarrow> ('w, 'm) world \<Rightarrow> ('w, 'm) world" where
  "us_sleep os usecs = ns_sleep os (to_u64 kNsecsPerUsec * usecs)"

section \<open>What the program relies on about the kernel\<close>

text \<open>\<open>send\<close> reports at most the bytes it was given.\<close>

definition os_send_ok :: "'w os \<Rightarrow> bool" where
  "os_send_ok os \<longleftrightarrow> (\<forall>fd buf s n s'. sys_send os fd buf s = (Accepted n, s') \<longrightarrow> n \<le> length buf)"

text \<open>\<open>recv\<close> stores at most the bytes there is room for.\<close>

definition os_recv_ok :: "'w os \<Rightarrow> bool" where
  "os_recv_ok os \<longleftrightarrow> (\<forall>fd len s bs s'. sys_recv os fd len s = (Received bs, s') \<longrightarrow> length bs \<le> len)"

text \<open>The monotonic clock reads a normalised time within three centuries of its origin.\<close>

definition os_clock_ok :: "'w os \<Rightarrow> bool" where
  "os_clock_ok os \<longleftrightarrow> (\<forall>s sec nsec s'. sys_clock os s = ((sec, nsec), s') \<longrightarrow>
     0 \<le> sec \<and> sec < 9223372036 \<and> 0 \<le> nsec \<and> nsec < 1000000000)"

text \<open>A failing \<open>select\<close> leaves the sets as they were; another one only clears members.\<close>

definition os_select_ok :: "'w os \<Rightarrow> bool" where
  "os_select_ok os \<longleftrightarrow> (\<forall>n rd wr tv s r e rd' s'. sys_select os n rd wr tv s = ((r, e, rd'), s') \<longrightarrow>
     (if r < 0 then rd' = rd else rd' \<subseteq> rd))"

text \<open>
  Time passes. \<open>now\<close> is the time of the kernel's state in nanoseconds; the monotonic clock reads
  it to its resolution \<open>tick\<close>, so that two readings may agree, and never goes back. A reading
  takes time itself, until the clock is at the end of its range, three centuries from its origin.
\<close>

definition clock_end :: nat where
  "clock_end = 9223372036000000000"

definition os_time_passes :: "'w os \<Rightarrow> ('w \<Rightarrow> nat) \<Rightarrow> nat \<Rightarrow> bool" where
  "os_time_passes os now tick \<longleftrightarrow> 0 < tick \<and>
     (\<forall>s sec nsec s'. sys_clock os s = ((sec, nsec), s') \<longrightarrow>
        sec * kNsecsPerSec + nsec = int (now s div tick * tick) \<and> now s \<le> now s' \<and>
        (now s + 1 < clock_end \<longrightarrow> now s < now s')) \<and>
     (\<forall>fd buf s a s'. sys_send os fd buf s = (a, s') \<longrightarrow> now s \<le> now s') \<and>
     (\<forall>n rd wr tv s a s'. sys_select os n rd wr tv s = (a, s') \<longrightarrow> now s \<le> now s')"

text \<open>New descriptors are below the size of an \<open>fd_set\<close>.\<close>

definition os_fds_ok :: "'w os \<Rightarrow> bool" where
  "os_fds_ok os \<longleftrightarrow>
     (\<forall>s r e s'. sys_socket os s = (r, e, s') \<longrightarrow> - 1 \<le> r \<and> r < FD_SETSIZE) \<and>
     (\<forall>fd s r e s'. sys_accept os fd s = (r, e, s') \<longrightarrow> - 1 \<le> r \<and> r < FD_SETSIZE)"

section \<open>Reading a trace\<close>

definition sent_on :: "int \<Rightarrow> 'm event list \<Rightarrow> u8 list" where
  "sent_on fd tr = concat (map (\<lambda>e. case e of Ev_send f bs \<Rightarrow> if f = fd then bs else [] | _ \<Rightarrow> []) tr)"

definition received_on :: "int \<Rightarrow> 'm event list \<Rightarrow> u8 list" where
  "received_on fd tr = concat (map (\<lambda>e. case e of Ev_recv f bs \<Rightarrow> if f = fd then bs else [] | _ \<Rightarrow> []) tr)"

definition dispatched :: "'m event list \<Rightarrow> (int \<times> u32 \<times> 'm) list" where
  "dispatched tr = concat (map (\<lambda>e. case e of Ev_dispatch i t m \<Rightarrow> [(i, t, m)] | _ \<Rightarrow> []) tr)"

definition closed_fds :: "'m event list \<Rightarrow> int list" where
  "closed_fds tr = concat (map (\<lambda>e. case e of Ev_close fd \<Rightarrow> [fd] | _ \<Rightarrow> []) tr)"

text \<open>Descriptors the program came to own: a socket it made or a connection it accepted.\<close>

definition opened_fds :: "'m event list \<Rightarrow> int list" where
  "opened_fds tr = concat (map (\<lambda>e. case e of
      Ev_socket fd \<Rightarrow> if fd < 0 then [] else [fd]
    | Ev_accept _ fd \<Rightarrow> if fd < 0 then [] else [fd]
    | _ \<Rightarrow> []) tr)"

text \<open>The clients a server believes in: those added and not yet deleted.\<close>

definition live_step :: "int list \<Rightarrow> 'm event \<Rightarrow> int list" where
  "live_step ids e =
     (case e of Ev_add_client i \<Rightarrow> ids @ [i] | Ev_del_client i \<Rightarrow> remove1 i ids | _ \<Rightarrow> ids)"

definition live_clients :: "'m event list \<Rightarrow> int list" where
  "live_clients tr = foldl live_step [] tr"

section \<open>Lemmas\<close>

lemma emit_simps [simp]:
  "w_trace (emit e w) = w_trace w @ [e]" "w_os (emit e w) = w_os w"
  "w_errno (emit e w) = w_errno w" "w_log_level (emit e w) = w_log_level w"
  by (simp_all add: emit_def)

lemma os_send_okD: "os_send_ok os \<Longrightarrow> sys_send os fd buf s = (Accepted n, s') \<Longrightarrow> n \<le> length buf"
  unfolding os_send_ok_def by blast

lemma os_recv_okD: "os_recv_ok os \<Longrightarrow> sys_recv os fd len s = (Received bs, s') \<Longrightarrow> length bs \<le> len"
  unfolding os_recv_ok_def by blast

lemma Raw_Socket_fd: "os_fds_ok os \<Longrightarrow> Raw_Socket os w = (r, w') \<Longrightarrow> - 1 \<le> r \<and> r < FD_SETSIZE"
  unfolding os_fds_ok_def Raw_Socket_def syscall_def by (fastforce split: prod.splits)

lemma Raw_Accept_fd: "os_fds_ok os \<Longrightarrow> Raw_Accept os fd w = (r, w') \<Longrightarrow> - 1 \<le> r \<and> r < FD_SETSIZE"
  unfolding os_fds_ok_def Raw_Accept_def syscall_def by (fastforce split: prod.splits)

lemma Raw_Send_time:
  "os_time_passes os now tick \<Longrightarrow> Raw_Send os fd buf w = (cnt, w') \<Longrightarrow> now (w_os w) \<le> now (w_os w')"
  unfolding os_time_passes_def Raw_Send_def by (auto split: prod.splits send_answer.splits)

lemma Raw_Select_time:
  "os_time_passes os now tick \<Longrightarrow> Raw_Select os n rd wr tv w = (num, rd', w') \<Longrightarrow> now (w_os w) \<le> now (w_os w')"
  unfolding os_time_passes_def Raw_Select_def by (auto split: prod.splits)

lemma sent_on_simps [simp]:
  "sent_on fd [] = []" "sent_on fd (xs @ ys) = sent_on fd xs @ sent_on fd ys"
  "sent_on fd (Ev_send f bs # tr) = (if f = fd then bs else []) @ sent_on fd tr"
  "sent_on fd (Ev_select r # tr) = sent_on fd tr"
  by (simp_all add: sent_on_def)

lemma received_on_simps [simp]:
  "received_on fd [] = []" "received_on fd (xs @ ys) = received_on fd xs @ received_on fd ys"
  "received_on fd (Ev_recv f bs # tr) = (if f = fd then bs else []) @ received_on fd tr"
  "received_on fd (Ev_dispatch i t m # tr) = received_on fd tr"
  by (simp_all add: received_on_def)

lemma dispatched_simps [simp]:
  "dispatched [] = []" "dispatched (xs @ ys) = dispatched xs @ dispatched ys"
  "dispatched (Ev_dispatch i t m # tr) = (i, t, m) # dispatched tr"
  "dispatched (Ev_send f bs # tr) = dispatched tr" "dispatched (Ev_recv f bs # tr) = dispatched tr"
  "dispatched (Ev_select r # tr) = dispatched tr" "dispatched (Ev_close f # tr) = dispatched tr"
  "dispatched (Ev_add_client i # tr) = dispatched tr" "dispatched (Ev_del_client i # tr) = dispatched tr"
  by (simp_all add: dispatched_def)

lemma live_clients_append: "live_clients (xs @ ys) = foldl live_step (live_clients xs) ys"
  by (simp add: live_clients_def)

lemma get_now_ns_defined:
  assumes "os_clock_ok os"
  shows "\<exists>now w'. get_now_ns os w = Some (now, w') \<and> w' = w\<lparr>w_os := snd (sys_clock os (w_os w))\<rparr>"
proof -
  obtain sec nsec s where c: "sys_clock os (w_os w) = ((sec, nsec), s)"
    by (metis surj_pair)
  with assms have "0 \<le> sec" "sec < 9223372036" "0 \<le> nsec" "nsec < 1000000000"
    by (auto simp: os_clock_ok_def)
  then have "i64_ok (sec * kNsecsPerSec)" "i64_ok (sec * kNsecsPerSec + nsec)"
    by (auto simp: i64_ok_def kNsecsPerSec_def)
  with c show ?thesis
    by (simp add: get_now_ns_def chk64_def)
qed

lemma ms_elapse_world:
  "ms_elapse os t w = Some (e, w') \<Longrightarrow> w' = w\<lparr>w_os := snd (sys_clock os (w_os w))\<rparr>"
  by (auto simp: ms_elapse_def get_now_ns_def split: prod.splits bind_splits)

lemma ms_elapse_defined:
  "os_clock_ok os \<Longrightarrow> \<exists>e. ms_elapse os t w = Some (e, w\<lparr>w_os := snd (sys_clock os (w_os w))\<rparr>)"
  using get_now_ns_defined [of os w] by (auto simp: ms_elapse_def)

text \<open>The elapsed time, as long as the clock was not behind the start.\<close>

lemma ms_elapse_time:
  assumes "os_clock_ok os" and "os_time_passes os now tick"
    and "start * 1000000 \<le> now (w_os w) div tick * tick"
  shows "\<exists>w'. ms_elapse os (of_nat start) w =
      Some (of_nat ((now (w_os w) div tick * tick - start * 1000000) div 1000000), w') \<and>
    now (w_os w) div tick * tick < clock_end \<and> w_trace w' = w_trace w \<and> w_errno w' = w_errno w \<and>
    now (w_os w) \<le> now (w_os w') \<and> (now (w_os w) + 1 < clock_end \<longrightarrow> now (w_os w) < now (w_os w'))"
proof -
  let ?t = "now (w_os w) div tick * tick"
  obtain sec nsec s where c: "sys_clock os (w_os w) = ((sec, nsec), s)" by (metis surj_pair)
  have r: "0 \<le> sec" "sec < 9223372036" "0 \<le> nsec" "nsec < 1000000000"
    using assms(1) c by (auto simp: os_clock_ok_def)
  have t: "sec * kNsecsPerSec + nsec = int ?t"
    and p: "now (w_os w) \<le> now s" "now (w_os w) + 1 < clock_end \<longrightarrow> now (w_os w) < now s"
    using assms(2) c unfolding os_time_passes_def by blast+
  have lt: "int ?t < 9223372036000000000" using t r by (simp add: kNsecsPerSec_def)
  have n: "get_now_ns os w = Some (of_nat ?t, w\<lparr>w_os := s\<rparr>)"
    using c t r lt by (simp add: get_now_ns_def chk64_def i64_ok_def kNsecsPerSec_def to_u64_def)
  have m: "(of_nat ?t - of_nat start * to_u64 kNsecsPerMsec :: u64) = of_nat (?t - start * 1000000)"
    using assms(3) by (simp add: to_u64_def kNsecsPerMsec_def of_nat_diff)
  have "?t < 9223372036000000000" using lt by (simp only: of_nat_less_iff [where 'a = int, symmetric] of_nat_numeral)
  then have lt: "?t < 9223372036000000000" "?t - start * 1000000 < 2 ^ 64" by simp_all
  have d: "(of_nat (?t - start * 1000000) :: u64) div 1000000 = of_nat ((?t - start * 1000000) div 1000000)"
    using lt(2) by (simp add: word_arith_nat_div unat_of_nat)
  show ?thesis
    using n m d p lt by (auto simp: ms_elapse_def clock_end_def to_u64_def kNsecsPerMsec_def)
qed

end
