(* ===== verification/Gep_Socket.thy ===== *)
theory Gep_Socket
  imports Gep_World
begin

text \<open>
  \<open>SocketInterface\<close> (\<open>src/socket_interface.h\<close>, \<open>src/socket_interface.cc\<close>): the class
  the channels do their socket I/O through. Its methods are virtual, so a channel holds a
  table of functions; \<open>SocketInterface_of\<close> is the table of the class itself, over the
  raw calls of a kernel. The locale \<open>socket_contract\<close> says what the channels rely on
  about \<open>FullSend\<close> and \<open>Recv\<close>, and is interpreted with that table.
\<close>

section \<open>FullSend\<close>

text \<open>
  One round of the loop sends what is left of \<open>buf\<close> from \<open>total_sent\<close> on: it
  returns (\<open>Inl\<close> the result) or goes round again (\<open>Inr\<close> the new total). The
  comparison of the \<open>int64_t\<close> timeout with the \<open>uint64_t\<close> elapsed time is unsigned.
  \<open>size\<close> of the source is the length of \<open>buf\<close>. The loop is \<open>None\<close> when it does not return
  or runs into undefined behaviour.
\<close>

definition FullSend_round ::
  "'w os \<Rightarrow> int \<Rightarrow> u8 list \<Rightarrow> int \<Rightarrow> int \<Rightarrow> nat \<Rightarrow> ('w, 'm) world \<Rightarrow>
     ((int \<times> ('w, 'm) world) + (nat \<times> ('w, 'm) world)) option"
where
  "FullSend_round os fd buf timeout_ms started_ms total_sent w =
     (let (count, w1) = Raw_Send os fd (drop total_sent buf) w in
      if count > 0 then
        (let total_sent' = total_sent + nat count in
         if total_sent' \<ge> length buf then Some (Inl (int total_sent', w1))
         else do {
           (elapsed, w2) \<leftarrow> ms_elapse os (to_u64 started_ms) w1;
           if to_u64 timeout_ms < elapsed then Some (Inl (0, w2))
           else Some (Inr (total_sent', w2))
         })
      else if count = 0 then Some (Inl (-2, w1))
      else if count < 0 \<and> w_errno w1 \<noteq> EAGAIN \<and> w_errno w1 \<noteq> EWOULDBLOCK then Some (Inl (-1, w1))
      else do {
        (elapsed, w2) \<leftarrow> ms_elapse os (to_u64 started_ms) w1;
        let sleeptime_ms = u64_to_i64 (to_u64 timeout_ms - elapsed);
        if sleeptime_ms < 0 then Some (Inl (0, w2))
        else do {
          write_fds \<leftarrow> FD_SET fd {};
          let (num, _, w3) = Raw_Select os (fd + 1) {} write_fds
            \<lparr>tv_sec = sleeptime_ms sdiv 1000, tv_usec = (sleeptime_ms smod 1000) * 1000\<rparr> w2;
          if num = 0 then Some (Inl (0, w3))
          else Some (Inr (total_sent, w3))
        }
      })"

partial_function (option) FullSend_loop ::
  "'w os \<Rightarrow> int \<Rightarrow> u8 list \<Rightarrow> int \<Rightarrow> int \<Rightarrow> nat \<Rightarrow> ('w, 'm) world \<Rightarrow> (int \<times> ('w, 'm) world) option"
where
  "FullSend_loop os fd buf timeout_ms started_ms total_sent w =
     (if \<not> total_sent < length buf then Some (int total_sent, w)
      else do {
        nxt \<leftarrow> FullSend_round os fd buf timeout_ms started_ms total_sent w;
        (case nxt of
           Inl rw \<Rightarrow> Some rw
         | Inr nw \<Rightarrow> FullSend_loop os fd buf timeout_ms started_ms (fst nw) (snd nw))
      })"

definition FullSend ::
  "'w os \<Rightarrow> int \<Rightarrow> u8 list \<Rightarrow> int \<Rightarrow> ('w, 'm) world \<Rightarrow> (int \<times> ('w, 'm) world) option" where
  "FullSend os fd buf timeout_ms w = do {
     (started, w) \<leftarrow> ms_elapse os 0 w;
     FullSend_loop os fd buf timeout_ms (u64_to_i64 started) 0 w
   }"

declare FullSend_loop.simps [code]

section \<open>Socket settings\<close>

definition O_NONBLOCK :: int where "O_NONBLOCK = 2048"

definition SetNonBlocking :: "'w os \<Rightarrow> int \<Rightarrow> ('w, 'm) world \<Rightarrow> int \<times> ('w, 'm) world" where
  "SetNonBlocking os sock w =
     (case sys_getfl os sock (w_os w) of (flags, e, s) \<Rightarrow>
        let w1 = w\<lparr>w_os := s, w_errno := (if flags < 0 then e else w_errno w)\<rparr> in
        if flags < 0 then (-1, w1)
        else let (r, w2) = syscall (sys_setfl os sock (flags OR O_NONBLOCK))
                             (Ev_setfl sock) w1
             in if r < 0 then (-1, w2) else (0, w2))"

definition SetPriority :: "'w os \<Rightarrow> int \<Rightarrow> int \<Rightarrow> ('w, 'm) world \<Rightarrow> int \<times> ('w, 'm) world" where
  "SetPriority os sock prio w =
     (let (r, w) = Raw_SetSockOpt os sock SO_PRIORITY prio w in
      if r = -1 then (-1, w) else (0, w))"

definition SetNoDelay :: "'w os \<Rightarrow> int \<Rightarrow> ('w, 'm) world \<Rightarrow> int \<times> ('w, 'm) world" where
  "SetNoDelay os sock w =
     (let (r, w) = Raw_SetSockOpt os sock TCP_NODELAY 1 w in
      if r < 0 then (-1, w) else (0, w))"

definition SetReuseAddr :: "'w os \<Rightarrow> int \<Rightarrow> ('w, 'm) world \<Rightarrow> int \<times> ('w, 'm) world" where
  "SetReuseAddr os sock w =
     (let (r, w) = Raw_SetSockOpt os sock SO_REUSEADDR 1 w in
      if r < 0 then (-1, w) else (0, w))"

text \<open>The second component is the port written through the pointer, if any.\<close>

definition GetPort_socket ::
  "'w os \<Rightarrow> int \<Rightarrow> ('w, 'm) world \<Rightarrow> int \<times> int option \<times> ('w, 'm) world" where
  "GetPort_socket os sock w =
     (let (r, sin_port, w) = Raw_GetSockName os sock w in
      if r < 0 then (-1, None, w) else (0, Some (uint sin_port), w))"

definition unknown_text :: "u8 list" where
  "unknown_text = [117, 110, 107, 110, 111, 119, 110]"

text \<open>
  \<open>GetPeerIP\<close> writes into the caller's buffer. The kernel parameter gives the dotted
  text of the peer address; \<open>inet_ntop\<close> fails when the text and its terminator do not fit.
\<close>

definition GetPeerIP ::
  "'w os \<Rightarrow> int \<Rightarrow> nat \<Rightarrow> mem \<Rightarrow> nat \<Rightarrow> ('w, 'm) world \<Rightarrow> (mem \<times> ('w, 'm) world) option" where
  "GetPeerIP os sock cap buf sz w =
     (case sys_getpeername os sock (w_os w) of (peer, s) \<Rightarrow>
        let w' = w\<lparr>w_os := s\<rparr> in
        case peer of
          Some text \<Rightarrow>
            if length text < sz then do {
              buf' \<leftarrow> poke cap buf 0 (text @ [0]);
              Some (buf', w')
            } else do {
              (_, buf') \<leftarrow> nice_snprintf cap buf 0 sz unknown_text;
              Some (buf', w')
            }
        | None \<Rightarrow> do {
            (_, buf') \<leftarrow> nice_snprintf cap buf 0 sz unknown_text;
            Some (buf', w')
          })"

section \<open>The virtual table\<close>

record ('w, 'm) socket_vt =
  si_Socket :: "('w, 'm) world \<Rightarrow> int \<times> ('w, 'm) world"
  si_Bind :: "int \<Rightarrow> u16 \<Rightarrow> ('w, 'm) world \<Rightarrow> int \<times> ('w, 'm) world"
  si_Listen :: "int \<Rightarrow> int \<Rightarrow> ('w, 'm) world \<Rightarrow> int \<times> ('w, 'm) world"
  si_Accept :: "int \<Rightarrow> ('w, 'm) world \<Rightarrow> int \<times> ('w, 'm) world"
  si_FullSend :: "int \<Rightarrow> u8 list \<Rightarrow> int \<Rightarrow> ('w, 'm) world \<Rightarrow> (int \<times> ('w, 'm) world) option"
  si_Recv :: "int \<Rightarrow> nat \<Rightarrow> ('w, 'm) world \<Rightarrow> int \<times> u8 list \<times> ('w, 'm) world"
  si_SetNonBlocking :: "int \<Rightarrow> ('w, 'm) world \<Rightarrow> int \<times> ('w, 'm) world"
  si_SetPriority :: "int \<Rightarrow> int \<Rightarrow> ('w, 'm) world \<Rightarrow> int \<times> ('w, 'm) world"
  si_SetNoDelay :: "int \<Rightarrow> ('w, 'm) world \<Rightarrow> int \<times> ('w, 'm) world"
  si_SetReuseAddr :: "int \<Rightarrow> ('w, 'm) world \<Rightarrow> int \<times> ('w, 'm) world"
  si_GetPort :: "int \<Rightarrow> ('w, 'm) world \<Rightarrow> int \<times> int option \<times> ('w, 'm) world"
  si_GetPeerIP :: "int \<Rightarrow> nat \<Rightarrow> mem \<Rightarrow> nat \<Rightarrow> ('w, 'm) world \<Rightarrow> (mem \<times> ('w, 'm) world) option"

definition SocketInterface_of :: "'w os \<Rightarrow> ('w, 'm) socket_vt" where
  "SocketInterface_of os =
     \<lparr>si_Socket = Raw_Socket os,
      si_Bind = Raw_Bind os,
      si_Listen = Raw_Listen os,
      si_Accept = Raw_Accept os,
      si_FullSend = FullSend os,
      si_Recv = Raw_Recv os,
      si_SetNonBlocking = SetNonBlocking os,
      si_SetPriority = SetPriority os,
      si_SetNoDelay = SetNoDelay os,
      si_SetReuseAddr = SetReuseAddr os,
      si_GetPort = GetPort_socket os,
      si_GetPeerIP = GetPeerIP os\<rparr>"

section \<open>What a full send does to the world\<close>

text \<open>The events of a send on \<open>fd\<close>: bytes sent on it, and waits in \<open>select\<close>.\<close>

definition send_event :: "int \<Rightarrow> 'm event \<Rightarrow> bool" where
  "send_event fd e = (case e of Ev_send f _ \<Rightarrow> f = fd | Ev_select _ \<Rightarrow> True | _ \<Rightarrow> False)"

definition sends :: "int \<Rightarrow> u8 list \<Rightarrow> ('w, 'm) world \<Rightarrow> ('w, 'm) world \<Rightarrow> bool" where
  "sends fd bs w w' \<longleftrightarrow> w_log_level w' = w_log_level w \<and>
     (\<exists>evs. w_trace w' = w_trace w @ evs \<and> list_all (send_event fd) evs \<and> sent_on fd evs = bs)"

lemma sends_refl [simp]: "sends fd [] w w"
  by (auto simp: sends_def)

lemma sends_trans: "sends fd a w1 w2 \<Longrightarrow> sends fd b w2 w3 \<Longrightarrow> sends fd (a @ b) w1 w3"
  by (fastforce simp: sends_def)

lemma sends_os: "sends fd a w w' \<Longrightarrow> sends fd a w (w'\<lparr>w_os := s\<rparr>)"
  by (simp add: sends_def)

lemma sends_sent_on: "sends fd bs w w' \<Longrightarrow> sent_on fd (w_trace w') = sent_on fd (w_trace w) @ bs"
  by (auto simp: sends_def)

lemma send_event_dispatched: "list_all (send_event fd) evs \<Longrightarrow> dispatched evs = []"
  by (induction evs) (auto simp: send_event_def dispatched_def split: event.splits)

lemma sends_dispatched: "sends fd bs w w' \<Longrightarrow> dispatched (w_trace w') = dispatched (w_trace w)"
  by (auto simp: sends_def send_event_dispatched)

lemma send_event_sent_other: "list_all (send_event fd) evs \<Longrightarrow> f \<noteq> fd \<Longrightarrow> sent_on f evs = []"
  by (induction evs) (auto simp: send_event_def sent_on_def split: event.splits)

lemma sends_sent_other:
  "sends fd bs w w' \<Longrightarrow> f \<noteq> fd \<Longrightarrow> sent_on f (w_trace w') = sent_on f (w_trace w)"
  by (auto simp: sends_def send_event_sent_other)

lemma send_event_live: "list_all (send_event fd) evs \<Longrightarrow> foldl live_step ids evs = ids"
  by (induction evs arbitrary: ids) (auto simp: send_event_def live_step_def split: event.splits)

lemma sends_live: "sends fd bs w w' \<Longrightarrow> live_clients (w_trace w') = live_clients (w_trace w)"
  by (auto simp: sends_def live_clients_append send_event_live)

section \<open>The contract of the socket layer\<close>

text \<open>
  What a channel relies on: a full send moves a prefix of the buffer to the descriptor and
  nothing else, all of it exactly when it returns the size; a receive yields as many bytes
  as it says, no more than there is room for, and otherwise none. \<open>ok\<close> is the
  assumption on the environment under which the provider keeps this.
\<close>

locale socket_contract =
  fixes full_send :: "int \<Rightarrow> u8 list \<Rightarrow> int \<Rightarrow> ('w, 'm) world \<Rightarrow> (int \<times> ('w, 'm) world) option"
    and recv :: "int \<Rightarrow> nat \<Rightarrow> ('w, 'm) world \<Rightarrow> int \<times> u8 list \<times> ('w, 'm) world"
    and ok :: bool
  assumes full_send_law: "ok \<Longrightarrow> full_send fd buf timeout w = Some (r, w') \<Longrightarrow>
      \<exists>k \<le> length buf. sends fd (take k buf) w w' \<and>
        (r = int (length buf) \<and> k = length buf \<or> r \<in> {0, -1, -2} \<and> k < length buf)"
    and recv_law: "ok \<Longrightarrow> recv fd n w = (r, bs, w') \<Longrightarrow>
      length bs \<le> n \<and> (if r > 0 then r = int (length bs) else bs = [] \<and> - 2147483648 \<le> r) \<and>
      w_log_level w' = w_log_level w \<and>
      (\<exists>evs. w_trace w' = w_trace w @ evs \<and> (evs = [] \<and> bs = [] \<or> evs = [Ev_recv fd bs]))"
begin

lemma full_send_all:
  assumes "ok" "full_send fd buf t w = Some (r, w')" "r = int (length buf)"
  shows "sends fd buf w w'"
  using full_send_law [OF assms(1,2)] assms(3) by auto

lemma full_send_short:
  assumes "ok" "full_send fd buf t w = Some (r, w')" "r \<noteq> int (length buf)"
  shows "\<exists>k < length buf. sends fd (take k buf) w w'"
  using full_send_law [OF assms(1,2)] assms(3) by auto

lemma recv_frame:
  assumes "ok" "recv fd n w = (r, bs, w')"
  shows "dispatched (w_trace w') = dispatched (w_trace w)"
    and "live_clients (w_trace w') = live_clients (w_trace w)"
    and "received_on fd (w_trace w') = received_on fd (w_trace w) @ bs"
  using recv_law [OF assms] by (auto simp: live_clients_append live_step_def)

end

section \<open>The provider keeps the contract\<close>

lemma Raw_Send_sends:
  assumes "os_send_ok os" and "Raw_Send os fd buf w = (count, w')"
  shows "count \<le> int (length buf)" and "sends fd (take (nat count) buf) w w'" and "- 1 \<le> count"
  using assms os_send_okD [OF assms(1), of fd buf "w_os w"]
  by (auto simp: Raw_Send_def sends_def send_event_def split: prod.splits send_answer.splits)

lemma Raw_Select_sends: "Raw_Select os n rd wr tv w = (num, fds, w') \<Longrightarrow> sends fd [] w w'"
  by (auto simp: Raw_Select_def sends_def send_event_def split: prod.splits)

lemma ms_elapse_sends: "ms_elapse os t w = Some (e, w') \<Longrightarrow> sends fd [] w w'"
  using ms_elapse_world [of os t w e w'] by (simp add: sends_def)

definition loop_post :: "int \<Rightarrow> u8 list \<Rightarrow> nat \<Rightarrow> ('w, 'm) world \<Rightarrow> int \<times> ('w, 'm) world \<Rightarrow> bool" where
  "loop_post fd buf n w rw \<longleftrightarrow>
     (\<exists>k. n \<le> k \<and> k \<le> length buf \<and> sends fd (take (k - n) (drop n buf)) w (snd rw) \<and>
        (fst rw = int (length buf) \<and> k = length buf \<or> fst rw \<in> {0, -1, -2} \<and> k < length buf))"

lemma loop_post_stop: "sends fd [] w w' \<Longrightarrow> n < length buf \<Longrightarrow> r \<in> {0, -1, -2} \<Longrightarrow> loop_post fd buf n w (r, w')"
  unfolding loop_post_def by (rule exI [of _ n]) simp

lemma loop_post_step:
  assumes "sends fd (take c (drop n buf)) w w1" and "n + c \<le> length buf"
    and "loop_post fd buf (n + c) w1 rw"
  shows "loop_post fd buf n w rw"
proof -
  obtain k where k: "n + c \<le> k" "k \<le> length buf"
    and s: "sends fd (take (k - (n + c)) (drop (n + c) buf)) w1 (snd rw)"
    and r: "fst rw = int (length buf) \<and> k = length buf \<or> fst rw \<in> {0, -1, -2} \<and> k < length buf"
    using assms(3) unfolding loop_post_def by blast
  have "take (k - n) (drop n buf) = take c (drop n buf) @ take (k - (n + c)) (drop (n + c) buf)"
    using k take_add [of c "k - (n + c)" "drop n buf"] by (simp add: add.commute)
  then have "sends fd (take (k - n) (drop n buf)) w (snd rw)"
    using sends_trans [OF assms(1) s] by simp
  then show ?thesis
    using k r unfolding loop_post_def by (intro exI [of _ k]) auto
qed

text \<open>One round, whatever the kernel answers.\<close>

lemma FullSend_round_Inl:
  assumes "FullSend_round os fd buf t st n w = Some (Inl rw)" and "os_send_ok os" and "n < length buf"
  shows "loop_post fd buf n w rw"
proof -
  obtain count w1 where rs: "Raw_Send os fd (drop n buf) w = (count, w1)" by (metis surj_pair)
  note s = Raw_Send_sends [OF assms(2) rs]
  show ?thesis
  proof (cases "count > 0")
    case True
    then have c: "n + nat count \<le> length buf" using s(1) assms(3) by simp
    have "loop_post fd buf (n + nat count) w1 rw"
    proof (cases "n + nat count \<ge> length buf")
      case all: True
      then show ?thesis
        using assms(1) rs True c by (auto simp: FullSend_round_def loop_post_def)
    next
      case False
      then show ?thesis
        using assms(1) rs True
        by (auto simp: FullSend_round_def split: if_splits bind_splits
            intro!: loop_post_stop ms_elapse_sends)
    qed
    then show ?thesis using loop_post_step [OF s(2) c] by simp
  next
    case False
    then have "sends fd [] w w1" using s(2) by simp
    then have w1: "sends fd [] w w'" if "sends fd [] w1 w'" for w'
      using sends_trans that by fastforce
    show ?thesis
      using assms(1,3) rs False
      by (auto simp: FullSend_round_def Let_def split: if_splits bind_splits prod.splits
            intro!: loop_post_stop w1
            intro: ms_elapse_sends sends_trans [of fd "[]" _ _ "[]", simplified] Raw_Select_sends)
  qed
qed

lemma FullSend_round_Inr:
  assumes "FullSend_round os fd buf t st n w = Some (Inr (n', w'))" and "os_send_ok os" and "n < length buf"
  shows "n \<le> n' \<and> n' < length buf \<and> sends fd (take (n' - n) (drop n buf)) w w'"
proof -
  obtain count w1 where rs: "Raw_Send os fd (drop n buf) w = (count, w1)" by (metis surj_pair)
  note s = Raw_Send_sends [OF assms(2) rs]
  have w1: "sends fd (take (nat count) (drop n buf)) w w'" if "sends fd [] w1 w'"
    using sends_trans [OF s(2) that] by simp
  show ?thesis
    using assms(1,3) rs w1
    by (auto simp: FullSend_round_def Let_def split: if_splits bind_splits prod.splits
            dest!: ms_elapse_sends [where fd = fd] Raw_Select_sends [where fd = fd]
            dest: sends_trans [of fd "[]" _ _ "[]", simplified])
qed

lemma FullSend_loop_post:
  assumes "FullSend_loop os fd buf t st n w = Some rw" and "os_send_ok os" and "n \<le> length buf"
  shows "loop_post fd buf n w rw"
proof -
  have "os_send_ok os \<longrightarrow> n \<le> length buf \<longrightarrow> loop_post fd buf n w rw"
  proof (rule FullSend_loop.raw_induct [OF _ assms(1),
        where P = "\<lambda>os fd buf t st n w rw. os_send_ok os \<longrightarrow> n \<le> length buf \<longrightarrow> loop_post fd buf n w rw"], intro impI)
    fix f and os :: "'a os" and fd buf t st n and w :: "('a, 'b) world" and rw
    assume IH: "\<And>(os :: 'a os) fd buf t st n w rw. f os fd buf t st n w = Some rw \<Longrightarrow>
        os_send_ok os \<longrightarrow> n \<le> length buf \<longrightarrow> loop_post fd buf n w rw"
      and eq: "(if \<not> n < length buf then Some (int n, w)
        else do {
          nxt \<leftarrow> FullSend_round os fd buf t st n w;
          (case nxt of Inl rw \<Rightarrow> Some rw | Inr nw \<Rightarrow> f os fd buf t st (fst nw) (snd nw))
        }) = Some rw"
      and ok: "os_send_ok os" and n: "n \<le> length buf"
    show "loop_post fd buf n w rw"
    proof (cases "n < length buf")
      case False
      then show ?thesis using eq n by (auto simp: loop_post_def)
    next
      case True
      then obtain nxt where nxt: "FullSend_round os fd buf t st n w = Some nxt"
        and k: "(case nxt of Inl rw \<Rightarrow> Some rw | Inr nw \<Rightarrow> f os fd buf t st (fst nw) (snd nw)) = Some rw"
        using eq by (auto split: bind_splits)
      show ?thesis
      proof (cases nxt)
        case (Inl a)
        then show ?thesis using nxt k FullSend_round_Inl [OF _ ok True, of fd t st w rw] by simp
      next
        case (Inr nw)
        then have r: "n \<le> fst nw" "fst nw < length buf" "sends fd (take (fst nw - n) (drop n buf)) w (snd nw)"
          using nxt FullSend_round_Inr [OF _ ok True, of fd t st w "fst nw" "snd nw"] by auto
        moreover have "loop_post fd buf (fst nw) (snd nw) rw" using IH k Inr ok r(2) by auto
        ultimately show ?thesis
          using loop_post_step [of fd "fst nw - n" n buf w "snd nw" rw] by auto
      qed
    qed
  qed
  then show ?thesis using assms(2,3) by blast
qed

lemma FullSend_law:
  assumes "os_send_ok os" and "FullSend os fd buf t w = Some (r, w')"
  shows "\<exists>k \<le> length buf. sends fd (take k buf) w w' \<and>
    (r = int (length buf) \<and> k = length buf \<or> r \<in> {0, -1, -2} \<and> k < length buf)"
proof -
  obtain st w1 where st: "ms_elapse os 0 w = Some (st, w1)"
    and l: "FullSend_loop os fd buf t (u64_to_i64 st) 0 w1 = Some (r, w')"
    using assms(2) by (auto simp: FullSend_def split: bind_splits)
  have "loop_post fd buf 0 w1 (r, w')"
    using FullSend_loop_post [OF l assms(1)] by simp
  then show ?thesis
    using sends_trans [OF ms_elapse_sends [OF st]] by (fastforce simp: loop_post_def)
qed

lemma Raw_Recv_law:
  assumes "os_recv_ok os" and "Raw_Recv os fd n w = (r, bs, w')"
  shows "length bs \<le> n \<and> (if r > 0 then r = int (length bs) else bs = [] \<and> - 2147483648 \<le> r) \<and>
      w_log_level w' = w_log_level w \<and>
      (\<exists>evs. w_trace w' = w_trace w @ evs \<and> (evs = [] \<and> bs = [] \<or> evs = [Ev_recv fd bs]))"
  using assms(2) os_recv_okD [OF assms(1), of fd n "w_os w"]
  by (auto simp: Raw_Recv_def split: prod.splits recv_answer.splits)

interpretation sock: socket_contract
  "si_FullSend (SocketInterface_of os)" "si_Recv (SocketInterface_of os)" "os_send_ok os \<and> os_recv_ok os"
  for os :: "'w os"
proof (unfold_locales, goal_cases)
  case (1 fd buf timeout w r w')
  then show ?case using FullSend_law [of os fd buf timeout w r w'] by (simp add: SocketInterface_of_def)
next
  case (2 fd n w r bs w')
  then show ?case using Raw_Recv_law [of os fd n w r bs w'] by (simp add: SocketInterface_of_def)
qed

section \<open>A full send returns\<close>

text \<open>
  A round that goes on read the clock before the deadline, has moved time on and has logged one
  send or one wait; one that returns logs at most one.
\<close>

lemma FullSend_round_time:
  assumes "os_clock_ok os" and "os_time_passes os now tick" and "0 \<le> fd" and "fd < FD_SETSIZE"
    and "start * 1000000 \<le> now (w_os w) div tick * tick" and "t < 9223372036000"
  shows "\<exists>x. FullSend_round os fd buf (int t) (int start) n w = Some x \<and>
    (case x of
       Inl (r, w') \<Rightarrow> \<exists>evs. w_trace w' = w_trace w @ evs \<and> length evs \<le> 1
     | Inr (n', w') \<Rightarrow> (\<exists>e. w_trace w' = w_trace w @ [e]) \<and> now (w_os w) \<le> now (w_os w') \<and>
         now (w_os w) < start * 1000000 + (t + 1) * 1000000 + tick \<and>
         (start * 1000000 + (t + 1) * 1000000 + tick < clock_end \<longrightarrow> now (w_os w) < now (w_os w')))"
proof -
  have tick: "0 < tick" using assms(2) by (simp add: os_time_passes_def)
  obtain c w1 where rs: "Raw_Send os fd (drop n buf) w = (c, w1)" by (metis surj_pair)
  have s1: "if 0 < c then \<exists>e. w_trace w1 = w_trace w @ [e] else c = 0 \<longrightarrow> (\<exists>e. w_trace w1 = w_trace w @ [e])"
    "c < 0 \<longrightarrow> w_trace w1 = w_trace w"
    using rs by (auto simp: Raw_Send_def split: prod.splits send_answer.splits)
  have t1: "now (w_os w) \<le> now (w_os w1)" by (rule Raw_Send_time [OF assms(2) rs])
  let ?r = "now (w_os w1) div tick * tick" let ?el = "(?r - start * 1000000) div 1000000"
  have "now (w_os w) div tick * tick \<le> ?r" using t1 by (simp add: div_le_mono)
  then have st: "start * 1000000 \<le> ?r" using assms(5) by linarith
  obtain w2 where ms: "ms_elapse os (of_nat start) w1 = Some (of_nat ?el, w2)" and end1: "?r < clock_end"
    and w2: "w_trace w2 = w_trace w1" "w_errno w2 = w_errno w1" "now (w_os w1) \<le> now (w_os w2)"
      "now (w_os w1) + 1 < clock_end \<longrightarrow> now (w_os w1) < now (w_os w2)"
    using ms_elapse_time [OF assms(1,2) st] by blast
  have el: "?el < 9223372036000" using end1 by (simp add: clock_end_def div_less_iff_less_mult)
  have wel: "unat (of_nat ?el :: u64) = ?el" "unat (to_u64 (int t)) = t"
    using el assms(6) by (simp_all add: unat_of_nat to_u64_def)
  have early: "now (w_os w) < start * 1000000 + (t + 1) * 1000000 + tick \<and>
      (start * 1000000 + (t + 1) * 1000000 + tick < clock_end \<longrightarrow> now (w_os w) < now (w_os w3))"
    if "?el \<le> t" "now (w_os w2) \<le> now (w_os w3)" for w3
  proof -
    have "?r - start * 1000000 < (t + 1) * 1000000"
      using that(1) div_less_iff_less_mult [of 1000000 "?r - start * 1000000" "t + 1"] by simp
    then have "?r < start * 1000000 + (t + 1) * 1000000" using st by linarith
    moreover have "now (w_os w1) < ?r + tick"
      using tick mod_less_divisor [OF tick, of "now (w_os w1)"] div_mult_mod_eq [of "now (w_os w1)" tick] by linarith
    ultimately show ?thesis using t1 w2(3,4) that(2) by linarith
  qed
  have us: "to_u64 (int start) = of_nat start" by (simp add: to_u64_def)
  consider (some) "0 < c" | (closed) "c = 0" | (failed) "c < 0" by linarith
  then show ?thesis
  proof cases
    case some
    have cmp: "to_u64 (int t) < of_nat ?el \<longleftrightarrow> t < ?el" using wel by (simp add: word_less_nat_alt)
    show ?thesis
      using some rs s1 w2 early [of w2] ms us t1 cmp
      by (auto simp: FullSend_round_def Let_def not_less)
  next
    case closed
    then show ?thesis using rs s1 by (auto simp: FullSend_round_def)
  next
    case failed
    let ?sl = "u64_to_i64 (to_u64 (int t) - of_nat ?el)"
    have sl: "?sl = int t - int ?el"
      using u64_to_i64_id [of "int t - int ?el"] el assms(6) by (simp add: to_u64_def i64_ok_def)
    obtain num fds w3 where sel: "Raw_Select os (fd + 1) {} {fd}
        \<lparr>tv_sec = ?sl sdiv 1000, tv_usec = (?sl smod 1000) * 1000\<rparr> w2 = (num, fds, w3)"
      by (metis surj_pair)
    have w3: "\<exists>e. w_trace w3 = w_trace w2 @ [e]" "now (w_os w2) \<le> now (w_os w3)"
      using sel Raw_Select_time [OF assms(2) sel] by (auto simp: Raw_Select_def split: prod.splits)
    show ?thesis
      using failed rs s1 w2 w3 early [of w3] ms us t1 sel sl assms(3,4)
      by (auto simp: FullSend_round_def Let_def FD_SET_def not_less)
  qed
qed

text \<open>
  So the rounds are bounded by the time that is left: this counts the events of the loop.
\<close>

lemma FullSend_loop_time:
  assumes "os_clock_ok os" and "os_time_passes os now tick" and "0 \<le> fd" and "fd < FD_SETSIZE"
    and "t < 9223372036000" and "start * 1000000 + (t + 1) * 1000000 + tick < clock_end"
    and "start * 1000000 \<le> now (w_os w) div tick * tick"
  shows "\<exists>r w' evs. FullSend_loop os fd buf (int t) (int start) n w = Some (r, w') \<and> w_trace w' = w_trace w @ evs \<and>
    length evs \<le> start * 1000000 + (t + 1) * 1000000 + tick - now (w_os w) + 1"
  using assms(7)
proof (induction "start * 1000000 + (t + 1) * 1000000 + tick - now (w_os w)" arbitrary: n w rule: less_induct)
  case less
  let ?B = "start * 1000000 + (t + 1) * 1000000 + tick"
  show ?case
  proof (cases "n < length buf")
    case False
    then show ?thesis by (simp add: FullSend_loop.simps)
  next
    case True
    obtain x where x: "FullSend_round os fd buf (int t) (int start) n w = Some x"
      and c: "case x of
         Inl (r, w') \<Rightarrow> \<exists>evs. w_trace w' = w_trace w @ evs \<and> length evs \<le> 1
       | Inr (n', w') \<Rightarrow> (\<exists>e. w_trace w' = w_trace w @ [e]) \<and> now (w_os w) \<le> now (w_os w') \<and>
           now (w_os w) < ?B \<and> (?B < clock_end \<longrightarrow> now (w_os w) < now (w_os w'))"
      using FullSend_round_time [OF assms(1-4) less.prems assms(5)] by blast
    show ?thesis
    proof (cases x)
      case (Inl rw)
      then obtain r w' evs where "rw = (r, w')" "w_trace w' = w_trace w @ evs" "length evs \<le> 1"
        using c by (auto split: prod.splits)
      then show ?thesis using True x Inl by (subst FullSend_loop.simps) simp
    next
      case (Inr nw)
      then obtain n' w1 e where nw: "nw = (n', w1)" "w_trace w1 = w_trace w @ [e]" "now (w_os w) < ?B"
        "now (w_os w) < now (w_os w1)"
        using c assms(6) by (auto split: prod.splits)
      have "start * 1000000 \<le> now (w_os w1) div tick * tick"
        using less.prems div_le_mono [of "now (w_os w)" "now (w_os w1)" tick] nw(4)
        by (meson le_trans less_imp_le mult_le_mono1)
      then obtain r w' evs where l: "FullSend_loop os fd buf (int t) (int start) n' w1 = Some (r, w')"
        "w_trace w' = w_trace w1 @ evs" "length evs \<le> ?B - now (w_os w1) + 1"
        using less.hyps [OF diff_less_mono2 [OF nw(4,3)], of n'] by blast
      then have "FullSend_loop os fd buf (int t) (int start) n w = Some (r, w')"
        using True x Inr nw(1) by (subst FullSend_loop.simps) simp
      moreover have "length (e # evs) \<le> ?B - now (w_os w) + 1" using l(3) nw(3,4) by simp
      ultimately show ?thesis using l(2) nw(2) by (intro exI [of _ r] exI [of _ w'] exI [of _ "e # evs"]) simp
    qed
  qed
qed

lemma FullSend_time:
  assumes "os_clock_ok os" and "os_time_passes os now tick" and "0 \<le> fd" and "fd < FD_SETSIZE"
    and "now (w_os w) + (t + 1) * 1000000 + tick < clock_end"
  shows "\<exists>r w' evs. FullSend os fd buf (int t) w = Some (r, w') \<and> w_trace w' = w_trace w @ evs \<and>
    length evs \<le> (t + 1) * 1000000 + tick"
proof -
  let ?r = "now (w_os w) div tick * tick" let ?st = "?r div 1000000"
  obtain w1 where ms: "ms_elapse os 0 w = Some (of_nat ?st, w1)" and w1: "w_trace w1 = w_trace w"
    "now (w_os w) < now (w_os w1)"
    using ms_elapse_time [OF assms(1,2), of 0 w] assms(5) by auto
  have r: "?r \<le> now (w_os w)" "?st * 1000000 \<le> ?r" by (simp_all add: div_times_less_eq_dividend)
  have "?st * 1000000 < clock_end" "t * 1000000 < clock_end" using assms(5) r by (linarith, simp)
  then have lim: "t < 9223372036000" "?st < 9223372036000" unfolding clock_end_def by linarith+
  have st: "u64_to_i64 (of_nat ?st) = int ?st"
    using u64_to_i64_id [of "int ?st"] lim(2) by (simp add: to_u64_def i64_ok_def)
  have "?st * 1000000 \<le> now (w_os w1) div tick * tick"
    using r(2) div_le_mono [of "now (w_os w)" "now (w_os w1)" tick] w1(2)
    by (meson le_trans less_imp_le mult_le_mono1)
  moreover have "?st * 1000000 + (t + 1) * 1000000 + tick < clock_end" using r assms(5) by linarith
  ultimately obtain r' w' evs where l: "FullSend_loop os fd buf (int t) (int ?st) 0 w1 = Some (r', w')"
    "w_trace w' = w_trace w1 @ evs"
    "length evs \<le> ?st * 1000000 + (t + 1) * 1000000 + tick - now (w_os w1) + 1"
    using FullSend_loop_time [OF assms(1-4) lim(1)] by blast
  moreover have "L \<le> c + k" if "L \<le> a + c + k - d + 1" "a \<le> b" "b \<le> e" "e < d" "0 < c" for L a b c d e k :: nat
    using that by linarith
  from this [OF l(3) r(2,1) w1(2)] have "length evs \<le> (t + 1) * 1000000 + tick" by simp
  moreover have "FullSend os fd buf (int t) w = Some (r', w')" using ms st l(1) by (simp add: FullSend_def)
  ultimately show ?thesis using w1(1) by simp
qed

end
