(* ===== verification/Gep_Protocol.thy ===== *)
theory Gep_Protocol
  imports Gep_Utils
begin

text \<open>
  \<open>GepProtocol\<close> (\<open>include/gep_protocol.h\<close>, \<open>src/gep_protocol.cc\<close>): tags, the 12-byte
  header and the message codec. The protobuf library is code outside the repository: it is
  the parameter \<open>pb\<close>, a record of its print and parse functions over an unknown message
  type \<open>'m\<close>. The pure virtual methods of the class are the parameter \<open>vt\<close>.
\<close>

section \<open>Tags\<close>

text \<open>
  The arguments are \<open>char\<close>, which is signed on the platforms the code is built for: all
  but the first are sign-extended when they are promoted to \<open>int\<close>.
\<close>

definition MakeTag :: "u8 \<Rightarrow> u8 \<Rightarrow> u8 \<Rightarrow> u8 \<Rightarrow> u32" where
  "MakeTag a b c d =
     push_bit 24 (scast a) OR push_bit 16 (scast b) OR push_bit 8 (scast c) OR scast d"

definition kMagic :: u32 where
  "kMagic = MakeTag 103 101 112 112"

definition kMaxTagString :: nat where
  "kMaxTagString = 4 * 4 + 1"

section \<open>The protocol object\<close>

definition kOffsetMagic :: nat where "kOffsetMagic = 0"
definition kOffsetTag :: nat where "kOffsetTag = 4"
definition kOffsetLen :: nat where "kOffsetLen = 8"
definition kOffsetValue :: nat where "kOffsetValue = 12"

definition kHdrLen :: u32 where
  "kHdrLen = of_nat kOffsetValue"

definition kMaxMsgLen :: u32 where
  "kMaxMsgLen = push_bit 20 1"

datatype Mode = MODE_TEXT | MODE_BINARY

record proto =
  pr_port :: int
  pr_mode :: Mode
  pr_magic :: u32
  pr_select_timeout_usec :: int

text \<open>
  The protobuf library. \<open>pb_lite\<close> says whether the code is built with \<open>GEP_LITE\<close>.
  A print or parse that reports failure is \<open>None\<close>. Parsing works on an existing message
  object, which fixes the message type.
\<close>

record 'm pb =
  pb_lite :: bool
  pb_print_text :: "'m \<Rightarrow> u8 list option"
  pb_parse_text :: "u8 list \<Rightarrow> 'm \<Rightarrow> 'm option"
  pb_serialize :: "'m \<Rightarrow> u8 list option"
  pb_clear :: "'m \<Rightarrow> 'm"
  pb_parse :: "u8 list \<Rightarrow> 'm \<Rightarrow> 'm option"

text \<open>The virtual methods a protocol implements. A tag without a message is a null pointer.\<close>

record 'm proto_vt =
  vt_GetTag :: "'m \<Rightarrow> u32"
  vt_GetMessage :: "u32 \<Rightarrow> 'm option"

definition kMode :: "'m pb \<Rightarrow> Mode" where
  "kMode pb = (if pb_lite pb then MODE_BINARY else MODE_TEXT)"

definition kDefaultSelectTimeUsec :: int where
  "kDefaultSelectTimeUsec = the (secs_to_usecs 1)"

definition GepProtocol_new :: "'m pb \<Rightarrow> int \<Rightarrow> proto" where
  "GepProtocol_new pb port =
     \<lparr>pr_port = port, pr_mode = kMode pb, pr_magic = kMagic,
      pr_select_timeout_usec = kDefaultSelectTimeUsec\<rparr>"

definition SetSelectTimeoutUsec :: "int \<Rightarrow> proto \<Rightarrow> proto" where
  "SetSelectTimeoutUsec usec p = p\<lparr>pr_select_timeout_usec := usec\<rparr>"

definition SetMode :: "Mode \<Rightarrow> proto \<Rightarrow> proto" where
  "SetMode mode p = p\<lparr>pr_mode := mode\<rparr>"

definition SetMagic :: "u32 \<Rightarrow> proto \<Rightarrow> proto" where
  "SetMagic magic p = p\<lparr>pr_magic := magic\<rparr>"

definition SetPort :: "int \<Rightarrow> proto \<Rightarrow> proto" where
  "SetPort port p = p\<lparr>pr_port := port\<rparr>"

text \<open>\<open>htonl\<close> lays the tag out in memory most significant byte first.\<close>

definition TagString :: "nat \<Rightarrow> mem \<Rightarrow> u32 \<Rightarrow> int \<Rightarrow> (nat \<times> mem) option" where
  "TagString cap buf tag max_buf = snprintf_printable cap buf max_buf (SET_UINT32 tag) 4"

definition ScanHeader :: "proto \<Rightarrow> nat \<Rightarrow> mem \<Rightarrow> nat \<Rightarrow> (bool \<times> u32 \<times> u32) option" where
  "ScanHeader p cap m buf = do {
     magic \<leftarrow> peek cap m (buf + kOffsetMagic) 4;
     tag \<leftarrow> peek cap m (buf + kOffsetTag) 4;
     value_len \<leftarrow> peek cap m (buf + kOffsetLen) 4;
     Some (UINT32 magic = pr_magic p, UINT32 tag, UINT32 value_len)
   }"

definition PrintHeader :: "proto \<Rightarrow> u32 \<Rightarrow> u32 \<Rightarrow> nat \<Rightarrow> mem \<Rightarrow> nat \<Rightarrow> mem option" where
  "PrintHeader p tag value_len cap m buf = do {
     m \<leftarrow> poke cap m (buf + kOffsetMagic) (SET_UINT32 (pr_magic p));
     m \<leftarrow> poke cap m (buf + kOffsetTag) (SET_UINT32 tag);
     poke cap m (buf + kOffsetLen) (SET_UINT32 value_len)
   }"

definition Serialize :: "'m pb \<Rightarrow> proto \<Rightarrow> 'm \<Rightarrow> u8 list option" where
  "Serialize pb p msg =
     (if \<not> pb_lite pb \<and> pr_mode p = MODE_TEXT then pb_print_text pb msg
      else pb_serialize pb msg)"

definition Unserialize :: "'m pb \<Rightarrow> proto \<Rightarrow> u8 list \<Rightarrow> 'm \<Rightarrow> 'm option" where
  "Unserialize pb p s msg =
     (if \<not> pb_lite pb \<and> pr_mode p = MODE_TEXT then pb_parse_text pb s msg
      else let msg = pb_clear pb msg in
        if s \<noteq> [] then pb_parse pb s msg else Some msg)"

text \<open>
  What protobuf documents about its two encodings, for the messages of a protocol: parsing
  what was printed into an object of the same type gives the message back, and a message
  whose binary encoding is empty is the cleared one.
\<close>

definition codec_ok :: "'m pb \<Rightarrow> 'm proto_vt \<Rightarrow> bool" where
  "codec_ok pb vt \<longleftrightarrow> (\<forall>m e s. vt_GetMessage vt (vt_GetTag vt m) = Some e \<longrightarrow>
     (pb_print_text pb m = Some s \<longrightarrow> pb_parse_text pb s e = Some m) \<and>
     (pb_serialize pb m = Some s \<longrightarrow>
        (if s = [] then pb_clear pb e = m else pb_parse pb s (pb_clear pb e) = Some m)))"

section \<open>Lemmas\<close>

lemmas hdr_consts =
  kOffsetMagic_def kOffsetTag_def kOffsetLen_def kOffsetValue_def

lemma kHdrLen_12 [simp]: "kHdrLen = 12"
  by (simp add: kHdrLen_def kOffsetValue_def)

lemma kMaxMsgLen_val [simp]: "kMaxMsgLen = 1048576"
  by (simp add: kMaxMsgLen_def push_bit_eq_mult)

definition header_bytes :: "u32 \<Rightarrow> u32 \<Rightarrow> u32 \<Rightarrow> u8 list" where
  "header_bytes magic tag value_len = SET_UINT32 magic @ SET_UINT32 tag @ SET_UINT32 value_len"

lemma length_header_bytes [simp]: "length (header_bytes magic tag value_len) = 12"
  by (simp add: header_bytes_def)

lemma PrintHeader_bytes:
  assumes "PrintHeader p tag value_len cap m 0 = Some m'"
  shows "bytes_at m' 0 12 = header_bytes (pr_magic p) tag value_len"
proof -
  obtain m1 m2 where m1: "poke cap m 0 (SET_UINT32 (pr_magic p)) = Some m1"
    and m2: "poke cap m1 4 (SET_UINT32 tag) = Some m2"
    and m3: "poke cap m2 8 (SET_UINT32 value_len) = Some m'"
    using assms by (auto simp: PrintHeader_def hdr_consts split: bind_splits)
  have "bytes_at m1 0 4 = SET_UINT32 (pr_magic p)" using poke_append [OF m1] by simp
  then have "bytes_at m2 0 8 = SET_UINT32 (pr_magic p) @ SET_UINT32 tag" using poke_append [OF m2] by simp
  then show ?thesis using poke_append [OF m3] by (simp add: header_bytes_def)
qed

lemma PrintHeader_defined: "12 \<le> cap \<Longrightarrow> \<exists>m'. PrintHeader p tag value_len cap m 0 = Some m'"
  by (simp add: PrintHeader_def hdr_consts poke_def)

lemma ScanHeader_bytes:
  assumes "12 \<le> cap"
  shows "ScanHeader p cap m 0 =
    Some (UINT32 (bytes_at m 0 4) = pr_magic p, UINT32 (bytes_at m 4 4), UINT32 (bytes_at m 8 4))"
  using assms by (simp add: ScanHeader_def hdr_consts peek_def)

lemma Unserialize_Serialize:
  assumes "codec_ok pb vt" and "vt_GetMessage vt (vt_GetTag vt m) = Some e" and "Serialize pb p m = Some s"
  shows "Unserialize pb p s e = Some m"
  using assms unfolding codec_ok_def Serialize_def Unserialize_def Let_def
  by (metis (no_types, lifting))

lemma TagString_defined: "\<exists>r. TagString kMaxTagString buf tag (int kMaxTagString) = Some r"
  using snprintf_printable_defined [of "int kMaxTagString" kMaxTagString 4 "SET_UINT32 tag" buf]
  by (simp add: TagString_def kMaxTagString_def)

end
