(* ===== verification/Gep_Wire.thy ===== *)
theory Gep_Wire
  imports Gep_Protocol
begin

text \<open>
  The wire format of the README (figure 6) as a specification: what one message looks like
  on the wire, and what a byte stream means. A channel is later shown to implement
  \<open>parse_frames\<close>, whatever pieces the stream arrives in.
\<close>

definition frame_bytes :: "u32 \<Rightarrow> u32 \<times> u8 list \<Rightarrow> u8 list" where
  "frame_bytes magic f = header_bytes magic (fst f) (of_nat (length (snd f))) @ snd f"

text \<open>Values of this many bytes or more are refused by a receiver.\<close>

definition max_value_len :: nat where
  "max_value_len = 1048564"

text \<open>How a stream ends: with the beginning of a frame, or at a header that is refused.\<close>

datatype stream_end = More "u8 list" | Bad

function parse_frames :: "u32 \<Rightarrow> u8 list \<Rightarrow> (u32 \<times> u8 list) list \<times> stream_end" where
  "parse_frames magic bs =
     (if length bs < 12 then ([], More bs)
      else if UINT32 (take 4 bs) \<noteq> magic then ([], Bad)
      else let n = unat (UINT32 (take 4 (drop 8 bs))) in
        if n \<ge> max_value_len then ([], Bad)
        else if length bs < 12 + n then ([], More bs)
        else let (fs, e) = parse_frames magic (drop (12 + n) bs)
             in ((UINT32 (take 4 (drop 4 bs)), take n (drop 12 bs)) # fs, e))"
  by pat_completeness auto
termination
  by (relation "measure (\<lambda>(magic, bs). length bs)") auto

declare parse_frames.simps [simp del]

text \<open>The three ways to look at the front of a stream.\<close>

lemma parse_short: "length bs < 12 \<Longrightarrow> parse_frames magic bs = ([], More bs)"
  by (simp add: parse_frames.simps)

lemma parse_bad:
  "12 \<le> length bs \<Longrightarrow> UINT32 (take 4 bs) \<noteq> magic \<or> max_value_len \<le> unat (UINT32 (take 4 (drop 8 bs)))
   \<Longrightarrow> parse_frames magic bs = ([], Bad)"
  by (auto simp: parse_frames.simps)

lemma parse_wait:
  "12 \<le> length bs \<Longrightarrow> UINT32 (take 4 bs) = magic \<Longrightarrow> n = unat (UINT32 (take 4 (drop 8 bs))) \<Longrightarrow>
   n < max_value_len \<Longrightarrow> length bs < 12 + n \<Longrightarrow> parse_frames magic bs = ([], More bs)"
  by (simp add: parse_frames.simps)

lemma parse_frame:
  "12 + n \<le> length bs \<Longrightarrow> UINT32 (take 4 bs) = magic \<Longrightarrow> n = unat (UINT32 (take 4 (drop 8 bs))) \<Longrightarrow>
   n < max_value_len \<Longrightarrow> parse_frames magic bs =
     ((UINT32 (take 4 (drop 4 bs)), take n (drop 12 bs)) # fst (parse_frames magic (drop (12 + n) bs)),
      snd (parse_frames magic (drop (12 + n) bs)))"
  by (subst parse_frames.simps) (simp add: case_prod_beta Let_def)

lemmas parse_cases = parse_short parse_bad parse_wait parse_frame

text \<open>What remains of a stream always fits a receive buffer, with room to spare.\<close>

lemma parse_More_bound: "snd (parse_frames magic bs) = More r \<Longrightarrow> length r < 1048576"
proof (induction magic bs rule: parse_frames.induct)
  case (1 magic bs)
  then show ?case
    by (subst (asm) (2) parse_frames.simps)
       (auto simp: max_value_len_def Let_def case_prod_beta split: if_splits)
qed

text \<open>What remains of a stream is an incomplete frame.\<close>

lemma parse_More_rest: "snd (parse_frames magic bs) = More r \<Longrightarrow> parse_frames magic r = ([], More r)"
proof (induction magic bs rule: parse_frames.induct)
  case (1 magic bs)
  let ?n = "unat (UINT32 (take 4 (drop 8 bs)))"
  consider "length bs < 12" | "12 \<le> length bs" "UINT32 (take 4 bs) \<noteq> magic \<or> max_value_len \<le> ?n"
    | "12 \<le> length bs" "UINT32 (take 4 bs) = magic" "?n < max_value_len" "length bs < 12 + ?n"
    | "UINT32 (take 4 bs) = magic" "?n < max_value_len" "12 + ?n \<le> length bs" by linarith
  then show ?case
  proof cases
    case 1
    then show ?thesis using "1.prems" by (simp add: parse_short)
  next
    case 2
    then show ?thesis using "1.prems" parse_bad by fastforce
  next
    case 3
    then show ?thesis using "1.prems" parse_wait [OF 3(1,2) refl 3(3,4)] by simp
  next
    case 4
    then have "snd (parse_frames magic (drop (12 + ?n) bs)) = More r"
      using "1.prems" parse_frame [OF 4(3) 4(1) refl 4(2)] by simp
    then show ?thesis
      by (intro "1.IH" [OF _ _ refl]) (use 4 in simp_all)
  qed
qed

text \<open>Parsing a stream in two parts is parsing it at once.\<close>

lemma parse_append:
  "parse_frames magic (a @ b) =
     (case parse_frames magic a of
        (fs, Bad) \<Rightarrow> (fs, Bad)
      | (fs, More r) \<Rightarrow> (fs @ fst (parse_frames magic (r @ b)), snd (parse_frames magic (r @ b))))"
proof (induction magic a rule: parse_frames.induct)
  case (1 magic a)
  let ?n = "unat (UINT32 (take 4 (drop 8 a)))"
  consider "length a < 12" | "12 \<le> length a" "UINT32 (take 4 a) \<noteq> magic \<or> max_value_len \<le> ?n"
    | "12 \<le> length a" "UINT32 (take 4 a) = magic" "?n < max_value_len" "length a < 12 + ?n"
    | "UINT32 (take 4 a) = magic" "?n < max_value_len" "12 + ?n \<le> length a" by linarith
  then show ?case
  proof cases
    case 1
    then show ?thesis by (simp add: parse_short)
  next
    case 2
    then show ?thesis using parse_bad [of a] parse_bad [of "a @ b"] by simp
  next
    case 3
    then show ?thesis using parse_wait [of a magic ?n] by simp
  next
    case 4
    have "parse_frames magic (drop (12 + ?n) a @ b) =
      (case parse_frames magic (drop (12 + ?n) a) of
        (fs, Bad) \<Rightarrow> (fs, Bad)
      | (fs, More r) \<Rightarrow> (fs @ fst (parse_frames magic (r @ b)), snd (parse_frames magic (r @ b))))"
      by (rule "1.IH" [OF _ _ refl]) (use 4 in simp_all)
    moreover have parts: "take 4 (a @ b) = take 4 a" "take 4 (drop 8 (a @ b)) = take 4 (drop 8 a)"
      "take 4 (drop 4 (a @ b)) = take 4 (drop 4 a)" "take ?n (drop 12 (a @ b)) = take ?n (drop 12 a)"
      "drop (12 + ?n) (a @ b) = drop (12 + ?n) a @ b" "12 + ?n \<le> length (a @ b)"
      using 4(3) by simp_all
    moreover have p: "parse_frames magic (a @ b) =
      ((UINT32 (take 4 (drop 4 (a @ b))), take ?n (drop 12 (a @ b))) #
         fst (parse_frames magic (drop (12 + ?n) (a @ b))),
       snd (parse_frames magic (drop (12 + ?n) (a @ b))))"
      by (rule parse_frame [OF parts(6)]) (simp_all only: parts(1,2) 4(1,2))
    moreover have "parse_frames magic (a @ b) =
      ((UINT32 (take 4 (drop 4 a)), take ?n (drop 12 a)) # fst (parse_frames magic (drop (12 + ?n) a @ b)),
       snd (parse_frames magic (drop (12 + ?n) a @ b)))"
      using p unfolding parts .
    moreover obtain fs e where r: "parse_frames magic (drop (12 + ?n) a) = (fs, e)"
      by fastforce
    moreover have "parse_frames magic a =
      ((UINT32 (take 4 (drop 4 a)), take ?n (drop 12 a)) # fs, e)"
      using parse_frame [OF 4(3) 4(1) refl 4(2)] by (simp only: r fst_conv snd_conv)
    ultimately show ?thesis
      by (cases e) (simp_all only: stream_end.case prod.case fst_conv snd_conv append_Cons)
  qed
qed

lemma parse_one_frame:
  assumes "length v < max_value_len"
  shows "parse_frames magic (frame_bytes magic (tag, v) @ bs) =
    ((tag, v) # fst (parse_frames magic bs), snd (parse_frames magic bs))"
proof -
  let ?a = "frame_bytes magic (tag, v) @ bs"
  have n: "unat (of_nat (length v) :: u32) = length v"
    using assms by (simp add: max_value_len_def unat_of_nat)
  have parts: "take 4 ?a = SET_UINT32 magic" "take 4 (drop 4 ?a) = SET_UINT32 tag"
    "take 4 (drop 8 ?a) = SET_UINT32 (of_nat (length v))" "drop 12 ?a = v @ bs"
    by (simp_all add: frame_bytes_def header_bytes_def)
  have "drop (12 + length v) ?a = drop (length v) (drop 12 ?a)"
    by (simp only: drop_drop add.commute)
  then have rest: "drop (12 + length v) ?a = bs" by (simp only: parts) simp
  have len: "12 + length v \<le> length ?a" by (simp add: frame_bytes_def)
  have "parse_frames magic ?a =
    ((UINT32 (take 4 (drop 4 ?a)), take (length v) (drop 12 ?a)) #
       fst (parse_frames magic (drop (12 + length v) ?a)),
     snd (parse_frames magic (drop (12 + length v) ?a)))"
    by (rule parse_frame [OF len]) (simp_all only: parts UINT32_SET_UINT32 n assms)
  moreover have "take (length v) (v @ bs) = v" by simp
  ultimately show ?thesis by (simp only: parts rest UINT32_SET_UINT32)
qed

lemma parse_frames_bytes:
  assumes "list_all (\<lambda>f. length (snd f) < max_value_len) fs"
  shows "parse_frames magic (concat (map (frame_bytes magic) fs) @ bs) =
    (fs @ fst (parse_frames magic bs), snd (parse_frames magic bs))"
  using assms
proof (induction fs)
  case Nil
  then show ?case by simp
next
  case (Cons f fs)
  then show ?case using parse_one_frame [of "snd f" magic "fst f"] by simp
qed

end
