(* ===== verification/Gep_Channel.thy ===== *)
theory Gep_Channel
  imports Gep_Socket Gep_Wire
begin

text \<open>
  \<open>GepChannel\<close> (\<open>include/gep_channel.h\<close>, \<open>src/gep_channel.cc\<close>): one connection. It
  buffers what it receives in a fixed array until a whole frame is there, unpacks the frame
  and runs the callback of its tag, and sends messages as a header followed by a value.

  The message and the callback's context are values of the parameters: a callback takes the
  unpacked message, the id of the channel and the world, and may be undefined (an
  exception). It acts on the world only: callbacks that close, resize or receive on the
  channel that is calling them are not modelled.
\<close>

section \<open>State\<close>

type_synonym ('w, 'm) callback = "'m \<Rightarrow> int \<Rightarrow> ('w, 'm) world \<Rightarrow> (int \<times> ('w, 'm) world) option"

text \<open>
  What a channel is given when it is made and only reads: the kernel, the protobuf library,
  the protocol's virtual methods, its socket interface, its table of callbacks
  (\<open>GepVFT\<close>) and the contents that fresh, uninitialised memory happens to have.
\<close>

record ('w, 'm) gep_env =
  e_os :: "'w os"
  e_pb :: "'m pb"
  e_vt :: "'m proto_vt"
  e_si :: "('w, 'm) socket_vt"
  e_ops :: "u32 \<Rightarrow> ('w, 'm) callback option"
  e_uninit :: mem

record channel =
  ch_id :: int
  ch_socket :: int
  ch_len :: int
  ch_buf :: mem

datatype Result = CMD_ERROR | CMD_OK | CMD_FRAGMENTED | CMD_DROPPED

primrec result_code :: "Result \<Rightarrow> int" where
  "result_code CMD_ERROR = -1"
| "result_code CMD_OK = 0"
| "result_code CMD_FRAGMENTED = 1"
| "result_code CMD_DROPPED = 2"

definition IsRecoverable :: "Result \<Rightarrow> bool" where
  "IsRecoverable ret \<longleftrightarrow> result_code ret \<ge> 0"

definition kGepSendTimeoutMs :: int where
  "kGepSendTimeoutMs = 5"

text \<open>\<open>sizeof(buf_)\<close>.\<close>

definition sizeof_buf :: nat where
  "sizeof_buf = unat kMaxMsgLen"

definition GepChannel_new :: "('w, 'm) gep_env \<Rightarrow> int \<Rightarrow> int \<Rightarrow> channel" where
  "GepChannel_new E cid socket =
     \<lparr>ch_id = cid, ch_socket = socket, ch_len = 0, ch_buf = e_uninit E\<rparr>"

section \<open>Opening and closing\<close>

definition OpenClientSocket ::
  "('w, 'm) gep_env \<Rightarrow> proto \<Rightarrow> channel \<Rightarrow> ('w, 'm) world \<Rightarrow> int \<times> channel \<times> ('w, 'm) world" where
  "OpenClientSocket E p ch w =
     (let (new_socket, w) = si_Socket (e_si E) w in
      if new_socket = -1 then (-1, ch, w)
      else let (r, w) = os_connect (e_os E) new_socket (word_of_int (pr_port p)) w in
        if r < 0 then (-1, ch, os_close (e_os E) new_socket w)
        else (0, ch\<lparr>ch_socket := new_socket\<rparr>, w))"

definition Close ::
  "('w, 'm) gep_env \<Rightarrow> channel \<Rightarrow> ('w, 'm) world \<Rightarrow> int \<times> channel \<times> ('w, 'm) world" where
  "Close E ch w =
     (if ch_socket ch \<noteq> -1
      then (0, ch\<lparr>ch_socket := -1, ch_len := 0\<rparr>, os_close (e_os E) (ch_socket ch) w)
      else (-1, ch, w))"

text \<open>The destructor closes the channel.\<close>

definition GepChannel_destroy ::
  "('w, 'm) gep_env \<Rightarrow> channel \<Rightarrow> ('w, 'm) world \<Rightarrow> ('w, 'm) world" where
  "GepChannel_destroy E ch w = snd (snd (Close E ch w))"

definition GetSocket :: "channel \<Rightarrow> int" where
  "GetSocket ch = ch_socket ch"

definition SetSocket :: "int \<Rightarrow> channel \<Rightarrow> channel" where
  "SetSocket socket ch = ch\<lparr>ch_socket := socket\<rparr>"

definition IsOpenSocket :: "channel \<Rightarrow> bool" where
  "IsOpenSocket ch \<longleftrightarrow> ch_socket ch \<noteq> -1"

definition GetLen :: "channel \<Rightarrow> int" where
  "GetLen ch = ch_len ch"

definition SetLen :: "int \<Rightarrow> channel \<Rightarrow> channel" where
  "SetLen len ch = ch\<lparr>ch_len := len\<rparr>"

section \<open>Receiving\<close>

text \<open>
  Unpack one value and run the callback of its tag. Making a message for a tag the
  protocol does not know is a null pointer, which unpacking dereferences: undefined. The
  text of an unpackable value is printed into an array of \<open>4 * value_len\<close> bytes.
\<close>

definition RecvTLV ::
  "('w, 'm) gep_env \<Rightarrow> proto \<Rightarrow> int \<Rightarrow> u32 \<Rightarrow> u8 list \<Rightarrow> ('w, 'm) world \<Rightarrow> (Result \<times> ('w, 'm) world) option"
where
  "RecvTLV E p cid tag value w = do {
     _ \<leftarrow> TagString kMaxTagString (e_uninit E) tag (int kMaxTagString);
     (case e_ops E tag of
        Some callback \<Rightarrow> do {
          msg \<leftarrow> vt_GetMessage (e_vt E) tag;
          (case Unserialize (e_pb E) p value msg of
             None \<Rightarrow> do {
               _ \<leftarrow> snprintf_printable (length value * 4) (e_uninit E) (int (length value * 4))
                     value (int (length value));
               Some (CMD_ERROR, w)
             }
           | Some msg \<Rightarrow> do {
               (ret, w) \<leftarrow> callback msg cid (emit (Ev_dispatch cid tag msg) w);
               Some (CMD_OK, w)
             })
        }
      | None \<Rightarrow> Some (CMD_DROPPED, w))
   }"

text \<open>The printing of a received command, which happens at the debug level only.\<close>

definition log_received ::
  "('w, 'm) gep_env \<Rightarrow> u32 \<Rightarrow> u32 \<Rightarrow> u8 list \<Rightarrow> ('w, 'm) world \<Rightarrow> unit option" where
  "log_received E tag value_len value w =
     (if gep_log_get_level w \<ge> LOG_DEBUG then do {
        _ \<leftarrow> snprintf_printable (unat (value_len * 4 + 1)) (e_uninit E) (uint (value_len * 4 + 1))
              value (u32_to_int value_len);
        _ \<leftarrow> TagString kMaxTagString (e_uninit E) tag (int kMaxTagString);
        Some ()
      } else Some ())"

text \<open>
  The body of the loop of \<open>RecvString\<close>: it returns (\<open>Inl\<close>) or goes round again
  (\<open>Inr\<close>). Comparisons of \<open>len_\<close>, an \<open>int\<close>, with the \<open>uint32_t\<close> lengths are
  unsigned.
\<close>

definition RecvString_round ::
  "('w, 'm) gep_env \<Rightarrow> proto \<Rightarrow> channel \<Rightarrow> ('w, 'm) world \<Rightarrow>
     ((Result \<times> channel \<times> ('w, 'm) world) + (channel \<times> ('w, 'm) world)) option"
where
  "RecvString_round E p ch w = do {
     (ok, tag, value_len) \<leftarrow> ScanHeader p sizeof_buf (ch_buf ch) 0;
     if \<not> ok then do {
       start \<leftarrow> peek sizeof_buf (ch_buf ch) 0 4;
       _ \<leftarrow> snprintf_printable (4 * 4 + 1) (e_uninit E) (4 * 4 + 1) start 4;
       Some (Inl (CMD_ERROR, ch\<lparr>ch_len := 0\<rparr>, w))
     }
     else if value_len \<ge> kMaxMsgLen - kHdrLen then Some (Inl (CMD_ERROR, ch\<lparr>ch_len := 0\<rparr>, w))
     else do {
       let msg_len = kHdrLen + value_len;
       if to_u32 (ch_len ch) < msg_len then Some (Inl (CMD_FRAGMENTED, ch, w))
       else do {
         value \<leftarrow> peek sizeof_buf (ch_buf ch) kOffsetValue (unat value_len);
         _ \<leftarrow> log_received E tag value_len value w;
         (ret, w) \<leftarrow> RecvTLV E p (ch_id ch) tag value w;
         if \<not> IsRecoverable ret then Some (Inl (ret, ch, w))
         else do {
           let remain = u32_to_int (to_u32 (ch_len ch) - msg_len);
           buf \<leftarrow> (if remain \<noteq> 0 then do {
                     rest \<leftarrow> peek sizeof_buf (ch_buf ch) (unat msg_len) (unat (to_u64 remain));
                     poke sizeof_buf (ch_buf ch) 0 rest
                   } else Some (ch_buf ch));
           Some (Inr (ch\<lparr>ch_buf := buf, ch_len := remain\<rparr>, w))
         }
       }
     }
   }"

lemma unat_msg_len:
  assumes "\<not> vl \<ge> kMaxMsgLen - kHdrLen"
  shows "unat (kHdrLen + vl) = 12 + unat vl" and "unat vl < max_value_len"
proof -
  have vl: "unat vl < 1048564"
    using assms by (simp add: not_le word_less_nat_alt)
  then show "unat vl < max_value_len"
    by (simp add: max_value_len_def)
  show "unat (kHdrLen + vl) = 12 + unat vl"
    using vl unat_add_lem [of kHdrLen vl] by simp
qed

text \<open>A round that goes on takes at least a header off the buffer.\<close>

lemma RecvString_round_decreases:
  assumes "RecvString_round E p ch w = Some (Inr (ch', w'))" and "to_u32 (ch_len ch) \<ge> kHdrLen"
  shows "to_u32 (ch_len ch') < to_u32 (ch_len ch)"
proof -
  obtain ok tag vl where h: "ScanHeader p sizeof_buf (ch_buf ch) 0 = Some (ok, tag, vl)"
    using assms(1) by (cases "ScanHeader p sizeof_buf (ch_buf ch) 0") (auto simp: RecvString_round_def)
  have ok: ok
    using assms(1) h by (cases ok) (auto simp: RecvString_round_def split: bind_splits)
  have vl: "\<not> vl \<ge> kMaxMsgLen - kHdrLen"
    using assms(1) h ok unfolding RecvString_round_def by (auto simp del: kHdrLen_12 kMaxMsgLen_val)
  have le: "\<not> to_u32 (ch_len ch) < kHdrLen + vl"
    using assms(1) h ok vl unfolding RecvString_round_def Let_def
    by (auto simp del: kHdrLen_12 kMaxMsgLen_val)
  have len: "ch_len ch' = u32_to_int (to_u32 (ch_len ch) - (kHdrLen + vl))"
    using assms(1) h ok vl le unfolding RecvString_round_def Let_def
    by (auto simp del: kHdrLen_12 kMaxMsgLen_val split: bind_splits if_splits)
  have "to_u32 (ch_len ch') = to_u32 (ch_len ch) - (kHdrLen + vl)"
    by (simp add: len to_u32_def u32_to_int_def)
  moreover have "unat (to_u32 (ch_len ch) - (kHdrLen + vl)) = unat (to_u32 (ch_len ch)) - (12 + unat vl)"
    using unat_sub [of "kHdrLen + vl" "to_u32 (ch_len ch)"] le unat_msg_len [OF vl] by (simp add: not_less)
  moreover have "12 + unat vl \<le> unat (to_u32 (ch_len ch))"
    using le unat_msg_len [OF vl] by (simp add: not_less word_le_nat_alt)
  ultimately show ?thesis
    by (simp add: word_less_nat_alt)
qed

function RecvString ::
  "('w, 'm) gep_env \<Rightarrow> proto \<Rightarrow> channel \<Rightarrow> ('w, 'm) world \<Rightarrow> (Result \<times> channel \<times> ('w, 'm) world) option"
where
  "RecvString E p ch w =
     (if \<not> to_u32 (ch_len ch) \<ge> kHdrLen
      then Some (if ch_len ch \<noteq> 0 then CMD_FRAGMENTED else CMD_OK, ch, w)
      else (case RecvString_round E p ch w of
          None \<Rightarrow> None
        | Some (Inl r) \<Rightarrow> Some r
        | Some (Inr (ch', w')) \<Rightarrow> RecvString E p ch' w'))"
  by pat_completeness auto
termination
  by (relation "measure (\<lambda>(E, p, ch, w). unat (to_u32 (ch_len ch)))")
     (use RecvString_round_decreases in \<open>auto simp: word_less_nat_alt not_less\<close>)

declare RecvString.simps [simp del]

definition RecvData ::
  "('w, 'm) gep_env \<Rightarrow> proto \<Rightarrow> channel \<Rightarrow> ('w, 'm) world \<Rightarrow> (int \<times> channel \<times> ('w, 'm) world) option"
where
  "RecvData E p ch w =
     (if ch_socket ch < 0 then Some (-1, ch, w)
      else if to_u64 (ch_len ch) \<ge> of_nat sizeof_buf then Some (-1, ch, w)
      else do {
        let (ret, data, w) = si_Recv (e_si E) (ch_socket ch) (sizeof_buf - unat (to_u64 (ch_len ch))) w;
        let bytes = narrow32 ret;
        buf \<leftarrow> poke sizeof_buf (ch_buf ch) (unat (to_u64 (ch_len ch))) data;
        let ch = ch\<lparr>ch_buf := buf\<rparr>;
        if bytes > 0 then do {
          len \<leftarrow> chk32 (ch_len ch + bytes);
          (res, ch, w) \<leftarrow> RecvString E p (ch\<lparr>ch_len := len\<rparr>) w;
          Some (if res = CMD_ERROR then -1 else 0, ch, w)
        }
        else if bytes = 0 then Some (-2, ch, w)
        else Some (-1, ch, w)
      })"

section \<open>Sending\<close>

definition SendData ::
  "('w, 'm) gep_env \<Rightarrow> channel \<Rightarrow> u8 list \<Rightarrow> ('w, 'm) world \<Rightarrow> (int \<times> ('w, 'm) world) option" where
  "SendData E ch buf w = si_FullSend (e_si E) (ch_socket ch) buf kGepSendTimeoutMs w"

text \<open>\<open>value\<close> is a pointer that may be null.\<close>

definition SendTLV ::
  "('w, 'm) gep_env \<Rightarrow> proto \<Rightarrow> channel \<Rightarrow> u32 \<Rightarrow> int \<Rightarrow> u8 list option \<Rightarrow> ('w, 'm) world \<Rightarrow>
     (int \<times> ('w, 'm) world) option"
where
  "SendTLV E p ch tag value_len value w = do {
     let value_len = (if value = None then 0 else value_len);
     _ \<leftarrow> TagString kMaxTagString (e_uninit E) tag (int kMaxTagString);
     buf \<leftarrow> PrintHeader p tag (to_u32 value_len) (unat kHdrLen) (e_uninit E) 0;
     hdr \<leftarrow> peek (unat kHdrLen) buf 0 (unat kHdrLen);
     (ret1, w) \<leftarrow> SendData E ch hdr w;
     if ret1 \<noteq> int (unat kHdrLen) then Some (-1, w)
     else if value_len \<le> 0 then Some (0, w)
     else do {
       data \<leftarrow> value;
       if length data < nat value_len then None
       else do {
         (ret2, w) \<leftarrow> SendData E ch (take (nat value_len) data) w;
         if ret2 \<noteq> value_len then Some (-1, w) else Some (0, w)
       }
     }
   }"

definition SendString ::
  "('w, 'm) gep_env \<Rightarrow> proto \<Rightarrow> channel \<Rightarrow> u32 \<Rightarrow> u8 list \<Rightarrow> ('w, 'm) world \<Rightarrow>
     (int \<times> ('w, 'm) world) option"
where
  "SendString E p ch tag s w = SendTLV E p ch tag (narrow32 (int (length s))) (Some s) w"

definition SendMessage ::
  "('w, 'm) gep_env \<Rightarrow> proto \<Rightarrow> channel \<Rightarrow> 'm \<Rightarrow> ('w, 'm) world \<Rightarrow> (int \<times> ('w, 'm) world) option" where
  "SendMessage E p ch msg w =
     (case Serialize (e_pb E) p msg of
        None \<Rightarrow> Some (-1, w)
      | Some s \<Rightarrow> SendString E p ch (vt_GetTag (e_vt E) msg) s w)"

end
