(* ===== verification/Gep_Receive.thy ===== *)
theory Gep_Receive
  imports Gep_Channel
begin

text \<open>
  Receiving on a channel: the loop over the fixed buffer (\<open>RecvString\<close>) refines the
  stream parser \<open>parse_frames\<close>, so what a connection delivers depends on the bytes that
  arrived and not on the pieces they arrived in.
\<close>

section \<open>Specification\<close>

text \<open>The bytes a channel holds, and its well-formedness while it is being filled.\<close>

definition content :: "channel \<Rightarrow> u8 list" where
  "content ch = bytes_at (ch_buf ch) 0 (nat (ch_len ch))"

definition chan_ok :: "channel \<Rightarrow> bool" where
  "chan_ok ch \<longleftrightarrow> 0 \<le> ch_len ch \<and> ch_len ch \<le> 1048576"

text \<open>Between two receives there is always room for more.\<close>

definition chan_room :: "channel \<Rightarrow> bool" where
  "chan_room ch \<longleftrightarrow> 0 \<le> ch_len ch \<and> ch_len ch < 1048576"

definition same_conn :: "channel \<Rightarrow> channel \<Rightarrow> bool" where
  "same_conn ch ch' \<longleftrightarrow> ch_id ch' = ch_id ch \<and> ch_socket ch' = ch_socket ch"

text \<open>Handling a list of frames: up to the first one that cannot be unpacked.\<close>

fun run_frames ::
  "('w, 'm) gep_env \<Rightarrow> proto \<Rightarrow> int \<Rightarrow> (u32 \<times> u8 list) list \<Rightarrow> ('w, 'm) world \<Rightarrow>
     (Result option \<times> ('w, 'm) world) option"
where
  "run_frames E p cid [] w = Some (None, w)"
| "run_frames E p cid ((tag, value) # fs) w =
     (case RecvTLV E p cid tag value w of
        None \<Rightarrow> None
      | Some (ret, w') \<Rightarrow>
          if IsRecoverable ret then run_frames E p cid fs w' else Some (Some ret, w'))"

text \<open>What the loop returns and leaves in the buffer when all frames were handled.\<close>

primrec end_result :: "stream_end \<Rightarrow> Result" where
  "end_result Bad = CMD_ERROR"
| "end_result (More r) = (if r = [] then CMD_OK else CMD_FRAGMENTED)"

primrec end_rest :: "stream_end \<Rightarrow> u8 list" where
  "end_rest Bad = []"
| "end_rest (More r) = r"

section \<open>One round of the loop\<close>

lemma chan_len: "chan_ok ch \<Longrightarrow> unat (to_u32 (ch_len ch)) = nat (ch_len ch)"
  by (rule unat_to_u32) (auto simp: chan_ok_def)

lemma length_content [simp]: "length (content ch) = nat (ch_len ch)"
  by (simp add: content_def)

lemma sizeof_buf_val [simp]: "sizeof_buf = 1048576"
  by (simp add: sizeof_buf_def)

lemma header_there: "chan_ok ch \<Longrightarrow> to_u32 (ch_len ch) \<ge> kHdrLen \<longleftrightarrow> 12 \<le> length (content ch)"
  by (simp add: chan_len word_le_nat_alt)

lemma len_content: "chan_ok ch \<Longrightarrow> ch_len ch = 0 \<longleftrightarrow> content ch = []"
  using length_content [of ch] by (auto simp: chan_ok_def simp flip: length_0_conv)

lemma header_content:
  assumes "chan_ok ch" and "12 \<le> length (content ch)" and "12 \<le> cap"
  shows "ScanHeader p cap (ch_buf ch) 0 =
    Some (UINT32 (take 4 (content ch)) = pr_magic p, UINT32 (take 4 (drop 4 (content ch))),
          UINT32 (take 4 (drop 8 (content ch))))"
proof -
  have "min 4 (nat (ch_len ch)) = 4" "min 4 (nat (ch_len ch) - 4) = 4" "min 4 (nat (ch_len ch) - 8) = 4"
    using assms(2) by auto
  then have "take 4 (content ch) = bytes_at (ch_buf ch) 0 4"
    "take 4 (drop 4 (content ch)) = bytes_at (ch_buf ch) 4 4"
    "take 4 (drop 8 (content ch)) = bytes_at (ch_buf ch) 8 4"
    by (simp_all add: content_def mem_simps)
  then show ?thesis
    using assms(3) by (simp add: ScanHeader_bytes)
qed

lemma round_bad_magic:
  assumes "chan_ok ch" and "12 \<le> length (content ch)" and "UINT32 (take 4 (content ch)) \<noteq> pr_magic p"
  shows "RecvString_round E p ch w = Some (Inl (CMD_ERROR, ch\<lparr>ch_len := 0\<rparr>, w))"
proof -
  obtain r where "snprintf_printable (4 * 4 + 1) (e_uninit E) (4 * 4 + 1) (bytes_at (ch_buf ch) 0 4) 4 = Some r"
    using snprintf_printable_defined [of "4 * 4 + 1" "4 * 4 + 1" 4 "bytes_at (ch_buf ch) 0 4" "e_uninit E"] by auto
  then show ?thesis
    using assms(3) by (simp add: RecvString_round_def header_content [OF assms(1,2)] peek_def)
qed

lemma round_too_long:
  assumes "chan_ok ch" and "12 \<le> length (content ch)" and "UINT32 (take 4 (content ch)) = pr_magic p"
    and "max_value_len \<le> unat (UINT32 (take 4 (drop 8 (content ch))))"
  shows "RecvString_round E p ch w = Some (Inl (CMD_ERROR, ch\<lparr>ch_len := 0\<rparr>, w))"
  using assms(3,4) by (simp add: RecvString_round_def header_content [OF assms(1,2)]
      max_value_len_def word_le_nat_alt)

lemma round_fragment:
  assumes "chan_ok ch" and "12 \<le> length (content ch)" and "UINT32 (take 4 (content ch)) = pr_magic p"
    and "vl = UINT32 (take 4 (drop 8 (content ch)))" and "unat vl < max_value_len"
    and "length (content ch) < 12 + unat vl"
  shows "RecvString_round E p ch w = Some (Inl (CMD_FRAGMENTED, ch, w))"
proof -
  have vl: "\<not> vl \<ge> kMaxMsgLen - kHdrLen"
    using assms(5) by (simp add: max_value_len_def word_le_nat_alt)
  have "to_u32 (ch_len ch) < kHdrLen + vl"
    using assms(6) unat_msg_len [OF vl] chan_len [OF assms(1)]
    by (simp only: word_less_nat_alt length_content)
  then show ?thesis
    using vl assms(3,4) by (simp add: RecvString_round_def header_content [OF assms(1,2)])
qed

lemma log_received_defined:
  assumes "length value = unat vl" and "unat vl < max_value_len"
  shows "log_received E tag vl value w = Some ()"
proof -
  have "unat (vl * 4) = unat vl * 4"
    using assms(2) unat_mult_lem [of vl 4] by (simp add: max_value_len_def)
  then have u: "unat (vl * 4 + 1) = unat vl * 4 + 1"
    using assms(2) unat_add_lem [of "vl * 4" 1] by (simp add: max_value_len_def)
  have sv: "u32_to_int vl = int (unat vl)"
    using assms(2) by (intro u32_to_int_small) (simp add: max_value_len_def)
  have ui: "uint (vl * 4 + 1) = int (unat vl * 4 + 1)"
    by (simp only: uint_nat u)
  have "\<exists>r. snprintf_printable (unat (vl * 4 + 1)) (e_uninit E) (uint (vl * 4 + 1)) value (u32_to_int vl) = Some r"
    unfolding ui u sv
  proof (rule snprintf_printable_defined)
    show "0 < int (unat vl * 4 + 1)" by (simp only: of_nat_0_less_iff)
  qed (use assms(1) in simp_all)
  then show ?thesis
    using TagString_defined [of "e_uninit E" tag] by (auto simp: log_received_def)
qed

text \<open>A complete frame: it is unpacked and what follows it moves to the front of the buffer.\<close>

lemma shift_mem:
  assumes "k \<le> n" and "n \<le> 1048576"
  shows "\<exists>buf. (if int (n - k) \<noteq> 0 then do {
            rest \<leftarrow> peek 1048576 m k (n - k);
            poke 1048576 m 0 rest
          } else Some m) = Some buf \<and> bytes_at buf 0 (n - k) = bytes_at m k (n - k)"
proof (cases "n = k")
  case False
  have "0 + length (bytes_at m k (n - k)) \<le> 1048576" using assms by simp
  then obtain buf where "poke 1048576 m 0 (bytes_at m k (n - k)) = Some buf"
    using poke_Some_iff by blast
  then show ?thesis
    using assms poke_append [of 1048576 m 0 "bytes_at m k (n - k)" buf] False by (simp add: peek_def)
qed simp

lemma shift_buffer:
  assumes "chan_ok ch" and "\<not> vl \<ge> kMaxMsgLen - kHdrLen" and "12 + unat vl \<le> length (content ch)"
  defines "remain \<equiv> u32_to_int (to_u32 (ch_len ch) - (kHdrLen + vl))"
  shows "\<exists>buf. (if remain \<noteq> 0 then do {
            rest \<leftarrow> peek sizeof_buf (ch_buf ch) (unat (kHdrLen + vl)) (unat (to_u64 remain));
            poke sizeof_buf (ch_buf ch) 0 rest
          } else Some (ch_buf ch)) = Some buf \<and>
      content (ch\<lparr>ch_buf := buf, ch_len := remain\<rparr>) = drop (12 + unat vl) (content ch) \<and>
      chan_ok (ch\<lparr>ch_buf := buf, ch_len := remain\<rparr>)"
proof -
  let ?n = "nat (ch_len ch)" and ?k = "12 + unat vl"
  have n: "?k \<le> ?n" "?n \<le> 1048576"
    using assms(1,3) by (auto simp: chan_ok_def)
  have "kHdrLen + vl \<le> to_u32 (ch_len ch)"
    using n(1) unat_msg_len(1) [OF assms(2)] chan_len [OF assms(1)] by (simp only: word_le_nat_alt)
  then have u: "unat (to_u32 (ch_len ch) - (kHdrLen + vl)) = ?n - ?k"
    using unat_sub [of "kHdrLen + vl" "to_u32 (ch_len ch)"] unat_msg_len(1) [OF assms(2)] chan_len [OF assms(1)]
    by (simp only:)
  then have r: "remain = int (?n - ?k)"
    unfolding remain_def using u n(2) by (subst u32_to_int_small) linarith+
  then have u64: "unat (to_u64 remain) = ?n - ?k"
    using n(2) by (subst unat_to_u64) auto
  obtain buf where a: "(if int (?n - ?k) \<noteq> 0 then do {
            rest \<leftarrow> peek 1048576 (ch_buf ch) ?k (?n - ?k);
            poke 1048576 (ch_buf ch) 0 rest
          } else Some (ch_buf ch)) = Some buf"
    and b: "bytes_at buf 0 (?n - ?k) = bytes_at (ch_buf ch) ?k (?n - ?k)"
    using shift_mem [OF n] by blast
  have "(if remain \<noteq> 0 then do {
            rest \<leftarrow> peek sizeof_buf (ch_buf ch) (unat (kHdrLen + vl)) (unat (to_u64 remain));
            poke sizeof_buf (ch_buf ch) 0 rest
          } else Some (ch_buf ch)) = Some buf"
    unfolding u64 unat_msg_len(1) [OF assms(2)] sizeof_buf_val unfolding r by (rule a)
  moreover have "content (ch\<lparr>ch_buf := buf, ch_len := remain\<rparr>) = drop ?k (content ch)"
    using b by (simp add: content_def mem_simps r del: nat_int_comparison of_nat_diff)
  moreover have "chan_ok (ch\<lparr>ch_buf := buf, ch_len := remain\<rparr>)"
    using n(2) by (simp add: chan_ok_def r del: of_nat_diff)
  ultimately show ?thesis by blast
qed

lemma round_frame:
  assumes "chan_ok ch" and "UINT32 (take 4 (content ch)) = pr_magic p"
    and "vl = UINT32 (take 4 (drop 8 (content ch)))" and "unat vl < max_value_len"
    and "12 + unat vl \<le> length (content ch)"
  shows "\<exists>ch'. content ch' = drop (12 + unat vl) (content ch) \<and> chan_ok ch' \<and> same_conn ch ch' \<and>
    (\<forall>w. RecvString_round E p ch w =
      (case RecvTLV E p (ch_id ch) (UINT32 (take 4 (drop 4 (content ch)))) (take (unat vl) (drop 12 (content ch))) w of
         None \<Rightarrow> None
       | Some (ret, w') \<Rightarrow>
           if IsRecoverable ret then Some (Inr (ch', w')) else Some (Inl (ret, ch, w'))))"
proof -
  have vl: "\<not> vl \<ge> kMaxMsgLen - kHdrLen"
    using assms(4) by (simp add: max_value_len_def word_le_nat_alt)
  obtain buf where b: "(if u32_to_int (to_u32 (ch_len ch) - (kHdrLen + vl)) \<noteq> 0 then do {
            rest \<leftarrow> peek sizeof_buf (ch_buf ch) (unat (kHdrLen + vl))
              (unat (to_u64 (u32_to_int (to_u32 (ch_len ch) - (kHdrLen + vl)))));
            poke sizeof_buf (ch_buf ch) 0 rest
          } else Some (ch_buf ch)) = Some buf"
    and c: "content (ch\<lparr>ch_buf := buf, ch_len := u32_to_int (to_u32 (ch_len ch) - (kHdrLen + vl))\<rparr>) =
        drop (12 + unat vl) (content ch)"
    and k: "chan_ok (ch\<lparr>ch_buf := buf, ch_len := u32_to_int (to_u32 (ch_len ch) - (kHdrLen + vl))\<rparr>)"
    using shift_buffer [OF assms(1) vl assms(5)] by blast
  have len: "\<not> to_u32 (ch_len ch) < kHdrLen + vl"
    using assms(5) unat_msg_len(1) [OF vl] chan_len [OF assms(1)] by (simp only: word_less_nat_alt length_content not_less)
  have val: "take (unat vl) (drop 12 (content ch)) = bytes_at (ch_buf ch) 12 (unat vl)"
    using assms(5) by (simp add: content_def mem_simps min_absorb1)
  have "12 + unat vl \<le> sizeof_buf"
    using assms(1,5) by (auto simp: chan_ok_def)
  then have pk: "peek sizeof_buf (ch_buf ch) kOffsetValue (unat vl) = Some (bytes_at (ch_buf ch) 12 (unat vl))"
    by (simp add: hdr_consts)
  have hd: "ScanHeader p sizeof_buf (ch_buf ch) 0 = Some (True, UINT32 (take 4 (drop 4 (content ch))), vl)"
    using header_content [OF assms(1), of sizeof_buf p] assms(2,3,5) by simp
  have lg: "log_received E tag vl (bytes_at (ch_buf ch) 12 (unat vl)) w = Some ()" for tag w
    using assms(4) by (simp add: log_received_defined)
  let ?ch' = "ch\<lparr>ch_buf := buf, ch_len := u32_to_int (to_u32 (ch_len ch) - (kHdrLen + vl))\<rparr>"
  have "RecvString_round E p ch w =
      (case RecvTLV E p (ch_id ch) (UINT32 (take 4 (drop 4 (content ch)))) (bytes_at (ch_buf ch) 12 (unat vl)) w of
         None \<Rightarrow> None
       | Some (ret, w') \<Rightarrow>
           if IsRecoverable ret then Some (Inr (?ch', w')) else Some (Inl (ret, ch, w')))" for w
    unfolding RecvString_round_def hd Let_def
    by (simp only: Option.bind.simps prod.case vl len pk lg b if_False not_True_eq_False)
       (auto split: option.split prod.split)
  then show ?thesis
    using c k unfolding val by (intro exI [of _ ?ch']) (simp add: same_conn_def)
qed

end
