(* ===== verification/Gep_Delivery.thy ===== *)
theory Gep_Delivery
  imports Gep_Receive
begin

text \<open>
  What a channel delivers: the loop \<open>RecvString\<close> against \<open>parse_frames\<close>, one receive
  \<open>RecvData\<close> proved inside the contract of the socket layer, and a run of receives over
  any way the stream is cut into pieces.
\<close>

section \<open>Specification\<close>

text \<open>A frame is accepted when its tag has no callback (it is dropped) or its value unpacks.\<close>

definition accepts :: "('w, 'm) gep_env \<Rightarrow> proto \<Rightarrow> u32 \<times> u8 list \<Rightarrow> bool" where
  "accepts E p f \<longleftrightarrow>
     (case e_ops E (fst f) of
        None \<Rightarrow> True
      | Some _ \<Rightarrow> (case vt_GetMessage (e_vt E) (fst f) of
          None \<Rightarrow> False
        | Some e \<Rightarrow> Unserialize (e_pb E) p (snd f) e \<noteq> None))"

text \<open>The callbacks a frame causes: none, or one with the unpacked message.\<close>

definition deliver :: "('w, 'm) gep_env \<Rightarrow> proto \<Rightarrow> int \<Rightarrow> u32 \<times> u8 list \<Rightarrow> (int \<times> u32 \<times> 'm) list" where
  "deliver E p cid f =
     (case e_ops E (fst f) of
        None \<Rightarrow> []
      | Some _ \<Rightarrow> (case vt_GetMessage (e_vt E) (fst f) of
          None \<Rightarrow> []
        | Some e \<Rightarrow> (case Unserialize (e_pb E) p (snd f) e of
            None \<Rightarrow> []
          | Some m \<Rightarrow> [(cid, fst f, m)])))"

definition deliver_all ::
  "('w, 'm) gep_env \<Rightarrow> proto \<Rightarrow> int \<Rightarrow> (u32 \<times> u8 list) list \<Rightarrow> (int \<times> u32 \<times> 'm) list" where
  "deliver_all E p cid fs = concat (map (deliver E p cid) (takeWhile (accepts E p) fs))"

text \<open>
  The table of callbacks fits the protocol: a tag with a callback has a message that the
  empty text unpacks into, and the callback returns on every message of that tag.
\<close>

definition ops_ok :: "('w, 'm) gep_env \<Rightarrow> proto \<Rightarrow> bool" where
  "ops_ok E p \<longleftrightarrow> (\<forall>tag cb. e_ops E tag = Some cb \<longrightarrow>
     (\<exists>e. vt_GetMessage (e_vt E) tag = Some e \<and> Unserialize (e_pb E) p [] e \<noteq> None \<and>
        (\<forall>v m cid w. Unserialize (e_pb E) p v e = Some m \<longrightarrow> cb m cid w \<noteq> None)))"

text \<open>Callbacks receive nothing themselves.\<close>

definition quiet :: "('w, 'm) world \<Rightarrow> ('w, 'm) world \<Rightarrow> bool" where
  "quiet w w' \<longleftrightarrow> dispatched (w_trace w') = dispatched (w_trace w) \<and>
     (\<forall>fd. received_on fd (w_trace w') = received_on fd (w_trace w))"

definition callbacks_quiet :: "('w, 'm) gep_env \<Rightarrow> bool" where
  "callbacks_quiet E \<longleftrightarrow>
     (\<forall>tag cb m cid w r w'. e_ops E tag = Some cb \<longrightarrow> cb m cid w = Some (r, w') \<longrightarrow> quiet w w')"

section \<open>One frame\<close>

lemma RecvTLV_eq:
  "RecvTLV E p cid tag value w =
     (case e_ops E tag of
        None \<Rightarrow> Some (CMD_DROPPED, w)
      | Some cb \<Rightarrow> (case vt_GetMessage (e_vt E) tag of
          None \<Rightarrow> None
        | Some e \<Rightarrow> (case Unserialize (e_pb E) p value e of
            None \<Rightarrow> if value = [] then None else Some (CMD_ERROR, w)
          | Some m \<Rightarrow> map_option (\<lambda>(ret, w'). (CMD_OK, w')) (cb m cid (emit (Ev_dispatch cid tag m) w)))))"
proof -
  have print: "value \<noteq> [] \<Longrightarrow> \<exists>r. snprintf_printable (length value * 4) (e_uninit E)
      (int (length value * 4)) value (int (length value)) = Some r"
    by (rule snprintf_printable_defined) auto
  obtain r where "TagString kMaxTagString (e_uninit E) tag (int kMaxTagString) = Some r"
    using TagString_defined by blast
  then have tag: "TagString kMaxTagString (e_uninit E) tag (int kMaxTagString) \<bind> (\<lambda>_. x) = x" for x :: "'x option"
    by simp
  show ?thesis
  proof (cases "value = []")
    case True
    then show ?thesis
      unfolding RecvTLV_def tag
      by (simp add: snprintf_printable_no_room map_option_case split: option.split bind_split)
  next
    case False
    then obtain r where "snprintf_printable (length value * 4) (e_uninit E) (int (length value * 4)) value
        (int (length value)) = Some r"
      using print by blast
    then show ?thesis
      using False unfolding RecvTLV_def tag
      by (simp add: map_option_case split: option.split bind_split)
  qed
qed

lemma RecvTLV_defined:
  assumes "ops_ok E p"
  shows "\<exists>r w'. RecvTLV E p cid tag value w = Some (r, w')"
  using assms unfolding RecvTLV_eq ops_ok_def
  by (fastforce split: option.split)

lemma RecvTLV_result:
  assumes "RecvTLV E p cid tag value w = Some (r, w')"
  shows "IsRecoverable r \<longleftrightarrow> accepts E p (tag, value)" and "\<not> IsRecoverable r \<Longrightarrow> r = CMD_ERROR"
  using assms by (auto simp: RecvTLV_eq accepts_def IsRecoverable_def split: option.splits if_splits)

lemma RecvTLV_dispatch:
  assumes "RecvTLV E p cid tag value w = Some (r, w')" and "callbacks_quiet E"
  shows "dispatched (w_trace w') = dispatched (w_trace w) @ deliver E p cid (tag, value)"
    and "received_on fd (w_trace w') = received_on fd (w_trace w)"
proof -
  have "quiet w1 w2" if "e_ops E tag = Some cb" "cb m cid w1 = Some (r', w2)" for cb m w1 r' w2
    using assms(2) that unfolding callbacks_quiet_def by blast
  then show "dispatched (w_trace w') = dispatched (w_trace w) @ deliver E p cid (tag, value)"
    and "received_on fd (w_trace w') = received_on fd (w_trace w)"
    using assms(1)
    by (fastforce simp: RecvTLV_eq deliver_def quiet_def split: option.splits if_splits)+
qed

section \<open>All the frames of a stream\<close>

lemma run_frames_defined:
  assumes "ops_ok E p"
  shows "\<exists>r w'. run_frames E p cid fs w = Some (r, w')"
proof (induction fs arbitrary: w)
  case (Cons f fs)
  then show ?case
    using RecvTLV_defined [OF assms, of cid "fst f" "snd f" w] by (cases f) fastforce
qed simp

lemma run_frames_result:
  assumes "run_frames E p cid fs w = Some (r, w')"
  shows "r = (if list_all (accepts E p) fs then None else Some CMD_ERROR)"
  using assms
proof (induction fs arbitrary: w)
  case (Cons f fs)
  obtain tag v where f: "f = (tag, v)" by fastforce
  obtain ret w1 where t: "RecvTLV E p cid tag v w = Some (ret, w1)"
    using Cons.prems f by (auto split: option.splits)
  show ?case
    using Cons RecvTLV_result [OF t] t f by (auto split: if_splits)
qed simp

lemma run_frames_dispatch:
  assumes "run_frames E p cid fs w = Some (r, w')" and "callbacks_quiet E"
  shows "dispatched (w_trace w') = dispatched (w_trace w) @ deliver_all E p cid fs \<and>
    received_on fd (w_trace w') = received_on fd (w_trace w)"
  using assms(1)
proof (induction fs arbitrary: w)
  case (Cons f fs)
  obtain tag v where f: "f = (tag, v)" by fastforce
  obtain ret w1 where t: "RecvTLV E p cid tag v w = Some (ret, w1)"
    using Cons.prems f by (auto split: option.splits)
  note d = RecvTLV_dispatch [OF t assms(2)]
  show ?case
  proof (cases "IsRecoverable ret")
    case True
    then show ?thesis
      using Cons.prems Cons.IH [of w1] d t f RecvTLV_result [OF t] by (simp add: deliver_all_def)
  next
    case False
    then have "deliver E p cid (tag, v) = []" "\<not> accepts E p (tag, v)"
      using RecvTLV_result [OF t] by (auto simp: accepts_def deliver_def split: option.splits)
    then show ?thesis
      using Cons.prems False d t f by (simp add: deliver_all_def)
  qed
qed (simp add: deliver_all_def)

text \<open>
  One round against one step of the parser: it ends the loop when there is no complete frame;
  otherwise it handles the first one and goes on with the rest, or fails.
\<close>

lemma round_refines:
  assumes "chan_ok ch" and "12 \<le> length (content ch)" and "parse_frames (pr_magic p) (content ch) = (fs, e)"
  shows "case fs of
      [] \<Rightarrow> \<exists>ch'. (\<forall>w. RecvString_round E p ch w = Some (Inl (end_result e, ch', w))) \<and>
        same_conn ch ch' \<and> chan_ok ch' \<and> content ch' = end_rest e
    | (tag, value) # fs' \<Rightarrow> \<exists>ch'. parse_frames (pr_magic p) (content ch') = (fs', e) \<and> same_conn ch ch' \<and> chan_ok ch' \<and>
        (\<forall>w. RecvString_round E p ch w =
          (case RecvTLV E p (ch_id ch) tag value w of
             None \<Rightarrow> None
           | Some (ret, w') \<Rightarrow> if IsRecoverable ret then Some (Inr (ch', w')) else Some (Inl (ret, ch, w'))))"
proof -
  let ?c = "content ch" let ?vl = "UINT32 (take 4 (drop 8 ?c))"
  consider (bad) "UINT32 (take 4 ?c) \<noteq> pr_magic p \<or> max_value_len \<le> unat ?vl"
    | (wait) "UINT32 (take 4 ?c) = pr_magic p" "unat ?vl < max_value_len" "length ?c < 12 + unat ?vl"
    | (frame) "UINT32 (take 4 ?c) = pr_magic p" "unat ?vl < max_value_len" "12 + unat ?vl \<le> length ?c"
    by linarith
  then show ?thesis
  proof cases
    case bad
    then have "fs = []" "e = Bad" using assms(2,3) parse_bad by auto
    moreover have "RecvString_round E p ch w = Some (Inl (CMD_ERROR, ch\<lparr>ch_len := 0\<rparr>, w))" for w
      using bad round_bad_magic round_too_long assms(1,2) by metis
    ultimately show ?thesis
      by (auto simp: same_conn_def chan_ok_def content_def intro!: exI [of _ "ch\<lparr>ch_len := 0\<rparr>"])
  next
    case wait
    then have "fs = []" "e = More ?c" using assms(3) parse_wait [OF assms(2) wait(1) refl wait(2,3)] by auto
    moreover have "?c \<noteq> []" using assms(2) by (metis list.size(3) not_numeral_le_zero)
    ultimately show ?thesis
      using round_fragment [OF assms(1,2) wait(1) refl wait(2,3)] assms(1)
      by (auto simp: same_conn_def intro!: exI [of _ ch])
  next
    case frame
    let ?tag = "UINT32 (take 4 (drop 4 ?c))" and ?v = "take (unat ?vl) (drop 12 ?c)"
    obtain ch' where c: "content ch' = drop (12 + unat ?vl) ?c" "chan_ok ch'" "same_conn ch ch'"
      and r: "\<forall>w. RecvString_round E p ch w =
        (case RecvTLV E p (ch_id ch) ?tag ?v w of None \<Rightarrow> None
         | Some (ret, w') \<Rightarrow> if IsRecoverable ret then Some (Inr (ch', w')) else Some (Inl (ret, ch, w')))"
      using round_frame [OF assms(1) frame(1) refl frame(2,3), of E] by blast
    obtain fs' e' where pf: "parse_frames (pr_magic p) (content ch') = (fs', e')" by fastforce
    then have "fs = (?tag, ?v) # fs'" "e = e'"
      using assms(3) parse_frame [OF frame(3,1) refl frame(2)] c(1) by auto
    then show ?thesis using c(2,3) r pf by (simp only: list.case prod.case) blast
  qed
qed

lemma RecvString_refines:
  assumes "chan_ok ch" and "parse_frames (pr_magic p) (content ch) = (fs, e)"
  shows "case run_frames E p (ch_id ch) fs w of
      None \<Rightarrow> RecvString E p ch w = None
    | Some (Some r, w') \<Rightarrow> \<exists>ch'. RecvString E p ch w = Some (r, ch', w') \<and> same_conn ch ch' \<and> chan_ok ch' \<and>
        parse_frames (pr_magic p) (content ch') = (dropWhile (accepts E p) fs, e)
    | Some (None, w') \<Rightarrow> \<exists>ch'. RecvString E p ch w = Some (end_result e, ch', w') \<and>
        same_conn ch ch' \<and> chan_ok ch' \<and> content ch' = end_rest e"
  using assms
proof (induction E p ch w arbitrary: fs e rule: RecvString.induct)
  case (1 E p ch w)
  show ?case
  proof (cases "12 \<le> length (content ch)")
    case False
    then have short: "fs = []" "e = More (content ch)" using "1.prems"(2) parse_short by auto
    have "\<not> to_u32 (ch_len ch) \<ge> kHdrLen" using False header_there [OF "1.prems"(1)] by simp
    then show ?thesis
      using short len_content [OF "1.prems"(1)] "1.prems"(1) by (subst RecvString.simps) (auto simp: same_conn_def)
  next
    case True
    then have big: "to_u32 (ch_len ch) \<ge> kHdrLen" using header_there [OF "1.prems"(1)] by simp
    note round = round_refines [OF "1.prems"(1) True "1.prems"(2), of E]
    show ?thesis
    proof (cases fs)
      case Nil
      then show ?thesis using round big by (subst RecvString.simps) auto
    next
      case (Cons f fs')
      obtain tag v where f: "f = (tag, v)" by fastforce
      obtain ch' where c: "parse_frames (pr_magic p) (content ch') = (fs', e)" "same_conn ch ch'" "chan_ok ch'"
        and r: "RecvString_round E p ch w =
          (case RecvTLV E p (ch_id ch) tag v w of None \<Rightarrow> None
           | Some (ret, w') \<Rightarrow> if IsRecoverable ret then Some (Inr (ch', w')) else Some (Inl (ret, ch, w')))"
        using round Cons f by auto
      have id: "ch_id ch' = ch_id ch" and tr: "\<And>x. same_conn ch' x \<Longrightarrow> same_conn ch x"
        using c(2) by (auto simp: same_conn_def)
      show ?thesis
      proof (cases "RecvTLV E p (ch_id ch) tag v w")
        case None
        then show ?thesis using r big Cons f by (subst RecvString.simps) simp
      next
        case (Some rw)
        obtain ret w1 where rw: "rw = (ret, w1)" by fastforce
        have acc: "IsRecoverable ret \<longleftrightarrow> accepts E p (tag, v)" using RecvTLV_result(1) Some rw by blast
        show ?thesis
        proof (cases "IsRecoverable ret")
          case False
          then show ?thesis
            using r big Cons f Some rw "1.prems" acc by (subst RecvString.simps) (auto simp: same_conn_def)
        next
          case True
          then have rr: "RecvString_round E p ch w = Some (Inr (ch', w1))" using r Some rw by simp
          have "RecvString E p ch w = RecvString E p ch' w1" using big rr by (subst RecvString.simps) simp
          then show ?thesis
            using "1.IH" [of "Inr (ch', w1)" "(ch', w1)" ch' w1 fs' e] big rr c True Some rw Cons f id tr acc
            by (auto split: option.splits)
        qed
      qed
    qed
  qed
qed

section \<open>One receive\<close>

text \<open>Between receives a channel holds the beginning of a frame, with room for more.\<close>

definition chan_idle :: "proto \<Rightarrow> channel \<Rightarrow> bool" where
  "chan_idle p ch \<longleftrightarrow> chan_room ch \<and> 0 \<le> ch_socket ch \<and>
     parse_frames (pr_magic p) (content ch) = ([], More (content ch))"

text \<open>
  A run of receives, as a service thread makes them on one channel: up to \<open>n\<close> of them,
  stopping at the first that does not return 0.
\<close>

fun recv_run ::
  "('w, 'm) gep_env \<Rightarrow> proto \<Rightarrow> nat \<Rightarrow> channel \<Rightarrow> ('w, 'm) world \<Rightarrow> (int \<times> channel \<times> ('w, 'm) world) option"
where
  "recv_run E p 0 ch w = Some (0, ch, w)"
| "recv_run E p (Suc n) ch w =
     (case RecvData E p ch w of
        None \<Rightarrow> None
      | Some (r, ch', w') \<Rightarrow> if r = 0 then recv_run E p n ch' w' else Some (r, ch', w'))"

text \<open>What a call of \<open>RecvData\<close> does, given what the socket layer handed over.\<close>

definition recv_post ::
  "('w, 'm) gep_env \<Rightarrow> proto \<Rightarrow> channel \<Rightarrow> ('w, 'm) world \<Rightarrow> int \<Rightarrow> u8 list \<Rightarrow> int \<Rightarrow> channel \<Rightarrow> ('w, 'm) world \<Rightarrow> bool"
where
  "recv_post E p ch w ret bs r ch' w' \<longleftrightarrow>
     same_conn ch ch' \<and> chan_ok ch' \<and>
     (if ret > 0 then
        (case parse_frames (pr_magic p) (content ch @ bs) of (fs, e) \<Rightarrow>
           r = (if list_all (accepts E p) fs \<and> e \<noteq> Bad then 0 else -1) \<and>
           (r = 0 \<longrightarrow> content ch' = end_rest e \<and> chan_room ch') \<and>
           (callbacks_quiet E \<longrightarrow>
              dispatched (w_trace w') = dispatched (w_trace w) @ deliver_all E p (ch_id ch) fs))
      else bs = [] \<and> r = (if ret = 0 then -2 else -1) \<and> content ch' = content ch \<and>
        dispatched (w_trace w') = dispatched (w_trace w)) \<and>
     (callbacks_quiet E \<longrightarrow>
        received_on (ch_socket ch) (w_trace w') = received_on (ch_socket ch) (w_trace w) @ bs)"

lemma chan_len64: "chan_ok ch \<Longrightarrow> unat (to_u64 (ch_len ch)) = nat (ch_len ch)"
  by (rule unat_to_u64) (auto simp: chan_ok_def)

lemma end_result_ok: "end_result e = CMD_ERROR \<longleftrightarrow> e = Bad"
  by (cases e) auto

lemma content_room: "chan_ok ch \<Longrightarrow> length (content ch) < 1048576 \<Longrightarrow> chan_room ch"
  by (simp add: chan_ok_def chan_room_def)

lemma RecvString_after:
  assumes "chan_ok ch" and "run_frames E p (ch_id ch) fs w \<noteq> None" and "parse_frames (pr_magic p) (content ch) = (fs, e)"
  shows "\<exists>res ch' w'. RecvString E p ch w = Some (res, ch', w') \<and> same_conn ch ch' \<and> chan_ok ch' \<and>
    (res = CMD_ERROR \<longleftrightarrow> \<not> (list_all (accepts E p) fs \<and> e \<noteq> Bad)) \<and>
    (res \<noteq> CMD_ERROR \<longrightarrow> content ch' = end_rest e \<and> chan_room ch') \<and>
    (callbacks_quiet E \<longrightarrow> dispatched (w_trace w') = dispatched (w_trace w) @ deliver_all E p (ch_id ch) fs \<and>
       (\<forall>fd. received_on fd (w_trace w') = received_on fd (w_trace w)))"
proof -
  obtain r w' where rf: "run_frames E p (ch_id ch) fs w = Some (r, w')"
    using assms(2) by auto
  note res = run_frames_result [OF rf] and disp = run_frames_dispatch [OF rf]
  have room: "chan_room ch'" if a: "chan_ok ch'" and b: "content ch' = end_rest e" and c: "e \<noteq> Bad" for ch'
  proof -
    obtain x where "e = More x" using c by (cases e) auto
    then have "length (content ch') < 1048576"
      using parse_More_bound [of "pr_magic p" "content ch" x] assms(3) b by simp
    then show ?thesis using a content_room by blast
  qed
  show ?thesis
  proof (cases r)
    case None
    then obtain ch' where c: "RecvString E p ch w = Some (end_result e, ch', w')" "same_conn ch ch'" "chan_ok ch'"
      "content ch' = end_rest e"
      using RecvString_refines [OF assms(1,3), of E w] rf by auto
    have "list_all (accepts E p) fs" using None res by (simp split: if_splits)
    then show ?thesis
      using c room [OF c(3,4)] disp end_result_ok [of e]
      by (intro exI [of _ "end_result e"] exI [of _ ch'] exI [of _ w']) blast
  next
    case (Some x)
    then obtain ch' where c: "RecvString E p ch w = Some (x, ch', w')" "same_conn ch ch'" "chan_ok ch'"
      using RecvString_refines [OF assms(1,3), of E w] rf by auto
    have "x = CMD_ERROR" "\<not> list_all (accepts E p) fs" using Some res by (simp_all split: if_splits)
    then show ?thesis
      using c disp by (intro exI [of _ x] exI [of _ ch'] exI [of _ w']) blast
  qed
qed

text \<open>
  A receive in two halves. The first, up to the end of \<open>recv\<close>, needs the socket; the second is
  the loop over the buffer.
\<close>

datatype receive_pc = Rx_Start | Rx_Loop | Rx_Done int

definition receive_begin ::
  "('w, 'm) gep_env \<Rightarrow> channel \<Rightarrow> ('w, 'm) world \<Rightarrow> (receive_pc \<times> channel \<times> ('w, 'm) world) option"
where
  "receive_begin E ch w =
     (if ch_socket ch < 0 then Some (Rx_Done (-1), ch, w)
      else if to_u64 (ch_len ch) \<ge> of_nat sizeof_buf then Some (Rx_Done (-1), ch, w)
      else do {
        let (ret, data, w) = si_Recv (e_si E) (ch_socket ch) (sizeof_buf - unat (to_u64 (ch_len ch))) w;
        let bytes = narrow32 ret;
        buf \<leftarrow> poke sizeof_buf (ch_buf ch) (unat (to_u64 (ch_len ch))) data;
        let ch = ch\<lparr>ch_buf := buf\<rparr>;
        if bytes > 0 then do {
          len \<leftarrow> chk32 (ch_len ch + bytes);
          Some (Rx_Loop, ch\<lparr>ch_len := len\<rparr>, w)
        }
        else if bytes = 0 then Some (Rx_Done (-2), ch, w)
        else Some (Rx_Done (-1), ch, w)
      })"

definition receive_code :: "Result \<Rightarrow> int" where
  "receive_code res = (if res = CMD_ERROR then -1 else 0)"

lemma RecvData_halves:
  "RecvData E p ch w =
     (case receive_begin E ch w of
        None \<Rightarrow> None
      | Some (Rx_Done r, ch, w) \<Rightarrow> Some (r, ch, w)
      | Some (_, ch, w) \<Rightarrow> map_option (\<lambda>(res, ch, w). (receive_code res, ch, w)) (RecvString E p ch w))"
  by (auto simp: RecvData_def receive_begin_def receive_code_def Let_def chk32_def map_option_case
      split: option.split prod.split bind_split)

context socket_contract
begin

lemma receive_begin_post:
  assumes "si_Recv (e_si E) = recv" and "ok" and "chan_room ch" and "0 \<le> ch_socket ch"
    and "recv (ch_socket ch) (1048576 - nat (ch_len ch)) w = (ret, bs, w1)"
  shows "\<exists>ch1. receive_begin E ch w =
      Some (if ret > 0 then Rx_Loop else Rx_Done (if ret = 0 then -2 else -1), ch1, w1) \<and>
    same_conn ch ch1 \<and> chan_ok ch1 \<and> content ch1 = content ch @ bs \<and> (ret \<le> 0 \<longrightarrow> bs = [])"
proof -
  have cok: "chan_ok ch" and lt: "nat (ch_len ch) < 1048576" and ge: "0 \<le> ch_len ch"
    using assms(3) by (auto simp: chan_ok_def chan_room_def)
  note law = recv_law [OF assms(2,5)]
  have fit: "nat (ch_len ch) + length bs \<le> 1048576" using law lt by linarith
  then obtain buf where buf: "poke 1048576 (ch_buf ch) (nat (ch_len ch)) bs = Some buf"
    using poke_Some_iff by blast
  have guard: "\<not> to_u64 (ch_len ch) \<ge> of_nat sizeof_buf"
    using chan_len64 [OF cok] lt by (simp add: word_le_nat_alt)
  have nar: "narrow32 ret = ret"
    using law fit by (intro narrow32_id) (auto simp: i32_ok_def split: if_splits)
  have app: "bytes_at buf 0 (nat (ch_len ch) + length bs) = content ch @ bs"
    using poke_append [OF buf] by (simp add: content_def)
  let ?ch = "ch\<lparr>ch_buf := buf, ch_len := ch_len ch + int (length bs)\<rparr>"
  have c: "content ?ch = content ch @ bs" "chan_ok ?ch" "i32_ok (ch_len ch + int (length bs))"
    using app fit ge by (auto simp: content_def nat_add_distrib chan_ok_def i32_ok_def)
  have begin_eq: "receive_begin E ch w =
      (if ret > 0 then do { len \<leftarrow> chk32 (ch_len ch + ret); Some (Rx_Loop, ch\<lparr>ch_buf := buf, ch_len := len\<rparr>, w1) }
        else Some (Rx_Done (if ret = 0 then -2 else -1), ch\<lparr>ch_buf := buf\<rparr>, w1))"
    using assms(1,4,5) guard buf chan_len64 [OF cok] by (simp add: receive_begin_def nar Let_def)
  have "ret \<le> 0 \<longrightarrow> ?ch = ch\<lparr>ch_buf := buf\<rparr> \<and> bs = []" using law by auto
  moreover have "ret > 0 \<longrightarrow> ret = int (length bs)" using law by simp
  ultimately show ?thesis
    unfolding begin_eq using c by (intro exI [of _ ?ch]) (auto simp: chk32_def same_conn_def)
qed

text \<open>A receive is undefined exactly when one of the frames it comes to is.\<close>

lemma RecvData_frames:
  assumes "si_Recv (e_si E) = recv" and "ok" and "chan_room ch" and "0 \<le> ch_socket ch"
    and "recv (ch_socket ch) (1048576 - nat (ch_len ch)) w = (ret, bs, w1)"
    and "parse_frames (pr_magic p) (content ch @ bs) = (fs, e)"
  shows "if ret > 0 \<and> run_frames E p (ch_id ch) fs w1 = None then RecvData E p ch w = None
    else \<exists>r ch' w'. RecvData E p ch w = Some (r, ch', w') \<and> recv_post E p ch w ret bs r ch' w'"
proof -
  note frame = recv_frame [OF assms(2,5)]
  obtain ch1 where ch1: "receive_begin E ch w =
      Some (if ret > 0 then Rx_Loop else Rx_Done (if ret = 0 then -2 else -1), ch1, w1)"
    "same_conn ch ch1" "chan_ok ch1" "content ch1 = content ch @ bs" "ret \<le> 0 \<longrightarrow> bs = []"
    using receive_begin_post [OF assms(1-5)] by blast
  have pf: "parse_frames (pr_magic p) (content ch1) = (fs, e)" and id: "ch_id ch1 = ch_id ch"
    using assms(6) ch1(2,4) by (simp_all add: same_conn_def)
  consider (closed) "ret \<le> 0" | (undefined) "ret > 0" "run_frames E p (ch_id ch1) fs w1 = None"
    | (frames) "ret > 0" "run_frames E p (ch_id ch1) fs w1 \<noteq> None" by linarith
  then show ?thesis
  proof cases
    case closed
    then have "recv_post E p ch w ret bs (if ret = 0 then -2 else -1) ch1 w1"
      using ch1 frame by (simp add: recv_post_def)
    moreover have "RecvData E p ch w = Some (if ret = 0 then -2 else -1, ch1, w1)"
      unfolding RecvData_halves using ch1(1) closed by simp
    ultimately show ?thesis using closed by simp
  next
    case undefined
    then have "RecvString E p ch1 w1 = None" using RecvString_refines [OF ch1(3) pf, of E w1] by simp
    then show ?thesis using undefined id ch1(1) by (simp add: RecvData_halves)
  next
    case frames
    obtain res ch' w' where rs: "RecvString E p ch1 w1 = Some (res, ch', w')"
      and post: "same_conn ch1 ch'" "chan_ok ch'"
        "res = CMD_ERROR \<longleftrightarrow> \<not> (list_all (accepts E p) fs \<and> e \<noteq> Bad)"
        "res \<noteq> CMD_ERROR \<longrightarrow> content ch' = end_rest e \<and> chan_room ch'"
        "callbacks_quiet E \<longrightarrow> dispatched (w_trace w') = dispatched (w_trace w1) @ deliver_all E p (ch_id ch1) fs \<and>
           (\<forall>fd. received_on fd (w_trace w') = received_on fd (w_trace w1))"
      using RecvString_after [OF ch1(3) frames(2) pf] by blast
    have "RecvData E p ch w = Some (receive_code res, ch', w')"
      unfolding RecvData_halves using ch1(1) frames(1) rs by simp
    moreover have "recv_post E p ch w ret bs (receive_code res) ch' w'"
      using frames(1) assms(6) post ch1(2) frame by (auto simp: recv_post_def same_conn_def receive_code_def)
    ultimately show ?thesis using frames(2) id by simp
  qed
qed

lemma RecvData_post:
  assumes "si_Recv (e_si E) = recv" and "ok" and "ops_ok E p" and "chan_room ch" and "0 \<le> ch_socket ch"
  shows "\<exists>ret bs w1 r ch' w'. recv (ch_socket ch) (1048576 - nat (ch_len ch)) w = (ret, bs, w1) \<and>
    RecvData E p ch w = Some (r, ch', w') \<and> recv_post E p ch w ret bs r ch' w'"
proof -
  obtain ret bs w1 where rv: "recv (ch_socket ch) (1048576 - nat (ch_len ch)) w = (ret, bs, w1)"
    by (metis surj_pair)
  obtain fs e where pf: "parse_frames (pr_magic p) (content ch @ bs) = (fs, e)" by fastforce
  obtain x where "run_frames E p (ch_id ch) fs w1 = Some x" using run_frames_defined [OF assms(3)] by blast
  then show ?thesis using RecvData_frames [OF assms(1,2,4,5) rv pf] rv by auto
qed

lemma deliver_all_append:
  "list_all (accepts E p) fs \<Longrightarrow> deliver_all E p cid (fs @ gs) = deliver_all E p cid fs @ deliver_all E p cid gs"
  by (simp add: deliver_all_def takeWhile_append2 list_all_iff takeWhile_eq_all_conv [THEN iffD2])

lemma RecvData_idle:
  assumes "recv_post E p ch w ret bs r ch' w'" and "chan_idle p ch" and "r = 0"
  shows "chan_idle p ch' \<and> same_conn ch ch' \<and>
    snd (parse_frames (pr_magic p) (content ch @ bs)) = More (content ch') \<and>
    list_all (accepts E p) (fst (parse_frames (pr_magic p) (content ch @ bs)))"
proof -
  obtain fs e where pf: "parse_frames (pr_magic p) (content ch @ bs) = (fs, e)" by fastforce
  have "ret > 0" using assms(1,3) by (auto simp: recv_post_def split: if_splits)
  then have e: "list_all (accepts E p) fs" "e \<noteq> Bad" "content ch' = end_rest e" "chan_room ch'" "same_conn ch ch'"
    using assms(1,3) pf by (auto simp: recv_post_def split: if_splits)
  then have m: "e = More (content ch')" by (cases e) auto
  then show ?thesis
    using e pf parse_More_rest [of "pr_magic p" "content ch @ bs" "content ch'"] assms(2)
    by (simp add: chan_idle_def same_conn_def)
qed

text \<open>
  Whatever pieces a stream arrives in, the callbacks that run are those of the frames of
  the whole stream, up to the first that is not accepted.
\<close>

lemma recv_run_stream:
  assumes "si_Recv (e_si E) = recv" and "ok" and "ops_ok E p" and "callbacks_quiet E" and "chan_idle p ch"
  shows "\<exists>r ch' w' bs. recv_run E p n ch w = Some (r, ch', w') \<and>
    received_on (ch_socket ch) (w_trace w') = received_on (ch_socket ch) (w_trace w) @ bs \<and>
    dispatched (w_trace w') = dispatched (w_trace w) @
      deliver_all E p (ch_id ch) (fst (parse_frames (pr_magic p) (content ch @ bs))) \<and>
    (r = 0 \<longrightarrow> same_conn ch ch' \<and> chan_idle p ch' \<and>
       snd (parse_frames (pr_magic p) (content ch @ bs)) = More (content ch') \<and>
       list_all (accepts E p) (fst (parse_frames (pr_magic p) (content ch @ bs))))"
  using assms(5)
proof (induction n arbitrary: ch w)
  case 0
  then show ?case
    by (intro exI [of _ 0] exI [of _ ch] exI [of _ w] exI [of _ "[]"])
       (simp add: chan_idle_def same_conn_def deliver_all_def)
next
  case (Suc n)
  let ?P = "parse_frames (pr_magic p)"
  obtain ret bs w1 r ch1 w2 where
    rd: "RecvData E p ch w = Some (r, ch1, w2)" and post: "recv_post E p ch w ret bs r ch1 w2"
    using RecvData_post [OF assms(1-3), of ch w] Suc.prems by (auto simp: chan_idle_def)
  have rc: "received_on (ch_socket ch) (w_trace w2) = received_on (ch_socket ch) (w_trace w) @ bs"
    using post assms(4) by (simp add: recv_post_def)
  have d: "dispatched (w_trace w2) = dispatched (w_trace w) @ deliver_all E p (ch_id ch) (fst (?P (content ch @ bs)))"
    using post assms(4) Suc.prems
    by (auto simp: recv_post_def chan_idle_def deliver_all_def split: if_splits)
  show ?case
  proof (cases "r = 0")
    case False
    then show ?thesis
      using rd rc d by (intro exI [of _ r] exI [of _ ch1] exI [of _ w2] exI [of _ bs]) simp
  next
    case True
    note idle = RecvData_idle [OF post Suc.prems True]
    then have same: "ch_id ch1 = ch_id ch" "ch_socket ch1 = ch_socket ch" by (auto simp: same_conn_def)
    obtain r' ch' w' bs' where ih: "recv_run E p n ch1 w2 = Some (r', ch', w')"
      "received_on (ch_socket ch) (w_trace w') = received_on (ch_socket ch) (w_trace w2) @ bs'"
      "dispatched (w_trace w') = dispatched (w_trace w2) @ deliver_all E p (ch_id ch) (fst (?P (content ch1 @ bs')))"
      "r' = 0 \<longrightarrow> same_conn ch1 ch' \<and> chan_idle p ch' \<and> snd (?P (content ch1 @ bs')) = More (content ch') \<and>
         list_all (accepts E p) (fst (?P (content ch1 @ bs')))"
      using Suc.IH [of ch1 w2] idle same by auto
    obtain fs where pf: "?P (content ch @ bs) = (fs, More (content ch1))"
      using idle by (metis prod.collapse)
    then have "?P (content ch @ bs @ bs') = (fs @ fst (?P (content ch1 @ bs')), snd (?P (content ch1 @ bs')))"
      using parse_append [of "pr_magic p" "content ch @ bs" bs'] by simp
    then show ?thesis
      using rd True ih rc d idle same pf
      by (intro exI [of _ r'] exI [of _ ch'] exI [of _ w'] exI [of _ "bs @ bs'"])
         (auto simp: deliver_all_append same_conn_def)
  qed
qed

end

end
