(* ===== verification/Gep_Send.thy ===== *)
theory Gep_Send
  imports Gep_Channel
begin

text \<open>
  Sending on a channel, proved inside the contract of the socket layer: a message that is
  reported sent is on the wire as one whole frame, a message that is not left at most a
  proper prefix of its frame there.
\<close>

lemma PrintHeader_12:
  "\<exists>buf. PrintHeader p tag value_len 12 m 0 = Some buf \<and>
     bytes_at buf 0 12 = header_bytes (pr_magic p) tag value_len"
  using PrintHeader_defined [of 12 p tag value_len m] PrintHeader_bytes [of p tag value_len 12 m]
  by fastforce

lemma SendTLV_eq:
  assumes "length v < 2147483648"
  shows "SendTLV E p ch tag (int (length v)) (Some v) w = do {
     (ret1, w) \<leftarrow> SendData E ch (header_bytes (pr_magic p) tag (of_nat (length v))) w;
     if ret1 \<noteq> 12 then Some (-1, w)
     else if v = [] then Some (0, w)
     else do {
       (ret2, w) \<leftarrow> SendData E ch v w;
       if ret2 \<noteq> int (length v) then Some (-1, w) else Some (0, w)
     }
   }"
proof -
  obtain r where r: "TagString kMaxTagString (e_uninit E) tag (int kMaxTagString) = Some r"
    using TagString_defined by blast
  obtain buf where b: "PrintHeader p tag (of_nat (length v)) 12 (e_uninit E) 0 = Some buf"
    "bytes_at buf 0 12 = header_bytes (pr_magic p) tag (of_nat (length v))"
    using PrintHeader_12 by blast
  have u: "to_u32 (int (length v)) = of_nat (length v)"
    by (simp add: to_u32_def)
  show ?thesis
    by (cases "SendData E ch (header_bytes (pr_magic p) tag (of_nat (length v))) w")
       (auto simp: SendTLV_def r b u Let_def peek_def)
qed

context socket_contract
begin

lemma SendTLV_law:
  assumes "si_FullSend (e_si E) = full_send" and "ok" and "length v < 2147483648"
    and "SendTLV E p ch tag (int (length v)) (Some v) w = Some (r, w')"
  shows "r = 0 \<and> sends (ch_socket ch) (frame_bytes (pr_magic p) (tag, v)) w w' \<or>
    r = -1 \<and> (\<exists>k < length (frame_bytes (pr_magic p) (tag, v)).
       sends (ch_socket ch) (take k (frame_bytes (pr_magic p) (tag, v))) w w')"
proof -
  let ?fd = "ch_socket ch" and ?h = "header_bytes (pr_magic p) tag (of_nat (length v))"
  have f: "frame_bytes (pr_magic p) (tag, v) = ?h @ v" by (simp add: frame_bytes_def)
  obtain r1 w1 where s1: "full_send ?fd ?h kGepSendTimeoutMs w = Some (r1, w1)"
    and rest: "(if r1 \<noteq> 12 then Some (-1, w1) else if v = [] then Some (0, w1)
       else do { (r2, w) \<leftarrow> SendData E ch v w1;
                 if r2 \<noteq> int (length v) then Some (-1, w) else Some (0, w) }) = Some (r, w')"
    using assms(4) unfolding SendTLV_eq [OF assms(3)] SendData_def [of E ch ?h] assms(1)
    by (auto split: bind_splits)
  show ?thesis
  proof (cases "r1 = 12")
    case False
    then obtain k where "k < 12" "sends ?fd (take k ?h) w w1"
      using full_send_short [OF assms(2) s1] by auto
    then show ?thesis
      using rest False by (auto simp: f intro!: exI [of _ k])
  next
    case True
    then have h: "sends ?fd ?h w w1" using full_send_all [OF assms(2) s1] by simp
    show ?thesis
    proof (cases "v = []")
      case v: True
      then show ?thesis using rest True h by (simp add: frame_bytes_def)
    next
      case v: False
      then obtain r2 w2 where s2: "full_send ?fd v kGepSendTimeoutMs w1 = Some (r2, w2)"
        and r: "(r, w') = (if r2 \<noteq> int (length v) then -1 else 0, w2)"
        using rest True assms(1) by (auto simp: SendData_def split: bind_splits if_splits)
      show ?thesis
      proof (cases "r2 = int (length v)")
        case eq: True
        then show ?thesis
          using sends_trans [OF h full_send_all [OF assms(2) s2 eq]] r by (simp add: f)
      next
        case ne: False
        then obtain k where "k < length v" "sends ?fd (take k v) w1 w2"
          using full_send_short [OF assms(2) s2] by blast
        then show ?thesis
          using sends_trans [OF h, of "take k v" w2] r ne by (auto simp: f intro!: exI [of _ "12 + k"])
      qed
    qed
  qed
qed

lemma SendMessage_law:
  assumes "si_FullSend (e_si E) = full_send" and "ok"
    and "\<And>s. Serialize (e_pb E) p m = Some s \<Longrightarrow> length s < 2147483648"
    and "SendMessage E p ch m w = Some (r, w')"
  shows "case Serialize (e_pb E) p m of
      None \<Rightarrow> r = -1 \<and> w' = w
    | Some s \<Rightarrow> (let f = frame_bytes (pr_magic p) (vt_GetTag (e_vt E) m, s) in
        r = 0 \<and> sends (ch_socket ch) f w w' \<or>
        r = -1 \<and> (\<exists>k < length f. sends (ch_socket ch) (take k f) w w'))"
proof (cases "Serialize (e_pb E) p m")
  case None
  then show ?thesis using assms(4) by (simp add: SendMessage_def)
next
  case (Some s)
  have len: "length s < 2147483648" using assms(3) Some .
  then have "narrow32 (int (length s)) = int (length s)"
    by (intro narrow32_id) (simp add: i32_ok_def)
  then have "SendTLV E p ch (vt_GetTag (e_vt E) m) (int (length s)) (Some s) w = Some (r, w')"
    using assms(4) Some by (simp add: SendMessage_def SendString_def)
  then show ?thesis
    using SendTLV_law [OF assms(1,2) len] Some by (simp add: Let_def)
qed

end

section \<open>Sending several messages\<close>

text \<open>Messages sent one after the other on a channel, up to the first that fails.\<close>

fun send_run ::
  "('w, 'm) gep_env \<Rightarrow> proto \<Rightarrow> channel \<Rightarrow> 'm list \<Rightarrow> ('w, 'm) world \<Rightarrow> (int \<times> ('w, 'm) world) option" where
  "send_run E p ch [] w = Some (0, w)"
| "send_run E p ch (m # ms) w =
     (case SendMessage E p ch m w of
        None \<Rightarrow> None
      | Some (r, w') \<Rightarrow> if r = 0 then send_run E p ch ms w' else Some (r, w'))"

definition message_frame :: "('w, 'm) gep_env \<Rightarrow> proto \<Rightarrow> 'm \<Rightarrow> u32 \<times> u8 list" where
  "message_frame E p m = (vt_GetTag (e_vt E) m, the (Serialize (e_pb E) p m))"

context socket_contract
begin

lemma send_run_law:
  assumes "si_FullSend (e_si E) = full_send" and "ok"
    and "\<And>m s. m \<in> set ms \<Longrightarrow> Serialize (e_pb E) p m = Some s \<Longrightarrow> length s < 2147483648"
    and "send_run E p ch ms w = Some (0, w')"
  shows "sends (ch_socket ch) (concat (map (\<lambda>m. frame_bytes (pr_magic p) (message_frame E p m)) ms)) w w' \<and>
    (\<forall>m \<in> set ms. Serialize (e_pb E) p m \<noteq> None)"
  using assms(3,4)
proof (induction ms arbitrary: w)
  case (Cons m ms)
  obtain w1 where s: "SendMessage E p ch m w = Some (0, w1)" "send_run E p ch ms w1 = Some (0, w')"
    using Cons.prems(2) by (auto split: option.splits if_splits)
  have "case Serialize (e_pb E) p m of
      None \<Rightarrow> (0 :: int) = -1 \<and> w1 = w
    | Some s \<Rightarrow> (let f = frame_bytes (pr_magic p) (vt_GetTag (e_vt E) m, s) in
        (0 :: int) = 0 \<and> sends (ch_socket ch) f w w1 \<or>
        (0 :: int) = -1 \<and> (\<exists>k < length f. sends (ch_socket ch) (take k f) w w1))"
    by (rule SendMessage_law [OF assms(1,2) _ s(1)]) (use Cons.prems(1) in auto)
  then obtain t where t: "Serialize (e_pb E) p m = Some t"
    "sends (ch_socket ch) (frame_bytes (pr_magic p) (vt_GetTag (e_vt E) m, t)) w w1"
    by (auto simp: Let_def split: option.splits)
  have "sends (ch_socket ch) (concat (map (\<lambda>m. frame_bytes (pr_magic p) (message_frame E p m)) ms)) w1 w' \<and>
      (\<forall>m \<in> set ms. Serialize (e_pb E) p m \<noteq> None)"
    by (rule Cons.IH [OF _ s(2)]) (use Cons.prems(1) in auto)
  moreover have "message_frame E p m = (vt_GetTag (e_vt E) m, t)"
    using t(1) by (simp add: message_frame_def)
  ultimately show ?case
    using sends_trans [OF t(2)] t(1) by auto
qed simp

end

end
