(* ===== verification/Gep_Channel_Array.thy ===== *)
theory Gep_Channel_Array
  imports Gep_Delivery Gep_Send
begin

text \<open>
  \<open>GepChannelArray\<close> (\<open>include/gep_channel_array.h\<close>, \<open>src/gep_channel_array.cc\<close>): the
  channels of a server, one per client, and the socket that accepts new ones.

  The vector holds shared pointers to channels. Every channel has an id of its own, so a
  pointer is identified by the id of its channel; the destructor of a channel runs when the
  vector and the running operation have let go of it. Each operation holds the recursive
  mutex \<open>gep_channel_vector_lock_\<close> while it looks at the vector, so operations are atomic.
  (\<open>AcceptConnection\<close> holds it for \<open>AddChannel\<close> only; before that it works on the listening socket and
  on a new descriptor that is in no channel yet.)
  The members \<open>proto_\<close> and the callbacks' context are shared with the server and are
  passed along.
\<close>

section \<open>State\<close>

text \<open>
  What the array is given: what its channels are given, its own socket interface, and the
  server's virtual methods \<open>AddClient\<close> and \<open>DelClient\<close>, which do nothing by default.
\<close>

record ('w, 'm) server_env =
  se_chan :: "('w, 'm) gep_env"
  se_si :: "('w, 'm) socket_vt"
  se_AddClient :: "int \<Rightarrow> ('w, 'm) world \<Rightarrow> ('w, 'm) world"
  se_DelClient :: "int \<Rightarrow> ('w, 'm) world \<Rightarrow> ('w, 'm) world"

record carray =
  ca_max_channels :: int
  ca_last_id :: int
  ca_channels :: "channel list"
  ca_server_socket :: int

definition GepChannelArray_new :: "int \<Rightarrow> carray" where
  "GepChannelArray_new max_channels =
     \<lparr>ca_max_channels = max_channels, ca_last_id = 0, ca_channels = [], ca_server_socket = -1\<rparr>"

definition AddClient :: "('w, 'm) server_env \<Rightarrow> int \<Rightarrow> ('w, 'm) world \<Rightarrow> ('w, 'm) world" where
  "AddClient S cid w = se_AddClient S cid (emit (Ev_add_client cid) w)"

definition DelClient :: "('w, 'm) server_env \<Rightarrow> int \<Rightarrow> ('w, 'm) world \<Rightarrow> ('w, 'm) world" where
  "DelClient S cid w = se_DelClient S cid (emit (Ev_del_client cid) w)"

section \<open>The service socket\<close>

definition OpenServerSocket ::
  "('w, 'm) server_env \<Rightarrow> proto \<Rightarrow> carray \<Rightarrow> ('w, 'm) world \<Rightarrow> (int \<times> proto \<times> carray \<times> ('w, 'm) world) option"
where
  "OpenServerSocket S p a w =
     (let os = e_os (se_chan S);
          (sock_fd, w) = si_Socket (se_si S) w in
      if sock_fd = -1 then Some (-1, p, a, w)
      else let (r, w) = si_SetReuseAddr (se_si S) sock_fd w in
      if r < 0 then Some (-1, p, a, os_close os sock_fd w)
      else let (_, w) = si_SetNonBlocking (se_si S) sock_fd w;
               (_, w) = si_SetNoDelay (se_si S) sock_fd w;
               (_, w) = si_SetPriority (se_si S) sock_fd 4 w;
               (r, w) = si_Bind (se_si S) sock_fd (word_of_int (pr_port p)) w in
      if r = -1 then Some (-1, p, a, os_close os sock_fd w)
      else let (r, w) = si_Listen (se_si S) sock_fd 4 w in
      if r = -1 then Some (-1, p, a, os_close os sock_fd w)
      else if pr_port p = 0 then
        (let (r, prt, w) = si_GetPort (se_si S) sock_fd w in
         if r < 0 then Some (-1, p, a, os_close os sock_fd w)
         else do {
           prt \<leftarrow> prt;
           Some (0, SetPort prt p, a\<lparr>ca_server_socket := sock_fd\<rparr>, w)
         })
      else Some (0, p, a\<lparr>ca_server_socket := sock_fd\<rparr>, w))"

fun DelClients :: "('w, 'm) server_env \<Rightarrow> channel list \<Rightarrow> ('w, 'm) world \<Rightarrow> ('w, 'm) world" where
  "DelClients S [] w = w"
| "DelClients S (ch # chs) w = DelClients S chs (DelClient S (ch_id ch) w)"

text \<open>Clearing the vector runs the destructors.\<close>

fun destroy_all :: "('w, 'm) gep_env \<Rightarrow> channel list \<Rightarrow> ('w, 'm) world \<Rightarrow> ('w, 'm) world" where
  "destroy_all E [] w = w"
| "destroy_all E (ch # chs) w = destroy_all E chs (GepChannel_destroy E ch w)"

definition Array_Stop ::
  "('w, 'm) server_env \<Rightarrow> carray \<Rightarrow> ('w, 'm) world \<Rightarrow> int \<times> carray \<times> ('w, 'm) world" where
  "Array_Stop S a w =
     (let (a, w) = (if ca_server_socket a \<ge> 0
                    then (a\<lparr>ca_server_socket := -1\<rparr>, os_close (e_os (se_chan S)) (ca_server_socket a) w)
                    else (a, w));
          w = DelClients S (ca_channels a) w;
          w = destroy_all (se_chan S) (ca_channels a) w
      in (0, a\<lparr>ca_channels := []\<rparr>, w))"

definition ClearGepChannelVector ::
  "('w, 'm) server_env \<Rightarrow> carray \<Rightarrow> ('w, 'm) world \<Rightarrow> carray \<times> ('w, 'm) world" where
  "ClearGepChannelVector S a w = snd (Array_Stop S a w)"

section \<open>Adding a channel\<close>

text \<open>The \<open>int\<close> bound is compared with a \<open>size_t\<close>, so a negative bound is huge.\<close>

definition AddChannel ::
  "('w, 'm) server_env \<Rightarrow> int \<Rightarrow> carray \<Rightarrow> ('w, 'm) world \<Rightarrow> (int \<times> carray \<times> ('w, 'm) world) option"
where
  "AddChannel S socket a w =
     (if of_nat (length (ca_channels a)) \<ge> to_u64 (ca_max_channels a) then Some (-1, a, w)
      else do {
        let cid = ca_last_id a;
        next_id \<leftarrow> chk32 (ca_last_id a + 1);
        Some (0, a\<lparr>ca_last_id := next_id,
                   ca_channels := ca_channels a @ [GepChannel_new (se_chan S) cid socket]\<rparr>,
              AddClient S cid w)
      })"

definition AcceptConnection ::
  "('w, 'm) server_env \<Rightarrow> carray \<Rightarrow> ('w, 'm) world \<Rightarrow> (int \<times> carray \<times> ('w, 'm) world) option"
where
  "AcceptConnection S a w =
     (let (new_socket, w) = si_Accept (se_si S) (ca_server_socket a) w in
      if new_socket = -1 then Some (-1, a, w)
      else do {
        (_, w) \<leftarrow> si_GetPeerIP (se_si S) new_socket 32 (e_uninit (se_chan S)) 32 w;
        let (_, w) = si_SetNonBlocking (se_si S) new_socket w;
        let (_, w) = si_SetNoDelay (se_si S) new_socket w;
        let (_, w) = si_SetPriority (se_si S) new_socket 4 w;
        (_, a, w) \<leftarrow> AddChannel S new_socket a w;
        Some (0, a, w)
      })"

section \<open>Sending\<close>

fun send_each ::
  "('w, 'm) gep_env \<Rightarrow> proto \<Rightarrow> 'm \<Rightarrow> channel list \<Rightarrow> int \<Rightarrow> ('w, 'm) world \<Rightarrow> (int \<times> ('w, 'm) world) option"
where
  "send_each E p msg [] ret w = Some (ret, w)"
| "send_each E p msg (ch # chs) ret w =
     (if IsOpenSocket ch then do {
        (r, w) \<leftarrow> SendMessage E p ch msg w;
        send_each E p msg chs (if r < 0 then -1 else ret) w
      } else send_each E p msg chs ret w)"

definition Array_SendMessage ::
  "('w, 'm) server_env \<Rightarrow> proto \<Rightarrow> 'm \<Rightarrow> carray \<Rightarrow> ('w, 'm) world \<Rightarrow> (int \<times> ('w, 'm) world) option"
where
  "Array_SendMessage S p msg a w = send_each (se_chan S) p msg (ca_channels a) 0 w"

fun send_one ::
  "('w, 'm) gep_env \<Rightarrow> proto \<Rightarrow> 'm \<Rightarrow> int \<Rightarrow> channel list \<Rightarrow> ('w, 'm) world \<Rightarrow> (int \<times> ('w, 'm) world) option"
where
  "send_one E p msg cid [] w = Some (-1, w)"
| "send_one E p msg cid (ch # chs) w =
     (if IsOpenSocket ch \<and> cid = ch_id ch then SendMessage E p ch msg w
      else send_one E p msg cid chs w)"

definition Array_SendMessageTo ::
  "('w, 'm) server_env \<Rightarrow> proto \<Rightarrow> 'm \<Rightarrow> int \<Rightarrow> carray \<Rightarrow> ('w, 'm) world \<Rightarrow> (int \<times> ('w, 'm) world) option"
where
  "Array_SendMessageTo S p msg cid a w = send_one (se_chan S) p msg cid (ca_channels a) w"

section \<open>Accessors\<close>

definition GetVectorSize :: "carray \<Rightarrow> int" where
  "GetVectorSize a = narrow32 (int (length (ca_channels a)))"

text \<open>Indexing a vector out of range is undefined; a negative index is a huge one.\<close>

definition GetVectorSocket :: "carray \<Rightarrow> int \<Rightarrow> int option" where
  "GetVectorSocket a i = map_option GetSocket (nth_opt (ca_channels a) (unat (to_u64 i)))"

definition GetClientId :: "carray \<Rightarrow> int \<Rightarrow> int option" where
  "GetClientId a i = map_option ch_id (nth_opt (ca_channels a) (unat (to_u64 i)))"

definition GetServerSocket :: "carray \<Rightarrow> int" where
  "GetServerSocket a = ca_server_socket a"

section \<open>Receiving\<close>

fun collect_fds :: "channel list \<Rightarrow> int \<Rightarrow> int set \<Rightarrow> (int \<times> int set) option" where
  "collect_fds [] max_fds read_fds = Some (max_fds, read_fds)"
| "collect_fds (ch # chs) max_fds read_fds =
     (let socket = GetSocket ch in
      if socket < 0 then collect_fds chs max_fds read_fds
      else do {
        read_fds \<leftarrow> FD_SET socket read_fds;
        collect_fds chs (max socket max_fds) read_fds
      })"

definition GetVectorReadFds :: "carray \<Rightarrow> int \<Rightarrow> int set \<Rightarrow> (int \<times> int set) option" where
  "GetVectorReadFds a max_fds read_fds = collect_fds (ca_channels a) max_fds read_fds"

text \<open>The first channel whose socket is in the set.\<close>

fun first_ready :: "int set \<Rightarrow> channel list \<Rightarrow> channel option option" where
  "first_ready read_fds [] = Some None"
| "first_ready read_fds (ch # chs) =
     (let socket = GetSocket ch in
      if socket \<ge> 0 then do {
        isset \<leftarrow> FD_ISSET socket read_fds;
        if isset then Some (Some ch) else first_ready read_fds chs
      } else first_ready read_fds chs)"

text \<open>Receiving on a channel updates the channel its pointer points to.\<close>

definition update_channel :: "channel \<Rightarrow> channel list \<Rightarrow> channel list" where
  "update_channel ch chs = map (\<lambda>c. if ch_id c = ch_id ch then ch else c) chs"

fun erase_channel :: "int \<Rightarrow> channel list \<Rightarrow> channel list" where
  "erase_channel cid [] = []"
| "erase_channel cid (ch # chs) = (if ch_id ch = cid then chs else ch # erase_channel cid chs)"

text \<open>
  A channel that failed is deleted from the vector if it is still there; the operation's own
  pointer is the last one, so the channel is destroyed at the end.
\<close>

definition drop_channel ::
  "('w, 'm) server_env \<Rightarrow> channel \<Rightarrow> carray \<Rightarrow> ('w, 'm) world \<Rightarrow> carray \<times> ('w, 'm) world" where
  "drop_channel S ch a w =
     (let (a, w) = (if ch_id ch \<in> ch_id ` set (ca_channels a)
                    then (a\<lparr>ca_channels := erase_channel (ch_id ch) (ca_channels a)\<rparr>,
                          DelClient S (ch_id ch) w)
                    else (a, w))
      in (a, GepChannel_destroy (se_chan S) ch w))"

text \<open>
  The lock is free while the channel receives: \<open>Array_receive\<close> is the operation up to the
  point where it takes the lock again to drop a channel that failed, which is its result.
\<close>

definition Array_receive ::
  "('w, 'm) server_env \<Rightarrow> proto \<Rightarrow> int set \<Rightarrow> carray \<Rightarrow> ('w, 'm) world \<Rightarrow>
     (channel option \<times> carray \<times> ('w, 'm) world) option"
where
  "Array_receive S p read_fds a w = do {
     used \<leftarrow> first_ready read_fds (ca_channels a);
     (case used of
        None \<Rightarrow> Some (None, a, w)
      | Some ch \<Rightarrow> do {
          (ret, ch, w) \<leftarrow> RecvData (se_chan S) p ch w;
          let a = a\<lparr>ca_channels := update_channel ch (ca_channels a)\<rparr>;
          Some (if ret < 0 then Some ch else None, a, w)
        })
   }"

definition Array_RecvData ::
  "('w, 'm) server_env \<Rightarrow> proto \<Rightarrow> int set \<Rightarrow> carray \<Rightarrow> ('w, 'm) world \<Rightarrow> (carray \<times> ('w, 'm) world) option"
where
  "Array_RecvData S p read_fds a w = do {
     (failed, a, w) \<leftarrow> Array_receive S p read_fds a w;
     Some (case failed of None \<Rightarrow> (a, w) | Some ch \<Rightarrow> drop_channel S ch a w)
   }"

end
