(* ===== verification/Gep_Array_Inv.thy ===== *)
theory Gep_Array_Inv
  imports Gep_Channel_Array
begin

text \<open>
  What the array of channels relies on about a channel, as the locale \<open>channel_layer\<close>,
  interpreted with \<open>SendMessage\<close> and \<open>RecvData\<close> of \<open>GepChannel\<close>; and the
  invariant of the array that every operation keeps: client ids are unique, every channel is
  ready to receive, and the clients announced to the server are those in the vector.
\<close>

section \<open>Operations that open, close and announce nothing\<close>

definition steady :: "('w, 'm) world \<Rightarrow> ('w, 'm) world \<Rightarrow> bool" where
  "steady w w' \<longleftrightarrow> live_clients (w_trace w') = live_clients (w_trace w) \<and>
     closed_fds (w_trace w') = closed_fds (w_trace w) \<and>
     opened_fds (w_trace w') = opened_fds (w_trace w)"

definition callbacks_steady :: "('w, 'm) gep_env \<Rightarrow> bool" where
  "callbacks_steady E \<longleftrightarrow>
     (\<forall>tag cb m cid w r w'. e_ops E tag = Some cb \<longrightarrow> cb m cid w = Some (r, w') \<longrightarrow> steady w w')"

lemma callbacks_steadyD:
  "callbacks_steady E \<Longrightarrow> e_ops E tag = Some cb \<Longrightarrow> cb m cid w = Some (r, w') \<Longrightarrow> steady w w'"
  unfolding callbacks_steady_def by blast

lemma closed_fds_simps [simp]:
  "closed_fds [] = []" "closed_fds (xs @ ys) = closed_fds xs @ closed_fds ys"
  "closed_fds (Ev_close fd # tr) = fd # closed_fds tr"
  "closed_fds (Ev_dispatch i t m # tr) = closed_fds tr"
  "closed_fds (Ev_recv fd bs # tr) = closed_fds tr"
  "closed_fds (Ev_add_client i # tr) = closed_fds tr"
  "closed_fds (Ev_del_client i # tr) = closed_fds tr"
  "closed_fds (Ev_select r # tr) = closed_fds tr"
  by (simp_all add: closed_fds_def)

lemma opened_fds_simps [simp]:
  "opened_fds [] = []" "opened_fds (xs @ ys) = opened_fds xs @ opened_fds ys"
  "opened_fds (Ev_socket fd # tr) = (if fd < 0 then [] else [fd]) @ opened_fds tr"
  "opened_fds (Ev_accept l fd # tr) = (if fd < 0 then [] else [fd]) @ opened_fds tr"
  "opened_fds (Ev_close fd # tr) = opened_fds tr"
  "opened_fds (Ev_dispatch i t m # tr) = opened_fds tr"
  "opened_fds (Ev_recv fd bs # tr) = opened_fds tr"
  "opened_fds (Ev_add_client i # tr) = opened_fds tr"
  "opened_fds (Ev_del_client i # tr) = opened_fds tr"
  "opened_fds (Ev_select r # tr) = opened_fds tr"
  by (simp_all add: opened_fds_def)

lemma steady_refl [simp]: "steady w w"
  by (simp add: steady_def)

lemma steady_trans: "steady a b \<Longrightarrow> steady b c \<Longrightarrow> steady a c"
  by (simp add: steady_def)

lemma send_event_closed: "list_all (send_event fd) evs \<Longrightarrow> closed_fds evs = [] \<and> opened_fds evs = []"
  by (induction evs) (auto simp: send_event_def closed_fds_def opened_fds_def split: event.splits)

lemma sends_steady:
  assumes "sends fd bs w w'"
  shows "steady w w'"
proof -
  obtain evs where "w_trace w' = w_trace w @ evs" "list_all (send_event fd) evs"
    using assms by (auto simp: sends_def)
  then show ?thesis
    using sends_live [OF assms] send_event_closed [of fd evs] by (simp add: steady_def)
qed

lemma steady_dispatch: "steady w (emit (Ev_dispatch cid tag m) w)"
  by (simp add: steady_def live_clients_append live_step_def)

lemma RecvTLV_steady:
  assumes "RecvTLV E p cid tag value w = Some (r, w')" and "callbacks_steady E"
  shows "steady w w'"
  using assms callbacks_steadyD [OF assms(2)] steady_trans [OF steady_dispatch]
  by (fastforce simp: RecvTLV_eq split: option.splits if_splits)

section \<open>What a receive does to the world\<close>

text \<open>
  A receive reaches the world through the socket and through \<open>RecvTLV\<close> only. So a reflexive and
  transitive relation on worlds that these two keep is kept by \<open>RecvString\<close> and \<open>RecvData\<close>.
\<close>

lemma RecvString_round_keeps:
  assumes "RecvString_round E p ch w = Some x" and "R w w"
    and "\<And>tag v r w'. RecvTLV E p (ch_id ch) tag v w = Some (r, w') \<Longrightarrow> R w w'"
  shows "case x of Inl (r, ch', w') \<Rightarrow> R w w' | Inr (ch', w') \<Rightarrow> R w w' \<and> ch_id ch' = ch_id ch"
  using assms
  by (auto simp: RecvString_round_def Let_def simp del: kHdrLen_12 kMaxMsgLen_val
      split: bind_splits if_splits)

lemma RecvString_keeps:
  assumes "RecvString E p ch w = Some (r, ch', w')" and "reflp R" and "transp R"
    and "\<And>tag v w r w'. RecvTLV E p (ch_id ch) tag v w = Some (r, w') \<Longrightarrow> R w w'"
  shows "R w w'"
  using assms(1,4)
proof (induction E p ch w arbitrary: r ch' w' rule: RecvString.induct)
  case (1 E p ch w)
  have refl: "R x x" for x using assms(2) by (rule reflpD)
  show ?case
  proof (cases "to_u32 (ch_len ch) \<ge> kHdrLen")
    case False
    then show ?thesis using "1.prems"(1) refl by (subst (asm) RecvString.simps) simp
  next
    case True
    obtain x where x: "RecvString_round E p ch w = Some x"
      using "1.prems"(1) True by (subst (asm) RecvString.simps) (auto split: option.splits)
    note s = RecvString_round_keeps [where R = R, OF x refl "1.prems"(2)]
    show ?thesis
    proof (cases x)
      case (Inl a)
      then have "RecvString E p ch w = Some a" using True x by (subst RecvString.simps) simp
      then show ?thesis using s Inl "1.prems"(1) by (auto split: prod.splits)
    next
      case (Inr b)
      obtain ch1 w1 where b: "b = (ch1, w1)" by fastforce
      have "RecvString E p ch1 w1 = Some (r, ch', w')"
        using "1.prems"(1) True x Inr b by (subst (asm) RecvString.simps) simp
      moreover have "ch_id ch1 = ch_id ch" "R w w1" using s Inr b by simp_all
      ultimately have "R w1 w'"
        by (intro "1.IH" [OF _ x Inr b [symmetric]]) (use True "1.prems"(2) in auto)
      then show ?thesis using \<open>R w w1\<close> transpD [OF assms(3)] by blast
    qed
  qed
qed

lemma RecvData_keeps:
  assumes "RecvData E p ch w = Some (r, ch', w')" and "reflp R" and "transp R"
    and "\<And>tag v w r w'. RecvTLV E p (ch_id ch) tag v w = Some (r, w') \<Longrightarrow> R w w'"
    and "\<And>n ret bs w'. si_Recv (e_si E) (ch_socket ch) n w = (ret, bs, w') \<Longrightarrow> R w w'"
  shows "R w w'"
proof -
  have st: "R w x" if "si_Recv (e_si E) (ch_socket ch) n w = (ret, bs, w1)"
    "RecvString E p (ch\<lparr>ch_buf := b, ch_len := l\<rparr>) w1 = Some (res, c', x)" for n ret bs w1 b l res c' x
  proof -
    have "R w1 x" by (rule RecvString_keeps [OF that(2) assms(2,3)]) (use assms(4) in simp)
    then show ?thesis using assms(5) [OF that(1)] transpD [OF assms(3)] by blast
  qed
  have "R w w" using assms(2) by (rule reflpD)
  then show ?thesis
    using assms(1,5) st by (auto simp: RecvData_def Let_def split: if_splits bind_splits prod.splits)
qed

context socket_contract
begin

lemma RecvData_steady:
  assumes "si_Recv (e_si E) = recv" and "ok" and "callbacks_steady E"
    and "RecvData E p ch w = Some (r, ch', w')"
  shows "steady w w'"
proof (rule RecvData_keeps [OF assms(4)])
  show "reflp (steady :: ('w, 'm) world \<Rightarrow> _)" by (simp add: reflp_def)
  show "transp (steady :: ('w, 'm) world \<Rightarrow> _)" using steady_trans by (rule transpI)
  show "steady w w'" if "RecvTLV E p (ch_id ch) tag v w = Some (r, w')" for tag v w r w'
    using RecvTLV_steady [OF that assms(3)] .
  show "steady w w'" if "si_Recv (e_si E) (ch_socket ch) n w = (ret, bs, w')" for n ret bs w'
    using recv_law [OF assms(2), of "ch_socket ch" n w ret bs w'] that assms(1)
    by (auto simp: steady_def live_clients_append live_step_def)
qed

end

section \<open>Sending to several channels\<close>

text \<open>What one send does: a prefix of the message, all of it exactly when it returns 0.\<close>

definition send_post ::
  "int \<Rightarrow> u8 list \<Rightarrow> bool \<Rightarrow> ('w, 'm) world \<Rightarrow> ('w, 'm) world \<Rightarrow> int \<Rightarrow> bool" where
  "send_post fd msg can w w' r \<longleftrightarrow> (\<exists>k \<le> length msg. sends fd (take k msg) w w' \<and>
     r = (if can \<and> k = length msg then 0 else -1))"

text \<open>What a descriptor gets when each channel sends so many bytes of a message.\<close>

definition given_to :: "int \<Rightarrow> u8 list \<Rightarrow> (channel \<times> nat) list \<Rightarrow> u8 list" where
  "given_to fd msg cks =
     concat (map (\<lambda>(ch, k). if IsOpenSocket ch \<and> ch_socket ch = fd then take k msg else []) cks)"

definition whole :: "u8 list \<Rightarrow> bool \<Rightarrow> (channel \<times> nat) list \<Rightarrow> bool" where
  "whole msg can cks \<longleftrightarrow> list_all (\<lambda>(ch, k). IsOpenSocket ch \<longrightarrow> can \<and> k = length msg) cks"

definition broadcast_post ::
  "u8 list \<Rightarrow> channel list \<Rightarrow> nat list \<Rightarrow> ('w, 'm) world \<Rightarrow> ('w, 'm) world \<Rightarrow> bool" where
  "broadcast_post msg chs ks w w' \<longleftrightarrow> length ks = length chs \<and> list_all (\<lambda>k. k \<le> length msg) ks \<and>
     steady w w' \<and> (\<forall>fd. sent_on fd (w_trace w') = sent_on fd (w_trace w) @ given_to fd msg (zip chs ks))"

text \<open>
  A broadcast sends to one open channel after the other, in the world the one before left, and
  whatever came of it.
\<close>

lemma send_each_runs:
  assumes "send_each E p m chs ret w = Some (r, w')" and "\<forall>ch \<in> set chs. IsOpenSocket ch"
  shows "\<exists>rs ws. length rs = length chs \<and> length ws = Suc (length chs) \<and> ws ! 0 = w \<and> ws ! length chs = w' \<and>
    (\<forall>i < length chs. SendMessage E p (chs ! i) m (ws ! i) = Some (rs ! i, ws ! Suc i)) \<and>
    r = (if list_all (\<lambda>x. 0 \<le> x) rs then ret else -1)"
  using assms
proof (induction chs arbitrary: ret w)
  case Nil
  then show ?case by (intro exI [of _ "[]"] exI [of _ "[w]"]) simp
next
  case (Cons ch chs)
  then obtain r1 w1 where s: "SendMessage E p ch m w = Some (r1, w1)"
    and rest: "send_each E p m chs (if r1 < 0 then -1 else ret) w1 = Some (r, w')"
    by (auto split: bind_splits)
  obtain rs ws where ih: "length rs = length chs" "length ws = Suc (length chs)" "ws ! 0 = w1" "ws ! length chs = w'"
    "\<forall>i < length chs. SendMessage E p (chs ! i) m (ws ! i) = Some (rs ! i, ws ! Suc i)"
    "r = (if list_all (\<lambda>x. 0 \<le> x) rs then if r1 < 0 then -1 else ret else -1)"
    using Cons.IH [OF rest] Cons.prems(2) by auto
  have "SendMessage E p ((ch # chs) ! i) m ((w # ws) ! i) = Some ((r1 # rs) ! i, (w # ws) ! Suc i)"
    if "i < length (ch # chs)" for i
    using that s ih(3,5) by (cases i) auto
  then show ?case
    using ih by (intro exI [of _ "r1 # rs"] exI [of _ "w # ws"]) auto
qed

section \<open>The contract of a channel\<close>

text \<open>
  A send puts a prefix of the message's wire form on the channel's socket and nothing
  elsewhere, all of it exactly when it returns 0; a receive on a channel that is ready
  always returns, keeps the channel's identity, and leaves it ready when it returns 0.
\<close>

locale channel_layer =
  fixes send :: "channel \<Rightarrow> 'm \<Rightarrow> ('w, 'm) world \<Rightarrow> (int \<times> ('w, 'm) world) option"
    and recv :: "channel \<Rightarrow> ('w, 'm) world \<Rightarrow> (int \<times> channel \<times> ('w, 'm) world) option"
    and wire :: "'m \<Rightarrow> u8 list"
    and sendable :: "'m \<Rightarrow> bool"
    and good :: "channel \<Rightarrow> bool"
    and ok :: bool
  assumes send_law: "ok \<Longrightarrow> send ch m w = Some (r, w') \<Longrightarrow>
      send_post (ch_socket ch) (wire m) (sendable m) w w' r"
    and recv_law: "ok \<Longrightarrow> good ch \<Longrightarrow> \<exists>r ch' w'. recv ch w = Some (r, ch', w') \<and>
        same_conn ch ch' \<and> r \<in> {0, -1, -2} \<and> (r = 0 \<longrightarrow> good ch') \<and> steady w w'"
    and good_law: "ok \<Longrightarrow> good ch \<Longrightarrow> 0 \<le> ch_socket ch"
begin

text \<open>A broadcast: what each channel got of the message decides the result.\<close>

lemma send_each_law:
  assumes "SendMessage E p = send" and "ok"
    and "send_each E p m chs ret w = Some (r, w')" and "ret \<in> {0, -1}"
  shows "\<exists>ks. broadcast_post (wire m) chs ks w w' \<and>
    r = (if ret = 0 \<and> whole (wire m) (sendable m) (zip chs ks) then 0 else -1)"
  using assms(3,4)
proof (induction chs arbitrary: ret w)
  case Nil
  then show ?case by (auto simp: broadcast_post_def whole_def given_to_def)
next
  case (Cons ch chs)
  show ?case
  proof (cases "IsOpenSocket ch")
    case False
    then obtain ks where "broadcast_post (wire m) chs ks w w'"
      "r = (if ret = 0 \<and> whole (wire m) (sendable m) (zip chs ks) then 0 else -1)"
      using Cons.IH [OF _ Cons.prems(2)] Cons.prems(1) by auto
    then show ?thesis
      using False by (intro exI [of _ "0 # ks"]) (auto simp: broadcast_post_def whole_def given_to_def)
  next
    case True
    then obtain r1 w1 where s: "send ch m w = Some (r1, w1)"
      and rest: "send_each E p m chs (if r1 < 0 then -1 else ret) w1 = Some (r, w')"
      using Cons.prems(1) assms(1) by (auto split: bind_splits)
    obtain k where k: "k \<le> length (wire m)" "sends (ch_socket ch) (take k (wire m)) w w1"
      "r1 = (if sendable m \<and> k = length (wire m) then 0 else -1)"
      using send_law [OF assms(2) s] unfolding send_post_def by blast
    have so: "sent_on fd (w_trace w1) = sent_on fd (w_trace w) @ (if ch_socket ch = fd then take k (wire m) else [])" for fd
      using sends_sent_on [OF k(2)] sends_sent_other [OF k(2), of fd] by auto
    have "(if r1 < 0 then -1 else ret) \<in> {0, -1}" using Cons.prems(2) by simp
    then obtain ks where ks: "broadcast_post (wire m) chs ks w1 w'"
      "r = (if (if r1 < 0 then -1 else ret) = 0 \<and> whole (wire m) (sendable m) (zip chs ks) then 0 else -1)"
      using Cons.IH [OF rest] by blast
    have "broadcast_post (wire m) (ch # chs) (k # ks) w w'"
      using True ks(1) k(1) so steady_trans [OF sends_steady [OF k(2)]]
      by (auto simp: broadcast_post_def given_to_def)
    moreover have "r = (if ret = 0 \<and> whole (wire m) (sendable m) (zip (ch # chs) (k # ks)) then 0 else -1)"
      using True ks(2) k(3) by (auto simp: whole_def)
    ultimately show ?thesis by blast
  qed
qed

text \<open>A send to one client goes to the first open channel with its id, if there is one.\<close>

lemma send_one_law:
  assumes "SendMessage E p = send" and "ok"
    and "send_one E p m cid chs w = Some (r, w')"
  shows "case find (\<lambda>ch. IsOpenSocket ch \<and> cid = ch_id ch) chs of
      None \<Rightarrow> r = -1 \<and> w' = w
    | Some ch \<Rightarrow> send_post (ch_socket ch) (wire m) (sendable m) w w' r"
  using assms(3)
proof (induction chs)
  case (Cons ch chs)
  then show ?case
    using send_law [OF assms(2), of ch m w r w'] assms(1) by (cases "IsOpenSocket ch \<and> cid = ch_id ch") auto
qed simp

end

section \<open>The provider keeps the contract\<close>

definition channel_env_ok :: "('w, 'm) gep_env \<Rightarrow> proto \<Rightarrow> bool" where
  "channel_env_ok E p \<longleftrightarrow> e_si E = SocketInterface_of (e_os E) \<and> os_send_ok (e_os E) \<and> os_recv_ok (e_os E) \<and>
     ops_ok E p \<and> callbacks_steady E \<and>
     (\<forall>m s. Serialize (e_pb E) p m = Some s \<longrightarrow> length s < 2147483648)"

definition message_wire :: "('w, 'm) gep_env \<Rightarrow> proto \<Rightarrow> 'm \<Rightarrow> u8 list" where
  "message_wire E p m =
     (case Serialize (e_pb E) p m of
        None \<Rightarrow> []
      | Some s \<Rightarrow> frame_bytes (pr_magic p) (vt_GetTag (e_vt E) m, s))"

lemma channel_env_okD:
  assumes "channel_env_ok E p"
  shows "si_FullSend (e_si E) = si_FullSend (SocketInterface_of (e_os E))"
    and "si_Recv (e_si E) = si_Recv (SocketInterface_of (e_os E))"
    and "os_send_ok (e_os E) \<and> os_recv_ok (e_os E)" and "ops_ok E p" and "callbacks_steady E"
    and "Serialize (e_pb E) p m = Some s \<Longrightarrow> length s < 2147483648"
  using assms unfolding channel_env_ok_def by simp_all

lemma SendMessage_prefix:
  assumes "channel_env_ok E p" and "SendMessage E p ch m w = Some (r, w')"
  shows "send_post (ch_socket ch) (message_wire E p m) (Serialize (e_pb E) p m \<noteq> None) w w' r"
proof -
  note law = sock.SendMessage_law [OF channel_env_okD(1,3) [OF assms(1)] channel_env_okD(6) [OF assms(1)] assms(2)]
  show ?thesis
  proof (cases "Serialize (e_pb E) p m")
    case None
    then show ?thesis using law by (simp add: message_wire_def send_post_def)
  next
    case (Some s)
    let ?f = "frame_bytes (pr_magic p) (vt_GetTag (e_vt E) m, s)"
    have "r = 0 \<and> sends (ch_socket ch) ?f w w' \<or> r = -1 \<and> (\<exists>k < length ?f. sends (ch_socket ch) (take k ?f) w w')"
      using law Some by (simp add: Let_def)
    then have "send_post (ch_socket ch) ?f True w w' r"
      unfolding send_post_def by (metis (full_types) less_imp_le nat_neq_iff order_refl take_all)
    then show ?thesis using Some by (simp add: message_wire_def)
  qed
qed

lemma RecvData_ready:
  assumes "channel_env_ok E p" and "chan_idle p ch"
  shows "\<exists>r ch' w'. RecvData E p ch w = Some (r, ch', w') \<and> same_conn ch ch' \<and> r \<in> {0, -1, -2} \<and>
    (r = 0 \<longrightarrow> chan_idle p ch') \<and> steady w w'"
proof -
  have idle: "chan_room ch" "0 \<le> ch_socket ch" using assms(2) by (simp_all add: chan_idle_def)
  obtain ret bs w1 r ch' w' where rd: "RecvData E p ch w = Some (r, ch', w')"
    and post: "recv_post E p ch w ret bs r ch' w'"
    using sock.RecvData_post [OF channel_env_okD(2-4) [OF assms(1)] idle] by blast
  have "same_conn ch ch' \<and> r \<in> {0, -1, -2}"
    using post by (auto simp: recv_post_def split: if_splits)
  moreover have "r = 0 \<longrightarrow> chan_idle p ch'"
    using sock.RecvData_idle [OF post assms(2)] by simp
  moreover have "steady w w'"
    using sock.RecvData_steady [OF channel_env_okD(2,3,5) [OF assms(1)] rd] .
  ultimately show ?thesis using rd by blast
qed

interpretation chan: channel_layer
  "SendMessage E p" "RecvData E p" "message_wire E p" "\<lambda>m. Serialize (e_pb E) p m \<noteq> None"
  "chan_idle p" "channel_env_ok E p"
  for E :: "('w, 'm) gep_env" and p
proof (unfold_locales, goal_cases)
  case (1 ch m w r w')
  then show ?case by (rule SendMessage_prefix)
next
  case (2 ch w)
  then show ?case by (rule RecvData_ready)
next
  case (3 ch)
  then show ?case by (simp add: chan_idle_def)
qed

end
