(* ===== verification/Gep_Array_Ops.thy ===== *)
theory Gep_Array_Ops
  imports Gep_Array_Inv
begin

text \<open>
  The operations of the array keep its invariant \<open>array_ok\<close>, for a server environment
  that is the program's own socket layer over a kernel (\<open>server_env_ok\<close>).
\<close>

section \<open>Specification\<close>

definition hooks_steady :: "('w, 'm) server_env \<Rightarrow> bool" where
  "hooks_steady S \<longleftrightarrow> (\<forall>cid w. steady w (se_AddClient S cid w) \<and> steady w (se_DelClient S cid w))"

definition server_env_ok :: "('w, 'm) server_env \<Rightarrow> proto \<Rightarrow> bool" where
  "server_env_ok S p \<longleftrightarrow> channel_env_ok (se_chan S) p \<and> hooks_steady S \<and>
     se_si S = SocketInterface_of (e_os (se_chan S)) \<and> os_fds_ok (e_os (se_chan S))"

definition chan_good :: "proto \<Rightarrow> channel \<Rightarrow> bool" where
  "chan_good p ch \<longleftrightarrow> chan_idle p ch \<and> ch_socket ch < FD_SETSIZE"

definition array_ok :: "proto \<Rightarrow> carray \<Rightarrow> bool" where
  "array_ok p a \<longleftrightarrow> distinct (map ch_id (ca_channels a)) \<and>
     (\<forall>ch \<in> set (ca_channels a). chan_good p ch \<and> 0 \<le> ch_id ch \<and> ch_id ch < ca_last_id a) \<and>
     0 \<le> ca_last_id a \<and> i32_ok (ca_last_id a) \<and>
     length (ca_channels a) \<le> unat (to_u64 (ca_max_channels a)) \<and>
     - 1 \<le> ca_server_socket a \<and> ca_server_socket a < FD_SETSIZE"

text \<open>The clients announced to the server are those in the vector.\<close>

definition clients_known :: "carray \<Rightarrow> ('w, 'm) world \<Rightarrow> bool" where
  "clients_known a w \<longleftrightarrow> live_clients (w_trace w) = map ch_id (ca_channels a)"

lemma clients_known_steady: "clients_known a w \<Longrightarrow> steady w w' \<Longrightarrow> clients_known a w'"
  by (simp add: clients_known_def steady_def)

section \<open>Calls that leave the clients alone\<close>

definition inert :: "'m event \<Rightarrow> bool" where
  "inert e \<longleftrightarrow> (\<forall>ids. live_step ids e = ids) \<and> closed_fds [e] = [] \<and> opened_fds [e] = []"

lemma inert_events [simp]:
  "inert (Ev_bind fd prt r)" "inert (Ev_listen fd b r)"
  "inert (Ev_setopt fd opt v r)" "inert (Ev_setfl fd r)" "inert (Ev_select r)" "inert (Ev_connect fd prt r)"
  "inert (Ev_sleep s n)"
  by (simp_all add: inert_def live_step_def closed_fds_def opened_fds_def)

lemma steady_emit: "inert e \<Longrightarrow> steady w (emit e w)"
  by (simp add: steady_def inert_def live_clients_append)

lemma syscall_steady: "syscall f ev w = (r, w') \<Longrightarrow> (\<And>r. inert (ev r)) \<Longrightarrow> steady w w'"
  by (auto simp: syscall_def steady_def inert_def live_clients_append split: prod.splits)

lemma steady_same_trace: "w_trace w' = w_trace w \<Longrightarrow> steady w w'"
  by (simp add: steady_def)

lemma steady_update [simp]:
  "steady (w\<lparr>w_os := s\<rparr>) w' = steady w w'" "steady (w\<lparr>w_errno := e\<rparr>) w' = steady w w'"
  by (simp_all add: steady_def)

lemma syscall_steady_os: "syscall f ev (w\<lparr>w_os := s\<rparr>) = (r, w') \<Longrightarrow> (\<And>r. inert (ev r)) \<Longrightarrow> steady w w'"
  using syscall_steady [of f ev "w\<lparr>w_os := s\<rparr>" r w'] by simp

lemma raw_steady:
  "Raw_Bind os fd prt w = (r, w') \<Longrightarrow> steady w w'" "Raw_Listen os fd b w = (r, w') \<Longrightarrow> steady w w'"
  "Raw_SetSockOpt os fd opt v w = (r, w') \<Longrightarrow> steady w w'"
  "os_connect os fd prt w = (r, w') \<Longrightarrow> steady w w'"
  by (auto simp: Raw_Bind_def Raw_Listen_def Raw_SetSockOpt_def os_connect_def intro: syscall_steady)

text \<open>The two calls that open a descriptor change nothing else.\<close>

definition opens :: "int \<Rightarrow> ('w, 'm) world \<Rightarrow> ('w, 'm) world \<Rightarrow> bool" where
  "opens fd w w' \<longleftrightarrow> live_clients (w_trace w') = live_clients (w_trace w) \<and>
     closed_fds (w_trace w') = closed_fds (w_trace w) \<and>
     opened_fds (w_trace w') = opened_fds (w_trace w) @ (if fd < 0 then [] else [fd])"

lemma raw_opens:
  "Raw_Socket os w = (r, w') \<Longrightarrow> opens r w w'" "Raw_Accept os fd w = (r, w') \<Longrightarrow> opens r w w'"
  by (auto simp: Raw_Socket_def Raw_Accept_def syscall_def opens_def live_clients_append live_step_def
      closed_fds_def split: prod.splits)

lemma opens_steady: "opens fd w w1 \<Longrightarrow> steady w1 w2 \<Longrightarrow> opens fd w w2"
  by (simp add: opens_def steady_def)

lemma clients_known_opens: "clients_known a w \<Longrightarrow> opens fd w w' \<Longrightarrow> clients_known a w'"
  by (simp add: clients_known_def opens_def)

lemma Raw_Select_steady: "Raw_Select os n rd wr tv w = (r, rd', w') \<Longrightarrow> steady w w'"
  using sends_steady Raw_Select_sends by fastforce

lemma settings_steady:
  "SetNonBlocking os fd w = (r, w') \<Longrightarrow> steady w w'" "SetNoDelay os fd w = (r, w') \<Longrightarrow> steady w w'"
  "SetPriority os fd prio w = (r, w') \<Longrightarrow> steady w w'" "SetReuseAddr os fd w = (r, w') \<Longrightarrow> steady w w'"
  "GetPort_socket os fd w = (r, prt, w') \<Longrightarrow> steady w w'"
proof -
  show "SetNonBlocking os fd w = (r, w') \<Longrightarrow> steady w w'"
    by (auto simp: SetNonBlocking_def Let_def split: prod.splits if_splits
        intro: steady_same_trace syscall_steady_os)
  show "GetPort_socket os fd w = (r, prt, w') \<Longrightarrow> steady w w'"
    by (auto simp: GetPort_socket_def Raw_GetSockName_def Let_def split: prod.splits if_splits
        intro: steady_same_trace)
qed (auto simp: SetNoDelay_def SetPriority_def SetReuseAddr_def Let_def
      split: prod.splits if_splits intro: raw_steady)

lemma GetPeerIP_steady: "GetPeerIP os fd cap buf sz w = Some (buf', w') \<Longrightarrow> steady w w'"
  by (auto simp: GetPeerIP_def Let_def split: prod.splits option.splits if_splits bind_splits
      intro: steady_same_trace)

lemma GetPeerIP_defined: "\<exists>buf' w'. GetPeerIP os fd 32 buf 32 w = Some (buf', w')"
proof -
  obtain peer s where p: "sys_getpeername os fd (w_os w) = (peer, s)" by fastforce
  have u: "\<exists>n b. nice_snprintf 32 buf 0 32 unknown_text = Some (n, b)"
    by (simp add: nice_snprintf_def poke_def unknown_text_def)
  show ?thesis
  proof (cases "\<exists>t. peer = Some t \<and> length t < 32")
    case True
    then obtain t where t: "peer = Some t" "length t < 32" by blast
    then have "\<exists>b. poke 32 buf 0 (t @ [0]) = Some b" by (simp add: poke_Some_iff)
    then show ?thesis using p t by (auto simp: GetPeerIP_def)
  next
    case False
    then show ?thesis using p u by (cases peer) (auto simp: GetPeerIP_def)
  qed
qed


section \<open>The service socket\<close>

lemma live_close [simp]: "live_clients (tr @ [Ev_close fd]) = live_clients tr"
  by (simp add: live_clients_append live_step_def)

lemma os_close_world:
  "live_clients (w_trace (os_close os fd w)) = live_clients (w_trace w)"
  "closed_fds (w_trace (os_close os fd w)) = closed_fds (w_trace w) @ [fd]"
  by (simp_all add: os_close_def syscall_def split: prod.split)

lemma os_close_opened: "opened_fds (w_trace (os_close os fd w)) = opened_fds (w_trace w)"
  by (simp add: os_close_def syscall_def split: prod.split)

text \<open>
  Opening returns 0 with the socket open, or -1 with the array and the protocol as they were
  and every descriptor it made closed again.
\<close>

lemma OpenServerSocket_result:
  assumes "server_env_ok S p"
  shows "\<exists>r p' a' w'. OpenServerSocket S p a w = Some (r, p', a', w') \<and>
    live_clients (w_trace w') = live_clients (w_trace w) \<and>
    (r = -1 \<and> p' = p \<and> a' = a \<and>
       (\<exists>fds. opened_fds (w_trace w') = opened_fds (w_trace w) @ fds \<and>
          closed_fds (w_trace w') = closed_fds (w_trace w) @ fds) \<or>
     (\<exists>fd. r = 0 \<and> 0 \<le> fd \<and> fd < FD_SETSIZE \<and> a' = a\<lparr>ca_server_socket := fd\<rparr> \<and>
        p' = SetPort (pr_port p') p \<and> (pr_port p \<noteq> 0 \<longrightarrow> p' = p) \<and> opens fd w w'))"
proof -
  let ?os = "e_os (se_chan S)"
  have env: "se_si S = SocketInterface_of ?os" "os_fds_ok ?os" using assms by (auto simp: server_env_ok_def)
  obtain fd w1 where s1: "Raw_Socket ?os w = (fd, w1)" by fastforce
  obtain r2 w2 where s2: "SetReuseAddr ?os fd w1 = (r2, w2)" by fastforce
  obtain r3 w3 where s3: "SetNonBlocking ?os fd w2 = (r3, w3)" by fastforce
  obtain r4 w4 where s4: "SetNoDelay ?os fd w3 = (r4, w4)" by fastforce
  obtain r5 w5 where s5: "SetPriority ?os fd 4 w4 = (r5, w5)" by fastforce
  obtain r6 w6 where s6: "Raw_Bind ?os fd (word_of_int (pr_port p)) w5 = (r6, w6)" by fastforce
  obtain r7 w7 where s7: "Raw_Listen ?os fd 4 w6 = (r7, w7)" by fastforce
  obtain r8 prt w8 where s8: "GetPort_socket ?os fd w7 = (r8, prt, w8)" by (metis surj_pair)
  have op: "opens fd w w1" "opens fd w w2" "opens fd w w6" "opens fd w w7" "opens fd w w8"
    using raw_opens(1) [OF s1] s2 s3 s4 s5 s6 s7 s8 raw_steady settings_steady
    unfolding steady_def opens_def by metis+
  have port: "r8 < 0 \<or> (\<exists>n. prt = Some n)"
    using s8 by (auto simp: GetPort_socket_def Let_def split: prod.splits if_splits)
  have fd: "- 1 \<le> fd" "fd < FD_SETSIZE" using Raw_Socket_fd [OF env(2) s1] by auto
  have eq: "OpenServerSocket S p a w =
     (if fd = -1 then Some (-1, p, a, w1)
      else if r2 < 0 then Some (-1, p, a, os_close ?os fd w2)
      else if r6 = -1 then Some (-1, p, a, os_close ?os fd w6)
      else if r7 = -1 then Some (-1, p, a, os_close ?os fd w7)
      else if pr_port p = 0 then
        (if r8 < 0 then Some (-1, p, a, os_close ?os fd w8)
         else map_option (\<lambda>n. (0, SetPort n p, a\<lparr>ca_server_socket := fd\<rparr>, w8)) prt)
      else Some (0, p, a\<lparr>ca_server_socket := fd\<rparr>, w7))"
    by (simp add: OpenServerSocket_def env(1) SocketInterface_of_def s1 s2 s3 s4 s5 s6 s7 s8 Let_def
        map_option_case split: bind_split option.split)
  show ?thesis
    unfolding eq using op port fd
    by (cases prt) (auto simp: opens_def os_close_world os_close_opened SetPort_def intro!: exI [of _ fd])
qed

text \<open>A server that asked for any port takes over the one the kernel reports at the end.\<close>

lemma OpenServerSocket_port:
  assumes "OpenServerSocket S p a w = Some (0, p', a', w')" and "pr_port p = 0"
    and "se_si S = SocketInterface_of (e_os (se_chan S))"
  shows "\<exists>w1 q prt. Raw_GetSockName (e_os (se_chan S)) (ca_server_socket a') w1 = (q, prt, w') \<and> 0 \<le> q \<and>
    p' = SetPort (uint prt) p"
  using assms
  by (fastforce simp: OpenServerSocket_def SocketInterface_of_def GetPort_socket_def Let_def
      split: prod.splits if_splits bind_splits)

section \<open>Adding a client\<close>

lemma server_env_okD:
  assumes "server_env_ok S p"
  shows "channel_env_ok (se_chan S) p" and "hooks_steady S"
    and "se_si S = SocketInterface_of (e_os (se_chan S))" and "os_fds_ok (e_os (se_chan S))"
  using assms by (simp_all add: server_env_ok_def)

lemma GepChannel_new_good: "0 \<le> socket \<Longrightarrow> socket < FD_SETSIZE \<Longrightarrow> chan_good p (GepChannel_new E cid socket)"
  by (simp add: chan_good_def chan_idle_def chan_room_def GepChannel_new_def content_def parse_short)

definition array_full :: "carray \<Rightarrow> bool" where
  "array_full a \<longleftrightarrow> unat (to_u64 (ca_max_channels a)) \<le> length (ca_channels a)"

lemma array_full_guard:
  assumes "array_ok p a"
  shows "of_nat (length (ca_channels a)) \<ge> to_u64 (ca_max_channels a) \<longleftrightarrow> array_full a"
proof -
  have "length (ca_channels a) \<le> unat (to_u64 (ca_max_channels a))" using assms by (simp add: array_ok_def)
  also have "\<dots> < 2 ^ 64" using unsigned_less [of "to_u64 (ca_max_channels a)", where ?'a = nat] by simp
  finally have "unat (of_nat (length (ca_channels a)) :: u64) = length (ca_channels a)"
    by (simp add: unat_of_nat)
  then show ?thesis by (simp add: word_le_nat_alt array_full_def)
qed

lemma AddClient_world:
  assumes "hooks_steady S"
  shows "live_clients (w_trace (AddClient S cid w)) = live_clients (w_trace w) @ [cid]"
    and "closed_fds (w_trace (AddClient S cid w)) = closed_fds (w_trace w)"
    and "opened_fds (w_trace (AddClient S cid w)) = opened_fds (w_trace w)"
  using assms by (simp_all add: AddClient_def hooks_steady_def steady_def live_clients_append live_step_def)

lemma DelClient_world:
  assumes "hooks_steady S"
  shows "live_clients (w_trace (DelClient S cid w)) = remove1 cid (live_clients (w_trace w))"
    and "closed_fds (w_trace (DelClient S cid w)) = closed_fds (w_trace w)"
  using assms by (simp_all add: DelClient_def hooks_steady_def steady_def live_clients_append live_step_def)

text \<open>
  With room left a client gets a fresh id, is announced and enters the vector; without room
  nothing changes.
\<close>

lemma AddChannel_result:
  assumes "array_ok p a" and "clients_known a w" and "hooks_steady S"
    and "0 \<le> socket" and "socket < FD_SETSIZE" and "array_full a \<or> i32_ok (ca_last_id a + 1)"
  shows "\<exists>r a' w'. AddChannel S socket a w = Some (r, a', w') \<and> array_ok p a' \<and> clients_known a' w' \<and>
    closed_fds (w_trace w') = closed_fds (w_trace w) \<and> opened_fds (w_trace w') = opened_fds (w_trace w) \<and>
    (if array_full a then r = -1 \<and> a' = a \<and> w' = w
     else r = 0 \<and> ca_last_id a' = ca_last_id a + 1 \<and> ca_server_socket a' = ca_server_socket a \<and>
       ca_channels a' = ca_channels a @ [GepChannel_new (se_chan S) (ca_last_id a) socket])"
proof (cases "array_full a")
  case True
  then show ?thesis
    using assms(1,2) array_full_guard [OF assms(1)] by (simp add: AddChannel_def)
next
  case False
  let ?ch = "GepChannel_new (se_chan S) (ca_last_id a) socket"
  let ?a = "a\<lparr>ca_last_id := ca_last_id a + 1, ca_channels := ca_channels a @ [?ch]\<rparr>"
  have eq: "AddChannel S socket a w = Some (0, ?a, AddClient S (ca_last_id a) w)"
    using False assms(6) array_full_guard [OF assms(1)] by (simp add: AddChannel_def chk32_def Let_def)
  have "array_ok p ?a"
    using assms(1,6) False GepChannel_new_good [OF assms(4,5), of p "se_chan S" "ca_last_id a"]
    by (auto simp: array_ok_def array_full_def GepChannel_new_def)
  moreover have "clients_known ?a (AddClient S (ca_last_id a) w)"
    using assms(2) AddClient_world(1) [OF assms(3)] by (simp add: clients_known_def GepChannel_new_def)
  ultimately show ?thesis
    using eq False AddClient_world(2,3) [OF assms(3)] by simp
qed

lemma AcceptConnection_result:
  assumes "server_env_ok S p" and "array_ok p a" and "clients_known a w"
    and "fst (Raw_Accept (e_os (se_chan S)) (ca_server_socket a) w) = -1 \<or> array_full a \<or> i32_ok (ca_last_id a + 1)"
  shows "\<exists>r a' w'. AcceptConnection S a w = Some (r, a', w') \<and> array_ok p a' \<and> clients_known a' w' \<and>
    closed_fds (w_trace w') = closed_fds (w_trace w) \<and> ca_server_socket a' = ca_server_socket a \<and>
    opened_fds (w_trace w') = opened_fds (w_trace w) @
      (case fst (Raw_Accept (e_os (se_chan S)) (ca_server_socket a) w) of fd \<Rightarrow> if fd < 0 then [] else [fd]) \<and>
    (case fst (Raw_Accept (e_os (se_chan S)) (ca_server_socket a) w) of fd \<Rightarrow>
       if fd = -1 then r = -1 \<and> a' = a
       else r = 0 \<and>
         (if array_full a then a' = a
          else ca_last_id a' = ca_last_id a + 1 \<and>
            ca_channels a' = ca_channels a @ [GepChannel_new (se_chan S) (ca_last_id a) fd]))"
proof -
  let ?os = "e_os (se_chan S)"
  note env = server_env_okD [OF assms(1)]
  obtain fd w1 where s1: "Raw_Accept ?os (ca_server_socket a) w = (fd, w1)" by fastforce
  obtain b w2 where s2: "GetPeerIP ?os fd 32 (e_uninit (se_chan S)) 32 w1 = Some (b, w2)"
    using GetPeerIP_defined by blast
  obtain r3 w3 where s3: "SetNonBlocking ?os fd w2 = (r3, w3)" by fastforce
  obtain r4 w4 where s4: "SetNoDelay ?os fd w3 = (r4, w4)" by fastforce
  obtain r5 w5 where s5: "SetPriority ?os fd 4 w4 = (r5, w5)" by fastforce
  have "steady w1 w5"
    using GetPeerIP_steady [OF s2] s3 s4 s5 settings_steady unfolding steady_def by metis
  then have st: "opens fd w w1" "opens fd w w5"
    using raw_opens(2) [OF s1] opens_steady by blast+
  have fd: "- 1 \<le> fd" "fd < FD_SETSIZE" using Raw_Accept_fd [OF env(4) s1] by auto
  have eq: "AcceptConnection S a w = (if fd = -1 then Some (-1, a, w1)
      else AddChannel S fd a w5 \<bind> (\<lambda>(_, a, w). Some (0, a, w)))"
    by (simp add: AcceptConnection_def env(3) SocketInterface_of_def s1 s2 s3 s4 s5 Let_def)
  show ?thesis
  proof (cases "fd = -1")
    case True
    then show ?thesis
      using assms(2) clients_known_opens [OF assms(3) st(1)] st(1) s1 unfolding eq by (simp add: opens_def)
  next
    case False
    then have "0 \<le> fd" using fd by simp
    then obtain r a' w' where ad: "AddChannel S fd a w5 = Some (r, a', w')" "array_ok p a'" "clients_known a' w'"
      "closed_fds (w_trace w') = closed_fds (w_trace w5)" "opened_fds (w_trace w') = opened_fds (w_trace w5)"
      "if array_full a then r = -1 \<and> a' = a \<and> w' = w5
       else r = 0 \<and> ca_last_id a' = ca_last_id a + 1 \<and> ca_server_socket a' = ca_server_socket a \<and>
         ca_channels a' = ca_channels a @ [GepChannel_new (se_chan S) (ca_last_id a) fd]"
      using AddChannel_result [OF assms(2) clients_known_opens [OF assms(3) st(2)] env(2) _ fd(2)] assms(4) s1 False by auto
    then show ?thesis
      using False st(2) s1 unfolding eq by (auto simp: opens_def split: if_splits)
  qed
qed


lemma AddChannel_Some_room: "AddChannel S socket a w = Some x \<Longrightarrow> array_ok p a \<Longrightarrow> array_full a \<or> i32_ok (ca_last_id a + 1)"
  using array_full_guard [of p a] by (auto simp: AddChannel_def Let_def split: if_splits bind_splits)

lemma AcceptConnection_Some_room:
  assumes "AcceptConnection S a w = Some x" and "server_env_ok S p" and "array_ok p a"
  shows "fst (Raw_Accept (e_os (se_chan S)) (ca_server_socket a) w) = -1 \<or> array_full a \<or> i32_ok (ca_last_id a + 1)"
  using assms(1) server_env_okD(3) [OF assms(2)] AddChannel_Some_room [OF _ assms(3)]
  by (auto simp: AcceptConnection_def SocketInterface_of_def Let_def split: prod.splits if_splits bind_splits)

section \<open>Stopping\<close>

lemma DelClients_world:
  assumes "hooks_steady S" and "live_clients (w_trace w) = map ch_id chs @ rest"
  shows "live_clients (w_trace (DelClients S chs w)) = rest \<and>
    closed_fds (w_trace (DelClients S chs w)) = closed_fds (w_trace w)"
  using assms(2) DelClient_world [OF assms(1)] by (induction chs arbitrary: w) auto

lemma GepChannel_destroy_world:
  "live_clients (w_trace (GepChannel_destroy E ch w)) = live_clients (w_trace w)"
  "closed_fds (w_trace (GepChannel_destroy E ch w)) =
     closed_fds (w_trace w) @ (if IsOpenSocket ch then [ch_socket ch] else [])"
  by (simp_all add: GepChannel_destroy_def Close_def IsOpenSocket_def os_close_world)

lemma destroy_all_world:
  "live_clients (w_trace (destroy_all E chs w)) = live_clients (w_trace w) \<and>
   closed_fds (w_trace (destroy_all E chs w)) =
     closed_fds (w_trace w) @ map ch_socket (filter IsOpenSocket chs)"
  by (induction chs arbitrary: w) (auto simp: GepChannel_destroy_world)

text \<open>Stopping closes the service socket and every open channel, and every client is told off.\<close>

lemma Array_Stop_result:
  assumes "hooks_steady S" and "clients_known a w"
  shows "\<exists>w'. Array_Stop S a w = (0, a\<lparr>ca_channels := [], ca_server_socket := min (ca_server_socket a) (-1)\<rparr>, w') \<and>
    live_clients (w_trace w') = [] \<and>
    closed_fds (w_trace w') = closed_fds (w_trace w) @
      (if 0 \<le> ca_server_socket a then [ca_server_socket a] else []) @
      map ch_socket (filter IsOpenSocket (ca_channels a))"
proof -
  let ?os = "e_os (se_chan S)"
  let ?w1 = "if 0 \<le> ca_server_socket a then os_close ?os (ca_server_socket a) w else w"
  let ?w2 = "DelClients S (ca_channels a) ?w1"
  let ?w3 = "destroy_all (se_chan S) (ca_channels a) ?w2"
  have live1: "live_clients (w_trace ?w1) = map ch_id (ca_channels a) @ []"
    using assms(2) by (simp add: clients_known_def os_close_world)
  have "Array_Stop S a w = (0, a\<lparr>ca_channels := [], ca_server_socket := min (ca_server_socket a) (-1)\<rparr>, ?w3)"
    by (auto simp: Array_Stop_def Let_def min_def)
  moreover have "live_clients (w_trace ?w3) = []"
    using DelClients_world [OF assms(1) live1] destroy_all_world [of "se_chan S" "ca_channels a" ?w2] by simp
  moreover have "closed_fds (w_trace ?w3) = closed_fds (w_trace w) @
      (if 0 \<le> ca_server_socket a then [ca_server_socket a] else []) @
      map ch_socket (filter IsOpenSocket (ca_channels a))"
    using DelClients_world [OF assms(1) live1] destroy_all_world [of "se_chan S" "ca_channels a" ?w2]
    by (auto simp: os_close_world)
  ultimately show ?thesis by blast
qed

section \<open>Receiving\<close>

lemma array_okD:
  assumes "array_ok p a" and "ch \<in> set (ca_channels a)"
  shows "chan_good p ch" and "chan_idle p ch" and "0 \<le> ch_socket ch" and "ch_socket ch < FD_SETSIZE"
    and "IsOpenSocket ch"
  using assms by (auto simp: array_ok_def chan_good_def chan_idle_def IsOpenSocket_def)

lemma collect_fds_defined:
  assumes "\<forall>ch \<in> set chs. 0 \<le> ch_socket ch \<and> ch_socket ch < FD_SETSIZE" and "mx < FD_SETSIZE"
  shows "\<exists>mx'. collect_fds chs mx fds = Some (mx', fds \<union> ch_socket ` set chs) \<and> mx \<le> mx' \<and> mx' < FD_SETSIZE"
  using assms
proof (induction chs arbitrary: mx fds)
  case (Cons ch chs)
  have "max (ch_socket ch) mx < FD_SETSIZE" using Cons.prems by simp
  then obtain mx' where "collect_fds chs (max (ch_socket ch) mx) (insert (ch_socket ch) fds) =
      Some (mx', insert (ch_socket ch) fds \<union> ch_socket ` set chs)" "max (ch_socket ch) mx \<le> mx'" "mx' < FD_SETSIZE"
    using Cons.IH Cons.prems(1) by (metis list.set_intros(2))
  then show ?case
    using Cons.prems by (simp add: GetSocket_def FD_SET_def)
qed simp

lemma first_ready_find:
  assumes "\<forall>ch \<in> set chs. 0 \<le> ch_socket ch \<and> ch_socket ch < FD_SETSIZE"
  shows "first_ready fds chs = Some (find (\<lambda>ch. ch_socket ch \<in> fds) chs)"
  using assms by (induction chs) (auto simp: GetSocket_def FD_ISSET_def)

lemma update_channel_ids [simp]: "map ch_id (update_channel ch chs) = map ch_id chs"
  by (auto simp: update_channel_def)

lemma filter_id_absent: "cid \<notin> ch_id ` set chs \<Longrightarrow> filter (\<lambda>c. ch_id c \<noteq> cid) chs = chs"
  by (auto simp: filter_id_conv)

lemma erase_filter: "distinct (map ch_id chs) \<Longrightarrow> erase_channel cid chs = filter (\<lambda>c. ch_id c \<noteq> cid) chs"
  by (induction chs) (auto simp: filter_id_absent)

lemma filter_update: "filter (\<lambda>c. ch_id c \<noteq> ch_id ch) (update_channel ch chs) = filter (\<lambda>c. ch_id c \<noteq> ch_id ch) chs"
  by (induction chs) (auto simp: update_channel_def)

lemma array_ok_update:
  assumes "array_ok p a" and "chan_good p ch" and "ch_id ch \<in> ch_id ` set (ca_channels a)"
  shows "array_ok p (a\<lparr>ca_channels := update_channel ch (ca_channels a)\<rparr>)"
proof -
  have "\<forall>c \<in> set (update_channel ch (ca_channels a)). chan_good p c \<and> 0 \<le> ch_id c \<and> ch_id c < ca_last_id a"
    using assms by (auto simp: array_ok_def update_channel_def)
  moreover have "length (update_channel ch (ca_channels a)) = length (ca_channels a)"
    by (simp add: update_channel_def)
  ultimately show ?thesis using assms(1) by (simp add: array_ok_def)
qed

lemma array_ok_filter:
  assumes "array_ok p a"
  shows "array_ok p (a\<lparr>ca_channels := filter P (ca_channels a)\<rparr>)"
  using assms le_trans [OF length_filter_le [of P "ca_channels a"]] by (auto simp: array_ok_def distinct_map_filter)

lemma remove1_ids:
  "distinct (map ch_id chs) \<Longrightarrow> remove1 cid (map ch_id chs) = map ch_id (filter (\<lambda>c. ch_id c \<noteq> cid) chs)"
  by (induction chs) (auto simp: filter_id_absent)

text \<open>
  While a channel that failed is still in the vector, the others are ready and the vector has its
  shape.
\<close>

definition array_shape :: "carray \<Rightarrow> bool" where
  "array_shape a \<longleftrightarrow> distinct (map ch_id (ca_channels a)) \<and>
     (\<forall>ch \<in> set (ca_channels a). chan_ok ch \<and> 0 \<le> ch_socket ch \<and> ch_socket ch < FD_SETSIZE \<and>
        0 \<le> ch_id ch \<and> ch_id ch < ca_last_id a) \<and>
     0 \<le> ca_last_id a \<and> i32_ok (ca_last_id a) \<and>
     length (ca_channels a) \<le> unat (to_u64 (ca_max_channels a)) \<and>
     - 1 \<le> ca_server_socket a \<and> ca_server_socket a < FD_SETSIZE"

definition without :: "int \<Rightarrow> carray \<Rightarrow> carray" where
  "without cid a = a\<lparr>ca_channels := filter (\<lambda>c. ch_id c \<noteq> cid) (ca_channels a)\<rparr>"

definition failing_ok :: "proto \<Rightarrow> channel \<Rightarrow> carray \<Rightarrow> bool" where
  "failing_ok p ch a \<longleftrightarrow> array_shape a \<and> ch \<in> set (ca_channels a) \<and> array_ok p (without (ch_id ch) a)"

lemma without_simps [simp]:
  "ca_channels (without cid a) = filter (\<lambda>c. ch_id c \<noteq> cid) (ca_channels a)"
  "ca_last_id (without cid a) = ca_last_id a" "ca_server_socket (without cid a) = ca_server_socket a"
  "ca_max_channels (without cid a) = ca_max_channels a"
  by (simp_all add: without_def)

lemma array_ok_shape: "array_ok p a \<Longrightarrow> array_shape a"
  by (auto simp: array_ok_def array_shape_def chan_good_def chan_idle_def chan_room_def chan_ok_def)

lemma array_shapeD:
  assumes "array_shape a" and "ch \<in> set (ca_channels a)"
  shows "chan_ok ch" and "0 \<le> ch_socket ch" and "ch_socket ch < FD_SETSIZE" and "IsOpenSocket ch"
  using assms by (auto simp: array_shape_def IsOpenSocket_def)

lemma array_shape_update:
  assumes "array_shape a" and "ch \<in> set (ca_channels a)" and "same_conn ch ch'" and "chan_ok ch'"
  shows "array_shape (a\<lparr>ca_channels := update_channel ch' (ca_channels a)\<rparr>)"
    and "ch' \<in> set (update_channel ch' (ca_channels a))"
proof -
  have "length (update_channel ch' (ca_channels a)) = length (ca_channels a)" by (simp add: update_channel_def)
  moreover have "\<forall>c \<in> set (update_channel ch' (ca_channels a)). chan_ok c \<and> 0 \<le> ch_socket c \<and>
      ch_socket c < FD_SETSIZE \<and> 0 \<le> ch_id c \<and> ch_id c < ca_last_id a"
    using assms by (auto simp: array_shape_def update_channel_def same_conn_def)
  ultimately show "array_shape (a\<lparr>ca_channels := update_channel ch' (ca_channels a)\<rparr>)"
    using assms(1) by (simp add: array_shape_def)
  show "ch' \<in> set (update_channel ch' (ca_channels a))"
    using assms(2,3) by (auto simp: update_channel_def same_conn_def image_iff intro!: bexI [of _ ch])
qed

lemma receive_result:
  assumes "channel_env_ok E p" and "chan_idle p ch"
  shows "\<exists>r ch' w'. RecvData E p ch w = Some (r, ch', w') \<and> same_conn ch ch' \<and> r \<in> {0, -1, -2} \<and>
    (r = 0 \<longrightarrow> chan_idle p ch') \<and> steady w w' \<and> chan_ok ch'"
proof -
  have idle: "chan_room ch" "0 \<le> ch_socket ch" using assms(2) by (simp_all add: chan_idle_def)
  obtain ret bs r ch' w' where "RecvData E p ch w = Some (r, ch', w')" "recv_post E p ch w ret bs r ch' w'"
    using sock.RecvData_post [OF channel_env_okD(2-4) [OF assms(1)] idle] by blast
  then show ?thesis using chan.recv_law [OF assms, of w] by (auto simp: recv_post_def)
qed

text \<open>
  A receive serves the first channel that is ready and changes no other. If it fails, the channel
  stays in the vector to be dropped.
\<close>

lemma Array_receive_result:
  assumes "server_env_ok S p" and "array_ok p a"
  shows "\<exists>failed a' w'. Array_receive S p fds a w = Some (failed, a', w') \<and> steady w w' \<and>
    ca_last_id a' = ca_last_id a \<and> ca_server_socket a' = ca_server_socket a \<and>
    ca_max_channels a' = ca_max_channels a \<and> map ch_id (ca_channels a') = map ch_id (ca_channels a) \<and>
    (case failed of None \<Rightarrow> array_ok p a' | Some ch' \<Rightarrow> failing_ok p ch' a') \<and>
    (case find (\<lambda>ch. ch_socket ch \<in> fds) (ca_channels a) of
       None \<Rightarrow> failed = None \<and> a' = a \<and> w' = w
     | Some ch \<Rightarrow> \<exists>r ch'. RecvData (se_chan S) p ch w = Some (r, ch', w') \<and> same_conn ch ch' \<and>
         ca_channels a' = update_channel ch' (ca_channels a) \<and> failed = (if r = 0 then None else Some ch'))"
proof -
  have fr: "first_ready fds (ca_channels a) = Some (find (\<lambda>ch. ch_socket ch \<in> fds) (ca_channels a))"
    using array_okD [OF assms(2)] by (intro first_ready_find) blast
  show ?thesis
  proof (cases "find (\<lambda>ch. ch_socket ch \<in> fds) (ca_channels a)")
    case None
    then show ?thesis using fr assms(2) by (simp add: Array_receive_def)
  next
    case (Some ch)
    then have ch: "ch \<in> set (ca_channels a)" by (auto simp: find_Some_iff)
    note env = server_env_okD [OF assms(1)]
    obtain r ch' w1 where rd: "RecvData (se_chan S) p ch w = Some (r, ch', w1)"
      and law: "same_conn ch ch'" "r \<in> {0, -1, -2}" "r = 0 \<longrightarrow> chan_idle p ch'" "steady w w1" "chan_ok ch'"
      using receive_result [OF env(1) array_okD(2) [OF assms(2) ch]] by blast
    have idm: "ch_id ch' = ch_id ch" "ch_socket ch' = ch_socket ch" "ch_id ch' \<in> ch_id ` set (ca_channels a)"
      using law(1) ch by (auto simp: same_conn_def)
    let ?a = "a\<lparr>ca_channels := update_channel ch' (ca_channels a)\<rparr>"
    have eq: "Array_receive S p fds a w = Some (if r = 0 then None else Some ch', ?a, w1)"
      using fr Some rd law(2) by (auto simp: Array_receive_def)
    have "if r = 0 then array_ok p ?a else failing_ok p ch' ?a"
    proof (cases "r = 0")
      case True
      then show ?thesis
        using law(3) idm array_okD(4) [OF assms(2) ch] array_ok_update [OF assms(2), of ch']
        by (simp add: chan_good_def)
    next
      case False
      have "without (ch_id ch') ?a = a\<lparr>ca_channels := filter (\<lambda>c. ch_id c \<noteq> ch_id ch') (ca_channels a)\<rparr>"
        by (simp add: without_def filter_update)
      then have "array_ok p (without (ch_id ch') ?a)" using array_ok_filter [OF assms(2)] by simp
      then show ?thesis
        using False array_shape_update [OF array_ok_shape [OF assms(2)] ch law(1,5)] by (simp add: failing_ok_def)
    qed
    then show ?thesis using eq Some rd law(1,4) by auto
  qed
qed

text \<open>Dropping it deletes its client and closes its socket, and the others stay as they are.\<close>

lemma drop_channel_result:
  assumes "hooks_steady S" and "failing_ok p ch a" and "clients_known a w"
    and "w' = GepChannel_destroy (se_chan S) ch (DelClient S (ch_id ch) w)"
  shows "drop_channel S ch a w = (without (ch_id ch) a, w') \<and> clients_known (without (ch_id ch) a) w' \<and>
    closed_fds (w_trace w') = closed_fds (w_trace w) @ [ch_socket ch]"
proof -
  have fo: "array_shape a" "ch \<in> set (ca_channels a)" using assms(2) by (simp_all add: failing_ok_def)
  have dis: "distinct (map ch_id (ca_channels a))" using fo(1) by (simp add: array_shape_def)
  have "erase_channel (ch_id ch) (ca_channels a) = filter (\<lambda>c. ch_id c \<noteq> ch_id ch) (ca_channels a)"
    by (rule erase_filter [OF dis])
  then have "drop_channel S ch a w = (without (ch_id ch) a, w')"
    using fo(2) assms(4) by (simp add: drop_channel_def without_def)
  moreover have "clients_known (without (ch_id ch) a) w'"
    using assms(3,4) DelClient_world [OF assms(1)] remove1_ids [OF dis]
    by (simp add: clients_known_def GepChannel_destroy_world)
  moreover have "closed_fds (w_trace w') = closed_fds (w_trace w) @ [ch_socket ch]"
    using assms(4) DelClient_world [OF assms(1)] array_shapeD(4) [OF fo] by (simp add: GepChannel_destroy_world)
  ultimately show ?thesis by blast
qed

text \<open>
  One receive serves the first channel that is ready. If it fails, its client is deleted,
  its socket closed, and the others stay as they are.
\<close>

lemma Array_RecvData_result:
  assumes "server_env_ok S p" and "array_ok p a" and "clients_known a w"
  shows "\<exists>a' w'. Array_RecvData S p fds a w = Some (a', w') \<and> array_ok p a' \<and> clients_known a' w' \<and>
    ca_last_id a' = ca_last_id a \<and> ca_server_socket a' = ca_server_socket a \<and>
    (case find (\<lambda>ch. ch_socket ch \<in> fds) (ca_channels a) of
       None \<Rightarrow> a' = a \<and> w' = w
     | Some ch \<Rightarrow> \<exists>r ch' w1. RecvData (se_chan S) p ch w = Some (r, ch', w1) \<and>
         (if r = 0 then ca_channels a' = update_channel ch' (ca_channels a) \<and> w' = w1
          else ca_channels a' = filter (\<lambda>c. ch_id c \<noteq> ch_id ch) (ca_channels a) \<and>
            w' = GepChannel_destroy (se_chan S) ch' (DelClient S (ch_id ch) w1) \<and>
            closed_fds (w_trace w') = closed_fds (w_trace w) @ [ch_socket ch]))"
proof -
  obtain failed a1 w1 where rc: "Array_receive S p fds a w = Some (failed, a1, w1)" "steady w w1"
    "ca_last_id a1 = ca_last_id a" "ca_server_socket a1 = ca_server_socket a"
    "map ch_id (ca_channels a1) = map ch_id (ca_channels a)"
    "case failed of None \<Rightarrow> array_ok p a1 | Some ch' \<Rightarrow> failing_ok p ch' a1"
    and fd: "case find (\<lambda>ch. ch_socket ch \<in> fds) (ca_channels a) of
       None \<Rightarrow> failed = None \<and> a1 = a \<and> w1 = w
     | Some ch \<Rightarrow> \<exists>r ch'. RecvData (se_chan S) p ch w = Some (r, ch', w1) \<and> same_conn ch ch' \<and>
         ca_channels a1 = update_channel ch' (ca_channels a) \<and> failed = (if r = 0 then None else Some ch')"
    using Array_receive_result [OF assms(1,2), of fds w] by blast
  have known: "clients_known a1 w1"
    using clients_known_steady [OF assms(3) rc(2)] rc(5) by (simp add: clients_known_def)
  show ?thesis
  proof (cases failed)
    case None
    then show ?thesis using rc fd known by (fastforce simp: Array_RecvData_def split: option.splits if_splits)
  next
    case (Some ch')
    then obtain ch r where ch: "find (\<lambda>ch. ch_socket ch \<in> fds) (ca_channels a) = Some ch"
      "RecvData (se_chan S) p ch w = Some (r, ch', w1)" "same_conn ch ch'" "r \<noteq> 0"
      "ca_channels a1 = update_channel ch' (ca_channels a)"
      using fd by (auto split: option.splits if_splits)
    have fo: "failing_ok p ch' a1" using rc(6) Some by simp
    note dr = drop_channel_result [OF server_env_okD(2) [OF assms(1)] fo known refl]
    have "array_ok p (without (ch_id ch') a1)" using fo by (simp add: failing_ok_def)
    moreover have "filter (\<lambda>c. ch_id c \<noteq> ch_id ch) (ca_channels a1) = filter (\<lambda>c. ch_id c \<noteq> ch_id ch) (ca_channels a)"
      using ch(3) filter_update [of ch'] by (simp add: ch(5) same_conn_def)
    ultimately show ?thesis
      using dr rc Some ch by (simp add: Array_RecvData_def same_conn_def steady_def)
  qed
qed

end
