(* ===== verification/Gep_Service.thy ===== *)
theory Gep_Service
  imports Gep_Prelude
begin

text \<open>
  The contract that the service threads of the client and of the server share: once a thread was
  asked to stop, each of its steps is defined and brings it nearer to its end. Inside the
  contract, a thread that was asked ends within as many steps as its rank.
\<close>

section \<open>Running a thread alone\<close>

fun run_thread :: "('s \<Rightarrow> bool) \<Rightarrow> ('s \<Rightarrow> 's option) \<Rightarrow> nat \<Rightarrow> 's \<Rightarrow> 's option" where
  "run_thread ended step 0 s = Some s"
| "run_thread ended step (Suc n) s =
     (if ended s then Some s
      else (case step s of None \<Rightarrow> None | Some s' \<Rightarrow> run_thread ended step n s'))"

locale service_thread =
  fixes step :: "'s \<Rightarrow> 's option"
    and ended :: "'s \<Rightarrow> bool"
    and asked :: "'s \<Rightarrow> bool"
    and rank :: "'s \<Rightarrow> nat"
  assumes rank_0: "asked s \<Longrightarrow> rank s = 0 \<Longrightarrow> ended s"
    and asked_step: "asked s \<Longrightarrow> \<not> ended s \<Longrightarrow> \<exists>s'. step s = Some s' \<and> asked s' \<and> rank s' < rank s"
begin

lemma finishes:
  assumes "asked s" and "rank s \<le> n"
  shows "\<exists>s'. run_thread ended step n s = Some s' \<and> ended s' \<and> asked s'"
  using assms
proof (induction n arbitrary: s)
  case 0
  then show ?case using rank_0 by simp
next
  case (Suc n)
  show ?case
  proof (cases "ended s")
    case False
    then obtain s' where "step s = Some s'" "asked s'" "rank s' < rank s"
      using asked_step Suc.prems(1) by blast
    then show ?thesis using False Suc.IH [of s'] Suc.prems(2) by simp
  qed (use Suc.prems(1) in simp)
qed

end

section \<open>Invariants of interleavings\<close>

lemma rtranclp_invariant:
  assumes "r\<^sup>*\<^sup>* x y" and "I x" and "\<And>x y. r x y \<Longrightarrow> I x \<Longrightarrow> I y"
  shows "I y"
  using assms by (induction rule: rtranclp_induct) blast+

end
