(* ===== verification/Gep_Server.thy ===== *)
theory Gep_Server
  imports Gep_Array_Ops Gep_Service
begin

text \<open>
  \<open>GepServer\<close> (\<open>include/gep_server.h\<close>, \<open>src/gep_server.cc\<close>): the service thread as a
  program counter with one step function, the calls other threads make, and their
  interleavings as a step relation over the shared state.

  A step of the service thread is the code between two points where another thread can be
  seen: a test of \<open>thread_ctrl_\<close>, the collection of the descriptors with the \<open>select\<close>, the
  receive of the array, which leaves the array's lock free, the dropping of a channel that failed
  when it has taken the lock again, and \<open>AcceptConnection\<close>. Other threads can send in between. The log messages and the thread id are
  left out. A callback that calls \<open>Start\<close> or \<open>Stop\<close> is not modelled.
\<close>

section \<open>State\<close>

datatype server_pc =
    S_None
  | S_Entry
  | S_Test int
  | S_Select int
  | S_Check int "int set"
  | S_Recv int "int set"
  | is_S_Drop: S_Drop int "int set" channel
  | S_Check2 int "int set"
  | S_Accept int "int set"
  | S_Exit

text \<open>\<open>S_None\<close>: no thread to join. \<open>sv_stopping\<close>: some thread waits in \<open>Stop\<close>.\<close>

record server =
  sv_array :: carray
  sv_proto :: proto
  sv_thread_ctrl :: bool
  sv_pc :: server_pc
  sv_stopping :: bool

definition GepServer_new :: "int \<Rightarrow> proto \<Rightarrow> server" where
  "GepServer_new max_channels p =
     \<lparr>sv_array = GepChannelArray_new max_channels, sv_proto = p, sv_thread_ctrl = False,
      sv_pc = S_None, sv_stopping = False\<rparr>"

definition GetNumClients :: "server \<Rightarrow> int" where
  "GetNumClients s = GetVectorSize (sv_array s)"

definition Server_GetPort :: "server \<Rightarrow> int" where
  "Server_GetPort s = pr_port (sv_proto s)"

section \<open>Operations of other threads\<close>

text \<open>Assigning to a \<open>std::thread\<close> that is still joinable terminates the program.\<close>

definition Server_Start ::
  "('w, 'm) server_env \<Rightarrow> server \<Rightarrow> ('w, 'm) world \<Rightarrow> (int \<times> server \<times> ('w, 'm) world) option"
where
  "Server_Start S s w = do {
     (r, p, a, w) \<leftarrow> OpenServerSocket S (sv_proto s) (sv_array s) w;
     let s = s\<lparr>sv_proto := p, sv_array := a\<rparr>;
     if r < 0 then Some (-1, s, w)
     else if sv_pc s \<noteq> S_None then None
     else Some (0, s\<lparr>sv_thread_ctrl := True, sv_pc := S_Entry\<rparr>, w)
   }"

text \<open>
  \<open>Stop\<close> before and after the join. Joining when there is no thread throws; the join
  returns when the thread has finished.
\<close>

definition Server_Stop_request :: "server \<Rightarrow> server option" where
  "Server_Stop_request s =
     (if sv_pc s = S_None then None else Some (s\<lparr>sv_thread_ctrl := False, sv_stopping := True\<rparr>))"

definition Server_Stop_join ::
  "('w, 'm) server_env \<Rightarrow> server \<Rightarrow> ('w, 'm) world \<Rightarrow> server \<times> ('w, 'm) world" where
  "Server_Stop_join S s w =
     (let (a, w) = ClearGepChannelVector S (sv_array s) w
      in (s\<lparr>sv_array := a, sv_pc := S_None, sv_stopping := False\<rparr>, w))"

definition Server_Send ::
  "('w, 'm) server_env \<Rightarrow> 'm \<Rightarrow> server \<Rightarrow> ('w, 'm) world \<Rightarrow> (int \<times> ('w, 'm) world) option" where
  "Server_Send S msg s w = Array_SendMessage S (sv_proto s) msg (sv_array s) w"

definition Server_SendTo ::
  "('w, 'm) server_env \<Rightarrow> 'm \<Rightarrow> int \<Rightarrow> server \<Rightarrow> ('w, 'm) world \<Rightarrow> (int \<times> ('w, 'm) world) option" where
  "Server_SendTo S msg cid s w = Array_SendMessageTo S (sv_proto s) msg cid (sv_array s) w"

section \<open>The service thread\<close>

definition Server_select ::
  "('w, 'm) server_env \<Rightarrow> int \<Rightarrow> server \<Rightarrow> ('w, 'm) world \<Rightarrow> (server_pc \<times> ('w, 'm) world) option"
where
  "Server_select S server_socket s w = do {
     read_fds \<leftarrow> FD_SET server_socket {};
     (max_fds, read_fds) \<leftarrow> GetVectorReadFds (sv_array s) server_socket read_fds;
     let select_timeout = usecs_to_timeval (pr_select_timeout_usec (sv_proto s));
     let (status, read_fds, w) = Raw_Select (e_os (se_chan S)) (max_fds + 1) read_fds {} select_timeout w;
     Some (if status < 0 \<and> w_errno w \<noteq> EINTR then S_Exit else S_Check server_socket read_fds, w)
   }"

definition Server_RunThread ::
  "('w, 'm) server_env \<Rightarrow> server \<Rightarrow> ('w, 'm) world \<Rightarrow> (server \<times> ('w, 'm) world) option"
where
  "Server_RunThread S s w =
     (case sv_pc s of
        S_None \<Rightarrow> None
      | S_Entry \<Rightarrow>
          (let server_socket = GetServerSocket (sv_array s)
           in Some (s\<lparr>sv_pc := (if server_socket < 0 then S_Exit else S_Test server_socket)\<rparr>, w))
      | S_Test fd \<Rightarrow> Some (s\<lparr>sv_pc := (if sv_thread_ctrl s then S_Select fd else S_Exit)\<rparr>, w)
      | S_Select fd \<Rightarrow> do {
          (pc, w) \<leftarrow> Server_select S fd s w;
          Some (s\<lparr>sv_pc := pc\<rparr>, w)
        }
      | S_Check fd fds \<Rightarrow> Some (s\<lparr>sv_pc := (if sv_thread_ctrl s then S_Recv fd fds else S_Exit)\<rparr>, w)
      | S_Recv fd fds \<Rightarrow> do {
          (failed, a, w) \<leftarrow> Array_receive S (sv_proto s) fds (sv_array s) w;
          Some (s\<lparr>sv_array := a,
                  sv_pc := (case failed of None \<Rightarrow> S_Check2 fd fds | Some ch \<Rightarrow> S_Drop fd fds ch)\<rparr>, w)
        }
      | S_Drop fd fds ch \<Rightarrow>
          (let (a, w) = drop_channel S ch (sv_array s) w
           in Some (s\<lparr>sv_array := a, sv_pc := S_Check2 fd fds\<rparr>, w))
      | S_Check2 fd fds \<Rightarrow> Some (s\<lparr>sv_pc := (if sv_thread_ctrl s then S_Accept fd fds else S_Exit)\<rparr>, w)
      | S_Accept fd fds \<Rightarrow> do {
          isset \<leftarrow> FD_ISSET fd fds;
          if isset then do {
            (r, a, w) \<leftarrow> AcceptConnection S (sv_array s) w;
            Some (s\<lparr>sv_array := a, sv_pc := (if r < 0 then S_Exit else S_Test fd)\<rparr>, w)
          } else Some (s\<lparr>sv_pc := S_Test fd\<rparr>, w)
        }
      | S_Exit \<Rightarrow> Some (s, w))"

text \<open>
  The destructor: destroying a thread object that was not joined terminates the program. The
  array's destructor destroys its channels; it does not close the listening socket.
\<close>

definition GepServer_destroy ::
  "('w, 'm) server_env \<Rightarrow> server \<Rightarrow> ('w, 'm) world \<Rightarrow> ('w, 'm) world option" where
  "GepServer_destroy S s w =
     (if sv_pc s \<noteq> S_None then None else Some (destroy_all (se_chan S) (ca_channels (sv_array s)) w))"

text \<open>The thread alone, for so many steps.\<close>

fun Server_run ::
  "('w, 'm) server_env \<Rightarrow> nat \<Rightarrow> server \<Rightarrow> ('w, 'm) world \<Rightarrow> (server \<times> ('w, 'm) world) option"
where
  "Server_run S 0 s w = Some (s, w)"
| "Server_run S (Suc n) s w =
     (if sv_pc s = S_Exit then Some (s, w)
      else (case Server_RunThread S s w of None \<Rightarrow> None | Some (s', w') \<Rightarrow> Server_run S n s' w'))"

section \<open>Interleavings\<close>

inductive server_step ::
  "('w, 'm) server_env \<Rightarrow> server \<times> ('w, 'm) world \<Rightarrow> server \<times> ('w, 'm) world \<Rightarrow> bool"
  for S where
  thread: "sv_pc s \<noteq> S_None \<Longrightarrow> Server_RunThread S s w = Some (s', w') \<Longrightarrow> server_step S (s, w) (s', w')"
| start: "sv_pc s = S_None \<Longrightarrow> Server_Start S s w = Some (r, s', w') \<Longrightarrow> server_step S (s, w) (s', w')"
| stop: "\<not> sv_stopping s \<Longrightarrow> Server_Stop_request s = Some s' \<Longrightarrow> server_step S (s, w) (s', w)"
| join: "sv_stopping s \<Longrightarrow> sv_pc s = S_Exit \<Longrightarrow> Server_Stop_join S s w = (s', w') \<Longrightarrow>
    server_step S (s, w) (s', w')"
| send: "Server_Send S msg s w = Some (r, w') \<Longrightarrow> server_step S (s, w) (s, w')"
| send_to: "Server_SendTo S msg cid s w = Some (r, w') \<Longrightarrow> server_step S (s, w) (s, w')"

inductive_cases server_stepE: "server_step S (s, w) (s', w')"

definition server_reach ::
  "('w, 'm) server_env \<Rightarrow> server \<times> ('w, 'm) world \<Rightarrow> server \<times> ('w, 'm) world \<Rightarrow> bool" where
  "server_reach S = (server_step S)\<^sup>*\<^sup>*"

section \<open>The invariant\<close>

definition pc_ok :: "server \<Rightarrow> bool" where
  "pc_ok s \<longleftrightarrow>
     (case sv_pc s of
        S_None \<Rightarrow> ca_channels (sv_array s) = [] \<and> ca_server_socket (sv_array s) = -1 \<and> \<not> sv_stopping s
      | S_Entry \<Rightarrow> 0 \<le> ca_server_socket (sv_array s)
      | S_Test fd \<Rightarrow> 0 \<le> fd \<and> ca_server_socket (sv_array s) = fd
      | S_Select fd \<Rightarrow> 0 \<le> fd \<and> ca_server_socket (sv_array s) = fd
      | S_Check fd fds \<Rightarrow> 0 \<le> fd \<and> ca_server_socket (sv_array s) = fd
      | S_Recv fd fds \<Rightarrow> 0 \<le> fd \<and> ca_server_socket (sv_array s) = fd
      | S_Drop fd fds ch \<Rightarrow> 0 \<le> fd \<and> ca_server_socket (sv_array s) = fd
      | S_Check2 fd fds \<Rightarrow> 0 \<le> fd \<and> ca_server_socket (sv_array s) = fd
      | S_Accept fd fds \<Rightarrow> 0 \<le> fd \<and> ca_server_socket (sv_array s) = fd
      | S_Exit \<Rightarrow> True)"

text \<open>The array is as it should be, or a channel that failed is still in it.\<close>

definition serving_ok :: "server \<Rightarrow> bool" where
  "serving_ok s \<longleftrightarrow>
     (case sv_pc s of
        S_Drop fd fds ch \<Rightarrow> failing_ok (sv_proto s) ch (sv_array s)
      | _ \<Rightarrow> array_ok (sv_proto s) (sv_array s))"

definition server_inv :: "('w, 'm) server_env \<Rightarrow> server \<times> ('w, 'm) world \<Rightarrow> bool" where
  "server_inv S = (\<lambda>(s, w). server_env_ok S (sv_proto s) \<and> serving_ok s \<and>
     clients_known (sv_array s) w \<and> pc_ok s \<and> (sv_thread_ctrl s \<longleftrightarrow> sv_pc s \<noteq> S_None \<and> \<not> sv_stopping s))"

lemma serving_ok_array: "\<not> is_S_Drop (sv_pc s) \<Longrightarrow> serving_ok s \<longleftrightarrow> array_ok (sv_proto s) (sv_array s)"
  by (cases "sv_pc s") (simp_all add: serving_ok_def)

lemma serving_ok_shape: "serving_ok s \<Longrightarrow> array_shape (sv_array s)"
  by (cases "sv_pc s") (auto simp: serving_ok_def failing_ok_def array_ok_shape)

lemma SetPort_keeps [simp]:
  "server_env_ok S (SetPort n p) = server_env_ok S p" "array_ok (SetPort n p) a = array_ok p a"
proof -
  have u: "Unserialize pb (SetPort n p) = Unserialize pb p" "Serialize pb (SetPort n p) = Serialize pb p" for pb
    by (intro ext; simp add: SetPort_def Unserialize_def Serialize_def)+
  have m: "pr_magic (SetPort n p) = pr_magic p" by (simp add: SetPort_def)
  show "server_env_ok S (SetPort n p) = server_env_ok S p"
    by (simp add: server_env_ok_def channel_env_ok_def ops_ok_def u)
  show "array_ok (SetPort n p) a = array_ok p a"
    by (simp add: array_ok_def chan_good_def chan_idle_def m)
qed

lemma array_ok_socket:
  "array_ok p a \<Longrightarrow> - 1 \<le> fd \<Longrightarrow> fd < FD_SETSIZE \<Longrightarrow> array_ok p (a\<lparr>ca_server_socket := fd\<rparr>)"
  by (simp add: array_ok_def)

lemma server_inv_init:
  assumes "server_env_ok S p" and "live_clients (w_trace w) = []"
  shows "server_inv S (GepServer_new max_channels p, w)"
  using assms by (simp add: server_inv_def serving_ok_def GepServer_new_def GepChannelArray_new_def array_ok_def
      clients_known_def pc_ok_def i32_ok_def FD_SETSIZE_def)

section \<open>Every step keeps the invariant\<close>

lemma Server_Start_inv:
  assumes "server_inv S (s, w)" and "sv_pc s = S_None" and "Server_Start S s w = Some (r, s', w')"
  shows "server_inv S (s', w')"
proof -
  have env: "server_env_ok S (sv_proto s)" and aok: "array_ok (sv_proto s) (sv_array s)"
    and kn: "clients_known (sv_array s) w"
    using assms(1,2) by (auto simp: server_inv_def serving_ok_array)
  obtain q p' a' w1 where o: "OpenServerSocket S (sv_proto s) (sv_array s) w = Some (q, p', a', w1)"
    "live_clients (w_trace w1) = live_clients (w_trace w)"
    and d: "q = -1 \<and> p' = sv_proto s \<and> a' = sv_array s \<or>
     (\<exists>fd. q = 0 \<and> 0 \<le> fd \<and> fd < FD_SETSIZE \<and> a' = (sv_array s)\<lparr>ca_server_socket := fd\<rparr> \<and>
        p' = SetPort (pr_port p') (sv_proto s) \<and> (pr_port (sv_proto s) \<noteq> 0 \<longrightarrow> p' = sv_proto s))"
    using OpenServerSocket_result [OF env] by blast
  from d show ?thesis
  proof (elim disjE exE conjE)
    assume "q = -1" "p' = sv_proto s" "a' = sv_array s"
    then show ?thesis
      using assms o(1,2) by (simp add: Server_Start_def server_inv_def serving_ok_def clients_known_def pc_ok_def)
  next
    fix fd assume fd: "q = 0" "0 \<le> fd" "fd < FD_SETSIZE" "a' = (sv_array s)\<lparr>ca_server_socket := fd\<rparr>"
      "p' = SetPort (pr_port p') (sv_proto s)"
    then have "server_env_ok S p'" "array_ok p' (sv_array s)"
      using env aok SetPort_keeps by metis+
    then show ?thesis
      using assms fd(1-4) o(1,2) kn array_ok_socket [of p' "sv_array s" fd]
      by (auto simp: Server_Start_def server_inv_def serving_ok_def clients_known_def pc_ok_def)
  qed
qed

lemma Server_select_result:
  assumes "array_ok (sv_proto s) (sv_array s)" and "0 \<le> fd" and "ca_server_socket (sv_array s) = fd"
  shows "\<exists>pc w'. Server_select S fd s w = Some (pc, w') \<and> steady w w' \<and> (pc = S_Exit \<or> (\<exists>fds. pc = S_Check fd fds))"
proof -
  have fd: "fd < FD_SETSIZE" using assms by (simp add: array_ok_def)
  then obtain mx fds where g: "GetVectorReadFds (sv_array s) fd {fd} = Some (mx, fds)"
    using collect_fds_defined [of "ca_channels (sv_array s)" fd "{fd}"] array_okD [OF assms(1)]
    unfolding GetVectorReadFds_def by blast
  obtain r rd w1 where sel: "Raw_Select (e_os (se_chan S)) (mx + 1) fds {}
      (usecs_to_timeval (pr_select_timeout_usec (sv_proto s))) w = (r, rd, w1)"
    by (metis surj_pair)
  show ?thesis
    using g sel fd assms(2) Raw_Select_steady [OF sel] by (simp add: Server_select_def FD_SET_def Let_def)
qed

lemma server_invD:
  assumes "server_inv S (s, w)"
  shows "server_env_ok S (sv_proto s)" and "\<not> is_S_Drop (sv_pc s) \<Longrightarrow> array_ok (sv_proto s) (sv_array s)"
    and "clients_known (sv_array s) w" and "pc_ok s"
    and "sv_thread_ctrl s \<longleftrightarrow> sv_pc s \<noteq> S_None \<and> \<not> sv_stopping s" and "array_shape (sv_array s)"
  using assms by (auto simp: server_inv_def serving_ok_array serving_ok_shape)

lemma server_inv_step:
  assumes "server_inv S (s, w)" and "sv_pc s \<noteq> S_None" and "pc \<noteq> S_None"
    and "serving_ok (s\<lparr>sv_array := a, sv_pc := pc\<rparr>)" and "clients_known a w'"
    and "pc_ok (s\<lparr>sv_array := a, sv_pc := pc\<rparr>)"
  shows "server_inv S (s\<lparr>sv_array := a, sv_pc := pc\<rparr>, w')"
  using assms by (simp add: server_inv_def)

lemma thread_step_inv:
  assumes "server_inv S (s, w)" and "sv_pc s \<noteq> S_None" and "Server_RunThread S s w = Some (s', w')"
  shows "server_inv S (s', w')"
proof -
  note inv = server_invD [OF assms(1)]
  have same: "s\<lparr>sv_pc := pc\<rparr> = s\<lparr>sv_array := sv_array s, sv_pc := pc\<rparr>" for pc by simp
  have local: "server_inv S (s\<lparr>sv_pc := pc\<rparr>, w1)"
    if "pc \<noteq> S_None" "\<not> is_S_Drop (sv_pc s)" "\<not> is_S_Drop pc" "pc_ok (s\<lparr>sv_pc := pc\<rparr>)" "steady w w1" for pc w1
    unfolding same using that inv(2)
    by (intro server_inv_step [OF assms(1,2) that(1) _ clients_known_steady [OF inv(3) that(5)]])
      (simp_all add: serving_ok_array)
  show ?thesis
  proof (cases "sv_pc s")
    case S_None
    then show ?thesis using assms(2) by simp
  next
    case S_Entry
    then show ?thesis
      using assms(3) inv(4) local [of "S_Test (ca_server_socket (sv_array s))" w]
      by (auto simp: Server_RunThread_def GetServerSocket_def pc_ok_def)
  next
    case (S_Test fd)
    then show ?thesis
      using assms(3) inv(4) local [of "if sv_thread_ctrl s then S_Select fd else S_Exit" w]
      by (auto simp: Server_RunThread_def pc_ok_def split: if_splits)
  next
    case (S_Select fd)
    then have fd: "0 \<le> fd" "ca_server_socket (sv_array s) = fd" and aok: "array_ok (sv_proto s) (sv_array s)"
      using inv(2,4) by (auto simp: pc_ok_def)
    then show ?thesis
      using assms(3) S_Select Server_select_result [OF aok fd, of S w] local
      by (fastforce simp: Server_RunThread_def pc_ok_def)
  next
    case (S_Check fd fds)
    then show ?thesis
      using assms(3) inv(4) local [of "if sv_thread_ctrl s then S_Recv fd fds else S_Exit" w]
      by (auto simp: Server_RunThread_def pc_ok_def split: if_splits)
  next
    case (S_Recv fd fds)
    then have aok: "array_ok (sv_proto s) (sv_array s)" using inv(2) by simp
    obtain failed a w1 where r: "Array_receive S (sv_proto s) fds (sv_array s) w = Some (failed, a, w1)" "steady w w1"
      "ca_server_socket a = ca_server_socket (sv_array s)" "map ch_id (ca_channels a) = map ch_id (ca_channels (sv_array s))"
      "case failed of None \<Rightarrow> array_ok (sv_proto s) a | Some ch' \<Rightarrow> failing_ok (sv_proto s) ch' a"
      using Array_receive_result [OF inv(1) aok, of fds w] by blast
    have known: "clients_known a w1"
      using clients_known_steady [OF inv(3) r(2)] r(4) by (simp add: clients_known_def)
    let ?pc = "case failed of None \<Rightarrow> S_Check2 fd fds | Some ch \<Rightarrow> S_Drop fd fds ch"
    have "server_inv S (s\<lparr>sv_array := a, sv_pc := ?pc\<rparr>, w1)"
      by (rule server_inv_step [OF assms(1,2) _ _ known])
        (use inv(4) S_Recv r(3,5) in \<open>auto simp: pc_ok_def serving_ok_def split: option.splits\<close>)
    then show ?thesis using assms(3) S_Recv r(1) by (simp add: Server_RunThread_def)
  next
    case (S_Drop fd fds ch)
    then have fo: "failing_ok (sv_proto s) ch (sv_array s)"
      using assms(1) by (simp add: server_inv_def serving_ok_def)
    let ?w1 = "GepChannel_destroy (se_chan S) ch (DelClient S (ch_id ch) w)"
    note dr = drop_channel_result [OF server_env_okD(2) [OF inv(1)] fo inv(3) refl]
    have "server_inv S (s\<lparr>sv_array := without (ch_id ch) (sv_array s), sv_pc := S_Check2 fd fds\<rparr>, ?w1)"
      by (rule server_inv_step [OF assms(1,2)])
        (use inv(4) S_Drop fo dr in \<open>simp_all add: pc_ok_def serving_ok_def failing_ok_def\<close>)
    then show ?thesis using assms(3) S_Drop dr by (simp add: Server_RunThread_def)
  next
    case (S_Check2 fd fds)
    then show ?thesis
      using assms(3) inv(4) local [of "if sv_thread_ctrl s then S_Accept fd fds else S_Exit" w]
      by (auto simp: Server_RunThread_def pc_ok_def split: if_splits)
  next
    case (S_Accept fd fds)
    then have fd: "0 \<le> fd" "ca_server_socket (sv_array s) = fd" and aok: "array_ok (sv_proto s) (sv_array s)"
      using inv(2,4) by (auto simp: pc_ok_def)
    then obtain isset where i: "FD_ISSET fd fds = Some isset"
      by (auto simp: FD_ISSET_def array_ok_def)
    show ?thesis
    proof (cases isset)
      case False
      then show ?thesis
        using assms(3) S_Accept i fd local [of "S_Test fd" w] by (auto simp: Server_RunThread_def pc_ok_def)
    next
      case True
      obtain r a w1 where ac: "AcceptConnection S (sv_array s) w = Some (r, a, w1)"
        using assms(3) S_Accept i True by (auto simp: Server_RunThread_def split: bind_splits)
      then have "array_ok (sv_proto s) a \<and> clients_known a w1 \<and> ca_server_socket a = ca_server_socket (sv_array s)"
        using AcceptConnection_result [OF inv(1) aok inv(3) AcceptConnection_Some_room [OF ac inv(1) aok]] by auto
      then show ?thesis
        using assms S_Accept i True ac fd server_inv_step [OF assms(1,2), of "if r < 0 then S_Exit else S_Test fd" a w1]
        by (auto simp: Server_RunThread_def pc_ok_def serving_ok_def split: if_splits)
    qed
  next
    case S_Exit
    then show ?thesis using assms by (simp add: Server_RunThread_def)
  qed
qed

lemma Server_Stop_join_result:
  assumes "server_inv S (s, w)" and "\<not> is_S_Drop (sv_pc s)"
  shows "\<exists>s' w'. Server_Stop_join S s w = (s', w') \<and> sv_pc s' = S_None \<and> \<not> sv_stopping s' \<and>
    sv_thread_ctrl s' = sv_thread_ctrl s \<and> sv_proto s' = sv_proto s \<and>
    sv_array s' = (sv_array s)\<lparr>ca_channels := [], ca_server_socket := -1\<rparr> \<and>
    live_clients (w_trace w') = [] \<and>
    closed_fds (w_trace w') = closed_fds (w_trace w) @
      (if 0 \<le> ca_server_socket (sv_array s) then [ca_server_socket (sv_array s)] else []) @
      map ch_socket (ca_channels (sv_array s)) \<and>
    array_ok (sv_proto s') (sv_array s')"
proof -
  note inv = server_invD [OF assms(1)] and aok = server_invD(2) [OF assms]
  have op: "filter IsOpenSocket (ca_channels (sv_array s)) = ca_channels (sv_array s)"
    using array_okD(5) [OF aok] by (simp add: filter_id_conv)
  have ss: "min (ca_server_socket (sv_array s)) (-1) = -1" using aok by (simp add: array_ok_def)
  obtain w' where "Array_Stop S (sv_array s) w =
      (0, (sv_array s)\<lparr>ca_channels := [], ca_server_socket := -1\<rparr>, w')" "live_clients (w_trace w') = []"
    "closed_fds (w_trace w') = closed_fds (w_trace w) @
      (if 0 \<le> ca_server_socket (sv_array s) then [ca_server_socket (sv_array s)] else []) @
      map ch_socket (ca_channels (sv_array s))"
    using Array_Stop_result [OF server_env_okD(2) [OF inv(1)] inv(3)] unfolding op ss by blast
  moreover have "array_ok (sv_proto s) ((sv_array s)\<lparr>ca_channels := [], ca_server_socket := -1\<rparr>)"
    using aok by (simp add: array_ok_def FD_SETSIZE_def)
  ultimately show ?thesis
    by (simp add: Server_Stop_join_def ClearGepChannelVector_def)
qed

lemma Server_Send_steady:
  assumes "server_inv S (s, w)"
  shows "Server_Send S msg s w = Some (r, w') \<Longrightarrow> steady w w'"
    and "Server_SendTo S msg cid s w = Some (r, w') \<Longrightarrow> steady w w'"
proof -
  note env = server_env_okD(1) [OF server_invD(1) [OF assms]]
  show "steady w w'" if "Server_Send S msg s w = Some (r, w')"
  proof -
    have "\<exists>ks. broadcast_post (message_wire (se_chan S) (sv_proto s) msg) (ca_channels (sv_array s)) ks w w'"
      using chan.send_each_law [OF refl env, of msg _ 0 w r w'] that
      by (auto simp: Server_Send_def Array_SendMessage_def)
    then show ?thesis by (auto simp: broadcast_post_def)
  qed
  show "steady w w'" if "Server_SendTo S msg cid s w = Some (r, w')"
    using chan.send_one_law [OF refl env, of msg cid "ca_channels (sv_array s)" w r w'] that
    by (auto simp: Server_SendTo_def Array_SendMessageTo_def send_post_def split: option.splits dest: sends_steady)
qed

lemma server_inv_world: "server_inv S (s, w) \<Longrightarrow> steady w w' \<Longrightarrow> server_inv S (s, w')"
  by (auto simp: server_inv_def intro: clients_known_steady)

lemma Server_Stop_request_inv:
  assumes "server_inv S (s, w)" and "Server_Stop_request s = Some s'"
  shows "server_inv S (s', w)"
proof -
  have pc: "sv_pc s \<noteq> S_None" "s' = s\<lparr>sv_thread_ctrl := False, sv_stopping := True\<rparr>"
    using assms(2) by (auto simp: Server_Stop_request_def split: if_splits)
  then have "pc_ok s'" using server_invD(4) [OF assms(1)] by (cases "sv_pc s") (simp_all add: pc_ok_def)
  moreover have "serving_ok s' = serving_ok s" using pc(2) by (cases "sv_pc s") (simp_all add: serving_ok_def)
  ultimately show ?thesis using assms(1) pc by (simp add: server_inv_def)
qed

lemma server_step_inv:
  assumes "server_inv S (s, w)" and "server_step S (s, w) (s', w')"
  shows "server_inv S (s', w')"
  using assms(2)
proof cases
  case thread
  then show ?thesis using thread_step_inv [OF assms(1)] by blast
next
  case (start r)
  then show ?thesis using Server_Start_inv [OF assms(1)] by blast
next
  case stop
  then show ?thesis using Server_Stop_request_inv [OF assms(1)] by blast
next
  case join
  then have "\<not> sv_thread_ctrl s" "\<not> is_S_Drop (sv_pc s)" using server_invD(5) [OF assms(1)] by simp_all
  then show ?thesis
    using Server_Stop_join_result [OF assms(1)] join(3) server_invD(1) [OF assms(1)]
    by (auto simp: server_inv_def serving_ok_def clients_known_def pc_ok_def)
next
  case (send msg r)
  then show ?thesis
    using server_inv_world [OF assms(1) Server_Send_steady(1) [OF assms(1) send(2)]] by simp
next
  case (send_to msg cid r)
  then show ?thesis
    using server_inv_world [OF assms(1) Server_Send_steady(2) [OF assms(1) send_to(2)]] by simp
qed

lemma server_reach_inv:
  assumes "server_reach S x y" and "server_inv S x"
  shows "server_inv S y"
  using assms unfolding server_reach_def
  by (rule rtranclp_invariant) (metis server_step_inv surj_pair)

section \<open>The service thread never runs into undefined behaviour, and it stops\<close>

lemma thread_step_defined:
  assumes "server_inv S (s, w)" and "sv_pc s \<noteq> S_None"
    and "\<And>fd fds. sv_pc s = S_Accept fd fds \<Longrightarrow> i32_ok (ca_last_id (sv_array s) + 1)"
  shows "\<exists>s' w'. Server_RunThread S s w = Some (s', w')"
proof -
  note inv = server_invD [OF assms(1)]
  have fd: "ca_server_socket (sv_array s) < FD_SETSIZE" using inv(6) by (simp add: array_shape_def)
  show ?thesis
  proof (cases "sv_pc s")
    case (S_Select fd)
    then have "array_ok (sv_proto s) (sv_array s)" using inv(2) by simp
    then show ?thesis
      using S_Select Server_select_result [of s fd S w] inv(4) by (auto simp: Server_RunThread_def pc_ok_def)
  next
    case (S_Recv fd fds)
    then have "array_ok (sv_proto s) (sv_array s)" using inv(2) by simp
    then show ?thesis
      using S_Recv Array_receive_result [OF inv(1), of "sv_array s" fds w] by (auto simp: Server_RunThread_def)
  next
    case (S_Accept fd fds)
    then have aok: "array_ok (sv_proto s) (sv_array s)" using inv(2) by simp
    have "FD_ISSET fd fds = Some (fd \<in> fds)" using S_Accept fd inv(4) by (simp add: FD_ISSET_def pc_ok_def)
    moreover obtain r a w' where "AcceptConnection S (sv_array s) w = Some (r, a, w')"
      using AcceptConnection_result [OF inv(1) aok inv(3)] assms(3) [OF S_Accept] by blast
    ultimately show ?thesis using S_Accept by (simp add: Server_RunThread_def)
  qed (use assms(2) in \<open>auto simp: Server_RunThread_def Let_def split: prod.split\<close>)
qed

primrec pc_rank :: "server_pc \<Rightarrow> nat" where
  "pc_rank S_None = 0"
| "pc_rank S_Entry = 2"
| "pc_rank (S_Test fd) = 1"
| "pc_rank (S_Select fd) = 2"
| "pc_rank (S_Check fd fds) = 1"
| "pc_rank (S_Recv fd fds) = 3"
| "pc_rank (S_Drop fd fds ch) = 2"
| "pc_rank (S_Check2 fd fds) = 1"
| "pc_rank (S_Accept fd fds) = 2"
| "pc_rank S_Exit = 0"

lemma thread_step_rank:
  assumes "Server_RunThread S s w = Some (s', w')" and "\<not> sv_thread_ctrl s" and "0 < pc_rank (sv_pc s)"
    and "server_inv S (s, w)"
  shows "pc_rank (sv_pc s') < pc_rank (sv_pc s) \<and> \<not> sv_thread_ctrl s' \<and> sv_pc s' \<noteq> S_None \<and>
    (\<forall>fd fds. sv_pc s' \<noteq> S_Accept fd fds)"
proof (cases "sv_pc s")
  case (S_Select fd)
  then obtain pc w1 where "Server_select S fd s w = Some (pc, w1)" "pc = S_Exit \<or> (\<exists>fds. pc = S_Check fd fds)"
    using Server_select_result [of s fd S w] server_invD [OF assms(4)] by (auto simp: pc_ok_def)
  then show ?thesis using assms(1-3) S_Select by (auto simp: Server_RunThread_def)
qed (use assms(1-3) in \<open>auto simp: Server_RunThread_def Let_def split: bind_splits if_splits option.splits prod.splits\<close>)

text \<open>
  Once \<open>thread_ctrl_\<close> is false, the thread ends: the contract of a service thread, with the
  condition that a thread about to accept a client has an id left for it.
\<close>

definition server_asked :: "('w, 'm) server_env \<Rightarrow> server \<times> ('w, 'm) world \<Rightarrow> bool" where
  "server_asked S = (\<lambda>(s, w). server_inv S (s, w) \<and> sv_pc s \<noteq> S_None \<and> \<not> sv_thread_ctrl s \<and>
     (\<forall>fd fds. sv_pc s = S_Accept fd fds \<longrightarrow> i32_ok (ca_last_id (sv_array s) + 1)))"

interpretation sv_thread: service_thread
  "\<lambda>(s, w). Server_RunThread S s w" "\<lambda>(s, w). sv_pc s = S_Exit" "server_asked S" "\<lambda>(s, w). pc_rank (sv_pc s)"
  for S :: "('w, 'm) server_env"
proof
  fix x :: "server \<times> ('w, 'm) world"
  obtain s w where x: "x = (s, w)" by fastforce
  show "case x of (s, w) \<Rightarrow> sv_pc s = S_Exit" if "server_asked S x" "(case x of (s, w) \<Rightarrow> pc_rank (sv_pc s)) = 0"
    using that x by (cases "sv_pc s") (auto simp: server_asked_def)
  show "\<exists>y. (case x of (s, w) \<Rightarrow> Server_RunThread S s w) = Some y \<and> server_asked S y \<and>
      (case y of (s, w) \<Rightarrow> pc_rank (sv_pc s)) < (case x of (s, w) \<Rightarrow> pc_rank (sv_pc s))"
    if "server_asked S x" "\<not> (case x of (s, w) \<Rightarrow> sv_pc s = S_Exit)"
  proof -
    have a: "server_inv S (s, w)" "sv_pc s \<noteq> S_None" "\<not> sv_thread_ctrl s" "sv_pc s \<noteq> S_Exit"
      "\<And>fd fds. sv_pc s = S_Accept fd fds \<Longrightarrow> i32_ok (ca_last_id (sv_array s) + 1)"
      using that x by (auto simp: server_asked_def)
    then have pos: "0 < pc_rank (sv_pc s)" by (cases "sv_pc s"; simp)
    obtain s1 w1 where t: "Server_RunThread S s w = Some (s1, w1)" using thread_step_defined [OF a(1,2)] a(5) by blast
    note rank = thread_step_rank [OF t a(3) pos a(1)]
    then show ?thesis using t thread_step_inv [OF a(1,2) t] x by (simp add: server_asked_def)
  qed
qed

lemma Server_run_thread: "Server_run S n s w = run_thread (\<lambda>(s, w). sv_pc s = S_Exit) (\<lambda>(s, w). Server_RunThread S s w) n (s, w)"
  by (induction n arbitrary: s w) (auto split: option.split)

lemma thread_finishes:
  assumes "server_inv S (s, w)" and "sv_pc s \<noteq> S_None" and "\<not> sv_thread_ctrl s" and "pc_rank (sv_pc s) \<le> n"
    and "\<And>fd fds. sv_pc s = S_Accept fd fds \<Longrightarrow> i32_ok (ca_last_id (sv_array s) + 1)"
  shows "\<exists>s' w'. Server_run S n s w = Some (s', w') \<and> sv_pc s' = S_Exit \<and> server_inv S (s', w') \<and>
    \<not> sv_thread_ctrl s'"
  using sv_thread.finishes [of S "(s, w)" n] assms by (auto simp: server_asked_def Server_run_thread)

end
