(* ===== verification/Gep_Client.thy ===== *)
theory Gep_Client
  imports Gep_Array_Ops Gep_Service "HOL-Library.Multiset"
begin

text \<open>
  \<open>GepClient\<close> (\<open>include/gep_client.h\<close>, \<open>src/gep_client.cc\<close>): one channel, a service
  thread that reconnects it when the connection fails, and the calls of other threads, with
  their interleavings as a step relation.

  As for the server, a step of the thread is the code between two points where another
  thread can be seen: between a receive that failed and the \<open>Close\<close> after it another thread can
  still send. The thread keeps the channel's socket in a local variable, which is part of the
  program counter.
\<close>

section \<open>State\<close>

datatype client_pc =
    C_None
  | C_Entry
  | C_Test int
  | C_Body int
  | C_Check int "int set"
  | C_Recv int "int set"
  | C_Close
  | C_Exit

record client =
  cl_channel :: channel
  cl_proto :: proto
  cl_thread_ctrl :: bool
  cl_reconnect_count :: int
  cl_pc :: client_pc
  cl_stopping :: bool

definition kReconnectRetryDelaySecs :: int where
  "kReconnectRetryDelaySecs = 5"

definition GepClient_new :: "('w, 'm) gep_env \<Rightarrow> proto \<Rightarrow> client" where
  "GepClient_new E p =
     \<lparr>cl_channel = GepChannel_new E 0 (-1), cl_proto = p, cl_thread_ctrl = False,
      cl_reconnect_count = 0, cl_pc = C_None, cl_stopping = False\<rparr>"

definition GetReconnectCount :: "client \<Rightarrow> int" where
  "GetReconnectCount c = cl_reconnect_count c"

section \<open>Operations of other threads\<close>

definition Client_Start ::
  "('w, 'm) gep_env \<Rightarrow> client \<Rightarrow> ('w, 'm) world \<Rightarrow> (int \<times> client \<times> ('w, 'm) world) option" where
  "Client_Start E c w =
     (let (r, ch, w) = OpenClientSocket E (cl_proto c) (cl_channel c) w;
          c = c\<lparr>cl_channel := ch\<rparr> in
      if r < 0 then Some (-1, c, w)
      else if cl_pc c \<noteq> C_None then None
      else Some (0, c\<lparr>cl_thread_ctrl := True, cl_pc := C_Entry\<rparr>, w))"

definition Client_Stop_request :: "client \<Rightarrow> client option" where
  "Client_Stop_request c =
     (if cl_pc c = C_None then None else Some (c\<lparr>cl_thread_ctrl := False, cl_stopping := True\<rparr>))"

definition Client_Stop_join ::
  "('w, 'm) gep_env \<Rightarrow> client \<Rightarrow> ('w, 'm) world \<Rightarrow> client \<times> ('w, 'm) world" where
  "Client_Stop_join E c w =
     (let (_, ch, w) = Close E (cl_channel c) w
      in (c\<lparr>cl_channel := ch, cl_reconnect_count := 0, cl_pc := C_None, cl_stopping := False\<rparr>, w))"

definition Client_Send ::
  "('w, 'm) gep_env \<Rightarrow> 'm \<Rightarrow> client \<Rightarrow> ('w, 'm) world \<Rightarrow> (int \<times> ('w, 'm) world) option" where
  "Client_Send E msg c w = SendMessage E (cl_proto c) (cl_channel c) msg w"

definition GepClient_destroy :: "('w, 'm) gep_env \<Rightarrow> client \<Rightarrow> ('w, 'm) world \<Rightarrow> ('w, 'm) world option" where
  "GepClient_destroy E c w =
     (if cl_pc c \<noteq> C_None then None else Some (GepChannel_destroy E (cl_channel c) w))"

section \<open>The service thread\<close>

text \<open>\<open>sleep\<close> suspends the thread; the atomic counter wraps.\<close>

definition Reconnect :: "('w, 'm) gep_env \<Rightarrow> client \<Rightarrow> ('w, 'm) world \<Rightarrow> client \<times> ('w, 'm) world" where
  "Reconnect E c w =
     (let (r, ch, w) = OpenClientSocket E (cl_proto c) (cl_channel c) w;
          c = c\<lparr>cl_channel := ch\<rparr> in
      if r < 0
      then (c, snd (syscall (sys_nanosleep (e_os E) kReconnectRetryDelaySecs 0)
                      (\<lambda>_. Ev_sleep kReconnectRetryDelaySecs 0) w))
      else (c\<lparr>cl_reconnect_count := narrow32 (cl_reconnect_count c + 1)\<rparr>, w))"

definition Client_select ::
  "('w, 'm) gep_env \<Rightarrow> int \<Rightarrow> client \<Rightarrow> ('w, 'm) world \<Rightarrow> (client_pc \<times> ('w, 'm) world) option"
where
  "Client_select E socket c w = do {
     read_fds \<leftarrow> FD_SET socket {};
     let select_timeout = usecs_to_timeval (pr_select_timeout_usec (cl_proto c));
     let (status, read_fds, w) = Raw_Select (e_os E) (socket + 1) read_fds {} select_timeout w;
     Some (if status < 0 \<and> w_errno w \<noteq> EINTR then C_Exit else C_Check socket read_fds, w)
   }"

definition Client_RunThread ::
  "('w, 'm) gep_env \<Rightarrow> client \<Rightarrow> ('w, 'm) world \<Rightarrow> (client \<times> ('w, 'm) world) option"
where
  "Client_RunThread E c w =
     (case cl_pc c of
        C_None \<Rightarrow> None
      | C_Entry \<Rightarrow> Some (c\<lparr>cl_pc := C_Test (GetSocket (cl_channel c))\<rparr>, w)
      | C_Test socket \<Rightarrow> Some (c\<lparr>cl_pc := (if cl_thread_ctrl c then C_Body socket else C_Exit)\<rparr>, w)
      | C_Body socket \<Rightarrow>
          if socket = -1 then
            (let (c, w) = Reconnect E c w
             in Some (c\<lparr>cl_pc := C_Test (GetSocket (cl_channel c))\<rparr>, w))
          else do {
            (pc, w) \<leftarrow> Client_select E socket c w;
            Some (c\<lparr>cl_pc := pc\<rparr>, w)
          }
      | C_Check socket fds \<Rightarrow> Some (c\<lparr>cl_pc := (if cl_thread_ctrl c then C_Recv socket fds else C_Exit)\<rparr>, w)
      | C_Recv socket fds \<Rightarrow> do {
          isset \<leftarrow> FD_ISSET socket fds;
          if isset then do {
            (res, ch, w) \<leftarrow> RecvData E (cl_proto c) (cl_channel c) w;
            Some (c\<lparr>cl_channel := ch, cl_pc := (if res < 0 then C_Close else C_Test socket)\<rparr>, w)
          } else Some (c\<lparr>cl_pc := C_Test socket\<rparr>, w)
        }
      | C_Close \<Rightarrow>
          (let (_, ch, w) = Close E (cl_channel c) w
           in Some (c\<lparr>cl_channel := ch, cl_pc := C_Test (-1)\<rparr>, w))
      | C_Exit \<Rightarrow> Some (c, w))"

fun Client_run ::
  "('w, 'm) gep_env \<Rightarrow> nat \<Rightarrow> client \<Rightarrow> ('w, 'm) world \<Rightarrow> (client \<times> ('w, 'm) world) option"
where
  "Client_run E 0 c w = Some (c, w)"
| "Client_run E (Suc n) c w =
     (if cl_pc c = C_Exit then Some (c, w)
      else (case Client_RunThread E c w of None \<Rightarrow> None | Some (c', w') \<Rightarrow> Client_run E n c' w'))"

section \<open>Interleavings\<close>

inductive client_step ::
  "('w, 'm) gep_env \<Rightarrow> client \<times> ('w, 'm) world \<Rightarrow> client \<times> ('w, 'm) world \<Rightarrow> bool"
  for E where
  thread: "cl_pc c \<noteq> C_None \<Longrightarrow> Client_RunThread E c w = Some (c', w') \<Longrightarrow> client_step E (c, w) (c', w')"
| start: "cl_pc c = C_None \<Longrightarrow> Client_Start E c w = Some (r, c', w') \<Longrightarrow> client_step E (c, w) (c', w')"
| stop: "\<not> cl_stopping c \<Longrightarrow> Client_Stop_request c = Some c' \<Longrightarrow> client_step E (c, w) (c', w)"
| join: "cl_stopping c \<Longrightarrow> cl_pc c = C_Exit \<Longrightarrow> Client_Stop_join E c w = (c', w') \<Longrightarrow>
    client_step E (c, w) (c', w')"
| send: "Client_Send E msg c w = Some (r, w') \<Longrightarrow> client_step E (c, w) (c, w')"

inductive_simps client_step_iff: "client_step E (c, w) (c', w')"

definition client_reach ::
  "('w, 'm) gep_env \<Rightarrow> client \<times> ('w, 'm) world \<Rightarrow> client \<times> ('w, 'm) world \<Rightarrow> bool" where
  "client_reach E = (client_step E)\<^sup>*\<^sup>*"

section \<open>The invariant\<close>

definition client_env_ok :: "('w, 'm) gep_env \<Rightarrow> proto \<Rightarrow> bool" where
  "client_env_ok E p \<longleftrightarrow> channel_env_ok E p \<and> os_fds_ok (e_os E)"

text \<open>A closed channel has an empty buffer; an open one is ready to receive.\<close>

definition client_chan_ok :: "proto \<Rightarrow> channel \<Rightarrow> bool" where
  "client_chan_ok p ch \<longleftrightarrow> (if ch_socket ch = -1 then ch_len ch = 0 else chan_good p ch)"

text \<open>The descriptors the client has open: the channel's, if any, and no other.\<close>

definition fds_accounted :: "channel \<Rightarrow> ('w, 'm) world \<Rightarrow> bool" where
  "fds_accounted ch w \<longleftrightarrow>
     mset (opened_fds (w_trace w)) =
       mset (closed_fds (w_trace w)) + (if ch_socket ch = -1 then {#} else {#ch_socket ch#})"

definition client_pc_ok :: "client \<Rightarrow> bool" where
  "client_pc_ok c \<longleftrightarrow>
     (case cl_pc c of
        C_None \<Rightarrow> ch_socket (cl_channel c) = -1 \<and> \<not> cl_stopping c
      | C_Entry \<Rightarrow> True
      | C_Test socket \<Rightarrow> ch_socket (cl_channel c) = socket
      | C_Body socket \<Rightarrow> ch_socket (cl_channel c) = socket
      | C_Check socket fds \<Rightarrow> ch_socket (cl_channel c) = socket \<and> socket \<noteq> -1
      | C_Recv socket fds \<Rightarrow> ch_socket (cl_channel c) = socket \<and> socket \<noteq> -1
      | C_Close \<Rightarrow> chan_ok (cl_channel c) \<and> 0 \<le> ch_socket (cl_channel c) \<and> ch_socket (cl_channel c) < FD_SETSIZE
      | C_Exit \<Rightarrow> True)"

definition client_inv :: "('w, 'm) gep_env \<Rightarrow> client \<times> ('w, 'm) world \<Rightarrow> bool" where
  "client_inv E = (\<lambda>(c, w). client_env_ok E (cl_proto c) \<and>
     (cl_pc c \<noteq> C_Close \<longrightarrow> client_chan_ok (cl_proto c) (cl_channel c)) \<and> fds_accounted (cl_channel c) w \<and> client_pc_ok c \<and>
     (cl_thread_ctrl c \<longleftrightarrow> cl_pc c \<noteq> C_None \<and> \<not> cl_stopping c))"

lemma client_inv_init:
  assumes "client_env_ok E p" and "opened_fds (w_trace w) = []" and "closed_fds (w_trace w) = []"
  shows "client_inv E (GepClient_new E p, w)"
  using assms by (simp add: client_inv_def GepClient_new_def GepChannel_new_def client_chan_ok_def
      fds_accounted_def client_pc_ok_def)

lemma fds_accounted_steady: "fds_accounted ch w \<Longrightarrow> steady w w' \<Longrightarrow> fds_accounted ch w'"
  by (simp add: fds_accounted_def steady_def)

text \<open>Opening works on a closed channel; a failed attempt closes what it opened.\<close>

lemma OpenClientSocket_result:
  assumes "client_env_ok E p" and "client_chan_ok p ch" and "ch_socket ch = -1" and "fds_accounted ch w"
  shows "\<exists>r ch' w'. OpenClientSocket E q ch w = (r, ch', w') \<and> client_chan_ok p ch' \<and> fds_accounted ch' w' \<and>
    (r = -1 \<and> ch' = ch \<or> r = 0 \<and> ch' = ch\<lparr>ch_socket := ch_socket ch'\<rparr> \<and> ch_socket ch' \<noteq> -1)"
proof -
  let ?os = "e_os E"
  have si: "e_si E = SocketInterface_of ?os" and fds: "os_fds_ok ?os"
    using assms(1) by (auto simp: client_env_ok_def channel_env_ok_def)
  obtain fd w1 where s1: "Raw_Socket ?os w = (fd, w1)" by fastforce
  obtain r w2 where s2: "os_connect ?os fd (word_of_int (pr_port q)) w1 = (r, w2)" by fastforce
  have fd: "- 1 \<le> fd" "fd < FD_SETSIZE" using Raw_Socket_fd [OF fds s1] by auto
  have op: "opens fd w w1" "opens fd w w2"
    using raw_opens(1) [OF s1] opens_steady [OF raw_opens(1) [OF s1] raw_steady(4) [OF s2]] by simp_all
  have eq: "OpenClientSocket E q ch w =
      (if fd = -1 then (-1, ch, w1)
       else if r < 0 then (-1, ch, os_close ?os fd w2)
       else (0, ch\<lparr>ch_socket := fd\<rparr>, w2))"
    by (simp add: OpenClientSocket_def si SocketInterface_of_def s1 s2)
  have new: "client_chan_ok p (ch\<lparr>ch_socket := fd\<rparr>)" if "fd \<noteq> -1"
    using that assms(2,3) fd by (auto simp: client_chan_ok_def chan_good_def chan_idle_def chan_room_def
        content_def parse_short)
  have acc: "fd \<noteq> -1 \<Longrightarrow> fds_accounted (ch\<lparr>ch_socket := fd\<rparr>) w2" "fd = -1 \<Longrightarrow> fds_accounted ch w1"
    "fd \<noteq> -1 \<Longrightarrow> fds_accounted ch (os_close ?os fd w2)"
    using op assms(3,4) fd by (auto simp: fds_accounted_def opens_def os_close_world os_close_opened)
  show ?thesis
    unfolding eq using new acc assms(2) by auto
qed


lemma Close_result:
  assumes "Close E ch w = (r, ch', w')" and "fds_accounted ch w"
  shows "ch_socket ch' = -1 \<and> ch_id ch' = ch_id ch \<and> fds_accounted ch' w' \<and>
    (ch_socket ch \<noteq> -1 \<longrightarrow> r = 0 \<and> ch_len ch' = 0) \<and> (ch_socket ch = -1 \<longrightarrow> r = -1 \<and> ch' = ch \<and> w' = w)"
  using assms by (auto simp: Close_def fds_accounted_def os_close_world os_close_opened split: if_splits)

section \<open>Every step keeps the invariant\<close>

lemma client_invD:
  assumes "client_inv E (c, w)"
  shows "client_env_ok E (cl_proto c)" and "cl_pc c \<noteq> C_Close \<Longrightarrow> client_chan_ok (cl_proto c) (cl_channel c)"
    and "fds_accounted (cl_channel c) w" and "client_pc_ok c"
    and "cl_thread_ctrl c \<longleftrightarrow> cl_pc c \<noteq> C_None \<and> \<not> cl_stopping c"
  using assms by (auto simp: client_inv_def)

lemma client_inv_world: "client_inv E (c, w) \<Longrightarrow> steady w w' \<Longrightarrow> client_inv E (c, w')"
  by (auto simp: client_inv_def intro: fds_accounted_steady)

lemma Client_Start_inv:
  assumes "client_inv E (c, w)" and "cl_pc c = C_None" and "Client_Start E c w = Some (r, c', w')"
  shows "client_inv E (c', w')"
proof -
  note inv = client_invD [OF assms(1)]
  have sock: "ch_socket (cl_channel c) = -1" and ok: "client_chan_ok (cl_proto c) (cl_channel c)"
    using inv(2,4) assms(2) by (simp_all add: client_pc_ok_def)
  obtain q ch w1 where o: "OpenClientSocket E (cl_proto c) (cl_channel c) w = (q, ch, w1)"
    "client_chan_ok (cl_proto c) ch" "fds_accounted ch w1" "q = -1 \<and> ch = cl_channel c \<or> q = 0"
    using OpenClientSocket_result [OF inv(1) ok sock inv(3), of "cl_proto c"] by blast
  then show ?thesis
    using assms inv by (auto simp: Client_Start_def client_inv_def client_pc_ok_def split: if_splits)
qed

lemma Reconnect_result:
  assumes "client_inv E (c, w)" and "ch_socket (cl_channel c) = -1" and "Reconnect E c w = (c', w')"
  shows "client_chan_ok (cl_proto c) (cl_channel c') \<and>
    fds_accounted (cl_channel c') w' \<and> cl_pc c' = cl_pc c \<and> cl_proto c' = cl_proto c \<and>
    cl_thread_ctrl c' = cl_thread_ctrl c \<and> cl_stopping c' = cl_stopping c \<and>
    cl_reconnect_count c' =
      (if ch_socket (cl_channel c') = -1 then cl_reconnect_count c else narrow32 (cl_reconnect_count c + 1))"
proof -
  note inv = client_invD [OF assms(1)]
  have "cl_pc c \<noteq> C_Close" using inv(4) assms(2) by (auto simp: client_pc_ok_def)
  then obtain q ch w1 where o: "OpenClientSocket E (cl_proto c) (cl_channel c) w = (q, ch, w1)"
    "client_chan_ok (cl_proto c) ch" "fds_accounted ch w1"
    "q = -1 \<and> ch = cl_channel c \<or> q = 0 \<and> ch_socket ch \<noteq> -1"
    using OpenClientSocket_result [OF inv(1) inv(2) assms(2) inv(3), of "cl_proto c"] by blast
  obtain r w2 where sl: "syscall (sys_nanosleep (e_os E) kReconnectRetryDelaySecs 0)
      (\<lambda>_. Ev_sleep kReconnectRetryDelaySecs 0 :: 'b event) w1 = (r, w2)"
    by fastforce
  have "steady w1 w2" using syscall_steady [OF sl] by simp
  then show ?thesis
    using o sl assms(2,3) fds_accounted_steady [OF o(3)] by (auto simp: Reconnect_def)
qed

lemma Client_select_result:
  assumes "0 \<le> socket" and "socket < FD_SETSIZE"
  shows "\<exists>pc w'. Client_select E socket c w = Some (pc, w') \<and> steady w w' \<and>
    (pc = C_Exit \<or> (\<exists>fds. pc = C_Check socket fds))"
proof -
  obtain r rd w1 where sel: "Raw_Select (e_os E) (socket + 1) {socket} {}
      (usecs_to_timeval (pr_select_timeout_usec (cl_proto c))) w = (r, rd, w1)"
    by (metis surj_pair)
  show ?thesis
    using sel assms Raw_Select_steady [OF sel] by (simp add: Client_select_def FD_SET_def)
qed

lemma client_open:
  assumes "client_chan_ok p ch" and "ch_socket ch \<noteq> -1"
  shows "chan_idle p ch" and "0 \<le> ch_socket ch" and "ch_socket ch < FD_SETSIZE"
  using assms by (auto simp: client_chan_ok_def chan_good_def chan_idle_def)

text \<open>One receive of the thread: the channel goes on, or it is to be closed.\<close>

lemma Client_recv_result:
  assumes "client_inv E (c, w)" and "cl_pc c = C_Recv socket fds" and "socket \<in> fds"
  shows "\<exists>r ch w'. RecvData E (cl_proto c) (cl_channel c) w = Some (r, ch, w') \<and> steady w w' \<and>
    ch_socket ch = socket \<and>
    Client_RunThread E c w =
      Some (c\<lparr>cl_channel := ch, cl_pc := (if r = 0 then C_Test socket else C_Close)\<rparr>, w') \<and>
    client_inv E (c\<lparr>cl_channel := ch, cl_pc := (if r = 0 then C_Test socket else C_Close)\<rparr>, w')"
proof -
  note inv = client_invD [OF assms(1)]
  have sock: "ch_socket (cl_channel c) = socket" "socket \<noteq> -1" and pc: "cl_pc c \<noteq> C_Close"
    using inv(4) assms(2) by (auto simp: client_pc_ok_def)
  have s1: "ch_socket (cl_channel c) \<noteq> -1" using sock by simp
  note op = client_open [OF inv(2) [OF pc] s1]
  have fs: "FD_ISSET socket fds = Some True" using op sock(1) assms(3) by (simp add: FD_ISSET_def)
  have ce: "channel_env_ok E (cl_proto c)" using inv(1) by (simp add: client_env_ok_def)
  obtain r ch w1 where rd: "RecvData E (cl_proto c) (cl_channel c) w = Some (r, ch, w1)"
    "same_conn (cl_channel c) ch" "r \<in> {0, -1, -2}" "r = 0 \<longrightarrow> chan_idle (cl_proto c) ch" "steady w w1" "chan_ok ch"
    using receive_result [OF ce op(1)] by blast
  have cs: "ch_socket ch = socket" using rd(2) sock(1) by (simp add: same_conn_def)
  have acc: "fds_accounted ch w1"
    using fds_accounted_steady [OF inv(3) rd(5)] sock(1) cs by (simp add: fds_accounted_def)
  let ?c = "c\<lparr>cl_channel := ch, cl_pc := (if r = 0 then C_Test socket else C_Close)\<rparr>"
  have "Client_RunThread E c w = Some (?c, w1)"
    using assms(2) fs rd(1,3) by (auto simp: Client_RunThread_def)
  moreover have "client_inv E (?c, w1)"
    using inv(1,5) assms(2) rd(4,6) cs op(2,3) sock acc
    by (auto simp: client_inv_def client_chan_ok_def chan_good_def client_pc_ok_def)
  ultimately show ?thesis using rd(1,5) cs by blast
qed

text \<open>After one that failed, the thread closes the connection and forgets what was buffered.\<close>

lemma Client_close_result:
  assumes "client_inv E (c, w)" and "cl_pc c = C_Close"
  shows "\<exists>q ch w'. Close E (cl_channel c) w = (q, ch, w') \<and> ch_socket ch = -1 \<and> ch_len ch = 0 \<and>
    closed_fds (w_trace w') = closed_fds (w_trace w) @ [ch_socket (cl_channel c)] \<and>
    Client_RunThread E c w = Some (c\<lparr>cl_channel := ch, cl_pc := C_Test (-1)\<rparr>, w') \<and>
    client_inv E (c\<lparr>cl_channel := ch, cl_pc := C_Test (-1)\<rparr>, w')"
proof -
  note inv = client_invD [OF assms(1)]
  obtain q ch w' where cl: "Close E (cl_channel c) w = (q, ch, w')" by (metis surj_pair)
  note cr = Close_result [OF cl inv(3)]
  have op: "ch_socket (cl_channel c) \<noteq> -1" using inv(4) assms(2) by (auto simp: client_pc_ok_def)
  have "closed_fds (w_trace w') = closed_fds (w_trace w) @ [ch_socket (cl_channel c)]"
    using cl op by (auto simp: Close_def os_close_world)
  moreover have "client_inv E (c\<lparr>cl_channel := ch, cl_pc := C_Test (-1)\<rparr>, w')"
    using inv(1,5) assms(2) cr op by (auto simp: client_inv_def client_chan_ok_def client_pc_ok_def)
  ultimately show ?thesis using cl cr op assms(2) by (auto simp: Client_RunThread_def)
qed

lemma client_inv_pc:
  assumes "client_inv E (c, w)" and "cl_pc c \<noteq> C_None" and "pc \<noteq> C_None" and "steady w w'"
    and "cl_pc c \<noteq> C_Close" and "client_pc_ok (c\<lparr>cl_pc := pc\<rparr>)"
  shows "client_inv E (c\<lparr>cl_pc := pc\<rparr>, w')"
  using assms fds_accounted_steady by (auto simp: client_inv_def)

text \<open>The thread never runs into undefined behaviour, and its steps keep the invariant.\<close>

lemma client_thread_step:
  assumes "client_inv E (c, w)" and "cl_pc c \<noteq> C_None"
  shows "\<exists>c' w'. Client_RunThread E c w = Some (c', w') \<and> client_inv E (c', w')"
proof -
  note inv = client_invD [OF assms(1)] and pc = client_inv_pc [OF assms]
  show ?thesis
  proof (cases "cl_pc c")
    case C_Entry
    then show ?thesis
      using pc [of "C_Test (ch_socket (cl_channel c))" w]
      by (simp add: Client_RunThread_def GetSocket_def client_pc_ok_def)
  next
    case (C_Test socket)
    then show ?thesis
      using inv(4) pc [of "if cl_thread_ctrl c then C_Body socket else C_Exit" w]
      by (simp add: Client_RunThread_def client_pc_ok_def)
  next
    case (C_Body socket)
    then have s: "ch_socket (cl_channel c) = socket" using inv(4) by (simp add: client_pc_ok_def)
    show ?thesis
    proof (cases "socket = -1")
      case True
      obtain c' w' where r: "Reconnect E c w = (c', w')" by fastforce
      then have "client_inv E (c'\<lparr>cl_pc := C_Test (ch_socket (cl_channel c'))\<rparr>, w')"
        using Reconnect_result [OF assms(1) _ r] s True inv(1,5) C_Body
        by (simp add: client_inv_def client_pc_ok_def)
      then show ?thesis
        using C_Body True r by (simp add: Client_RunThread_def GetSocket_def)
    next
      case False
      then have "0 \<le> socket" "socket < FD_SETSIZE" using client_open [OF inv(2)] s C_Body by auto
      then obtain q w' where "Client_select E socket c w = Some (q, w')" "steady w w'"
        "q = C_Exit \<or> (\<exists>fds. q = C_Check socket fds)"
        using Client_select_result by blast
      then show ?thesis
        using C_Body False s pc [of q w'] by (auto simp: Client_RunThread_def client_pc_ok_def)
    qed
  next
    case (C_Check socket fds)
    then show ?thesis
      using inv(4) pc [of "if cl_thread_ctrl c then C_Recv socket fds else C_Exit" w]
      by (simp add: Client_RunThread_def client_pc_ok_def)
  next
    case (C_Recv socket fds)
    show ?thesis
    proof (cases "socket \<in> fds")
      case True
      then show ?thesis using Client_recv_result [OF assms(1) C_Recv] by blast
    next
      case False
      have s: "ch_socket (cl_channel c) = socket" "socket \<noteq> -1" using inv(4) C_Recv by (auto simp: client_pc_ok_def)
      then have "FD_ISSET socket fds = Some False"
        using client_open [OF inv(2)] C_Recv False by (simp add: FD_ISSET_def)
      then show ?thesis
        using C_Recv s pc [of "C_Test socket" w] by (simp add: Client_RunThread_def client_pc_ok_def)
    qed
  next
    case C_Close
    then show ?thesis using Client_close_result [OF assms(1)] by blast
  qed (use assms in \<open>simp_all add: Client_RunThread_def\<close>)
qed

lemma Client_Stop_request_inv:
  assumes "client_inv E (c, w)" and "Client_Stop_request c = Some c'"
  shows "client_inv E (c', w)"
proof -
  have pc: "cl_pc c \<noteq> C_None" "c' = c\<lparr>cl_thread_ctrl := False, cl_stopping := True\<rparr>"
    using assms(2) by (auto simp: Client_Stop_request_def split: if_splits)
  then have "client_pc_ok c'" using client_invD(4) [OF assms(1)] by (cases "cl_pc c") (simp_all add: client_pc_ok_def)
  then show ?thesis using assms(1) pc by (simp add: client_inv_def)
qed

lemma client_step_inv:
  assumes "client_inv E (c, w)" and "client_step E (c, w) (c', w')"
  shows "client_inv E (c', w')"
  using assms(2)
proof cases
  case thread
  then show ?thesis using client_thread_step [OF assms(1)] by auto
next
  case (start r)
  then show ?thesis using Client_Start_inv [OF assms(1)] by blast
next
  case stop
  then show ?thesis using Client_Stop_request_inv [OF assms(1)] by blast
next
  case join
  note inv = client_invD [OF assms(1)]
  obtain q ch w1 where cl: "Close E (cl_channel c) w = (q, ch, w1)" by (metis surj_pair)
  show ?thesis
    using join cl Close_result [OF cl inv(3)] inv
    by (auto simp: Client_Stop_join_def client_inv_def client_chan_ok_def client_pc_ok_def split: if_splits)
next
  case (send msg r)
  have ce: "channel_env_ok E (cl_proto c)" using client_invD(1) [OF assms(1)] by (simp add: client_env_ok_def)
  have "steady w w'"
    using chan.send_law [OF ce send(2) [unfolded Client_Send_def]] by (auto simp: send_post_def intro: sends_steady)
  then show ?thesis using client_inv_world [OF assms(1)] send(1) by simp
qed

lemma client_reach_inv:
  assumes "client_reach E x y" and "client_inv E x"
  shows "client_inv E y"
  using assms unfolding client_reach_def
  by (rule rtranclp_invariant) (metis client_step_inv surj_pair)

section \<open>The thread stops\<close>

primrec client_rank :: "client_pc \<Rightarrow> nat" where
  "client_rank C_None = 0"
| "client_rank C_Entry = 2"
| "client_rank (C_Test socket) = 1"
| "client_rank (C_Body socket) = 2"
| "client_rank (C_Check socket fds) = 1"
| "client_rank (C_Recv socket fds) = 3"
| "client_rank C_Close = 2"
| "client_rank C_Exit = 0"

lemma client_step_rank:
  assumes "Client_RunThread E c w = Some (c', w')" and "\<not> cl_thread_ctrl c" and "0 < client_rank (cl_pc c)"
    and "client_inv E (c, w)"
  shows "client_rank (cl_pc c') < client_rank (cl_pc c) \<and> \<not> cl_thread_ctrl c' \<and> cl_pc c' \<noteq> C_None"
proof (cases "cl_pc c")
  case (C_Body socket)
  have ch: "ch_socket (cl_channel c) = socket" using client_invD(4) [OF assms(4)] C_Body by (simp add: client_pc_ok_def)
  show ?thesis
  proof (cases "socket = -1")
    case True
    obtain c1 w1 where "Reconnect E c w = (c1, w1)" by fastforce
    then show ?thesis
      using assms(1,2) C_Body True ch Reconnect_result [OF assms(4), of c1 w1] by (auto simp: Client_RunThread_def)
  next
    case False
    then obtain pc w1 where "Client_select E socket c w = Some (pc, w1)" "pc = C_Exit \<or> (\<exists>fds. pc = C_Check socket fds)"
      using client_open [OF client_invD(2) [OF assms(4)]] ch C_Body Client_select_result [of socket E c w] by auto
    then show ?thesis using assms(1,2) C_Body False by (auto simp: Client_RunThread_def)
  qed
qed (use assms(1-3) in \<open>auto simp: Client_RunThread_def split: bind_splits if_splits prod.splits\<close>)

text \<open>Once \<open>thread_ctrl_\<close> is false, the thread ends: the contract of a service thread.\<close>

definition client_asked :: "('w, 'm) gep_env \<Rightarrow> client \<times> ('w, 'm) world \<Rightarrow> bool" where
  "client_asked E = (\<lambda>(c, w). client_inv E (c, w) \<and> cl_pc c \<noteq> C_None \<and> \<not> cl_thread_ctrl c)"

interpretation cl_thread: service_thread
  "\<lambda>(c, w). Client_RunThread E c w" "\<lambda>(c, w). cl_pc c = C_Exit" "client_asked E" "\<lambda>(c, w). client_rank (cl_pc c)"
  for E :: "('w, 'm) gep_env"
proof
  fix x :: "client \<times> ('w, 'm) world"
  obtain c w where x: "x = (c, w)" by fastforce
  show "case x of (c, w) \<Rightarrow> cl_pc c = C_Exit" if "client_asked E x" "(case x of (c, w) \<Rightarrow> client_rank (cl_pc c)) = 0"
    using that x by (cases "cl_pc c") (auto simp: client_asked_def)
  show "\<exists>y. (case x of (c, w) \<Rightarrow> Client_RunThread E c w) = Some y \<and> client_asked E y \<and>
      (case y of (c, w) \<Rightarrow> client_rank (cl_pc c)) < (case x of (c, w) \<Rightarrow> client_rank (cl_pc c))"
    if "client_asked E x" "\<not> (case x of (c, w) \<Rightarrow> cl_pc c = C_Exit)"
  proof -
    have a: "client_inv E (c, w)" "cl_pc c \<noteq> C_None" "\<not> cl_thread_ctrl c" "0 < client_rank (cl_pc c)"
      using that x by (cases "cl_pc c"; auto simp: client_asked_def)+
    obtain c1 w1 where t: "Client_RunThread E c w = Some (c1, w1)" "client_inv E (c1, w1)"
      using client_thread_step [OF a(1,2)] by blast
    show ?thesis using client_step_rank [OF t(1) a(3,4,1)] t x by (simp add: client_asked_def)
  qed
qed

lemma Client_run_thread: "Client_run E n c w = run_thread (\<lambda>(c, w). cl_pc c = C_Exit) (\<lambda>(c, w). Client_RunThread E c w) n (c, w)"
  by (induction n arbitrary: c w) (auto split: option.split)

lemma client_finishes:
  assumes "client_inv E (c, w)" and "cl_pc c \<noteq> C_None" and "\<not> cl_thread_ctrl c" and "client_rank (cl_pc c) \<le> n"
  shows "\<exists>c' w'. Client_run E n c w = Some (c', w') \<and> cl_pc c' = C_Exit \<and> client_inv E (c', w') \<and>
    \<not> cl_thread_ctrl c'"
  using cl_thread.finishes [of E "(c, w)" n] assms by (auto simp: client_asked_def Client_run_thread)

end
