(* ===== verification/Gep_Script.thy ===== *)
theory Gep_Script
  imports Gep_Server Gep_Client
begin

text \<open>
  A scripted kernel, message codec and environment, to evaluate the model on concrete runs:
  the kernel answers from lists, as the mock objects of \<open>test/mock_raw_socket_interface.h\<close> and
  \<open>test/mock_time_manager.h\<close> do. It keeps every promise the theorems ask of a kernel, for
  every script, so those hypotheses can be met. Nothing here models code of the program.
\<close>

section \<open>The kernel\<close>

record script =
  sc_send :: "send_answer list"
  sc_recv :: "recv_answer list"
  sc_clock_ms :: "nat list"
  sc_select :: "(int \<times> int \<times> int set) list"
  sc_socket :: "int list"
  sc_accept :: "int list"
  sc_connect :: "int list"

definition quiet_script :: script where
  "quiet_script = \<lparr>sc_send = [], sc_recv = [], sc_clock_ms = [], sc_select = [], sc_socket = [],
     sc_accept = [], sc_connect = []\<rparr>"

primrec clamp_send :: "nat \<Rightarrow> send_answer \<Rightarrow> send_answer" where
  "clamp_send n (Accepted k) = Accepted (min k n)"
| "clamp_send n (Send_failed e) = Send_failed e"

primrec clamp_recv :: "nat \<Rightarrow> recv_answer \<Rightarrow> recv_answer" where
  "clamp_recv n (Received bs) = Received (take n bs)"
| "clamp_recv n (Recv_failed e) = Recv_failed e"

definition clamp_fd :: "int \<Rightarrow> int" where
  "clamp_fd fd = (if - 1 \<le> fd \<and> fd < FD_SETSIZE then fd else -1)"

text \<open>An exhausted script: sends succeed, receives end, the clock stands, nothing is ready.\<close>

definition script_os :: "script os" where
  "script_os =
     \<lparr>sys_socket = (\<lambda>s. case sc_socket s of
          [] \<Rightarrow> (3, 0, s) | fd # l \<Rightarrow> (clamp_fd fd, 0, s\<lparr>sc_socket := l\<rparr>)),
      sys_bind = (\<lambda>fd prt s. (0, 0, s)),
      sys_listen = (\<lambda>fd b s. (0, 0, s)),
      sys_accept = (\<lambda>fd s. case sc_accept s of
          [] \<Rightarrow> (-1, EAGAIN, s) | fd # l \<Rightarrow> (clamp_fd fd, EAGAIN, s\<lparr>sc_accept := l\<rparr>)),
      sys_connect = (\<lambda>fd prt s. case sc_connect s of [] \<Rightarrow> (0, 0, s) | r # l \<Rightarrow> (r, 111, s\<lparr>sc_connect := l\<rparr>)),
      sys_close = (\<lambda>fd s. (0, 0, s)),
      sys_recv = (\<lambda>fd n s. case sc_recv s of
          [] \<Rightarrow> (Received [], s) | a # l \<Rightarrow> (clamp_recv n a, s\<lparr>sc_recv := l\<rparr>)),
      sys_send = (\<lambda>fd buf s. case sc_send s of
          [] \<Rightarrow> (Accepted (length buf), s) | a # l \<Rightarrow> (clamp_send (length buf) a, s\<lparr>sc_send := l\<rparr>)),
      sys_select = (\<lambda>n rd wr tv s. case sc_select s of
          [] \<Rightarrow> ((0, 0, {}), s)
        | (r, e, fds) # l \<Rightarrow> ((r, e, if r < 0 then rd else rd \<inter> fds), s\<lparr>sc_select := l\<rparr>)),
      sys_setsockopt = (\<lambda>fd opt v s. (0, 0, s)),
      sys_getfl = (\<lambda>fd s. (2, 0, s)),
      sys_setfl = (\<lambda>fd fl s. (0, 0, s)),
      sys_getsockname = (\<lambda>fd s. ((0, 0, 4321), s)),
      sys_getpeername = (\<lambda>fd s. (None, s)),
      sys_clock = (\<lambda>s. case sc_clock_ms s of
          [] \<Rightarrow> ((0, 0), s)
        | t # l \<Rightarrow> ((int (t div 1000) mod 9223372036, int (t mod 1000) * 1000000), s\<lparr>sc_clock_ms := l\<rparr>)),
      sys_nanosleep = (\<lambda>sec nsec s. (0, 0, s))\<rparr>"

lemma script_send_ok: "os_send_ok script_os"
proof -
  have "n \<le> length buf" if "clamp_send (length buf) a = Accepted n" for a n and buf :: "u8 list"
    using that by (cases a) auto
  then show ?thesis by (auto simp: os_send_ok_def script_os_def split: list.splits)
qed

lemma script_recv_ok: "os_recv_ok script_os"
proof -
  have "length bs \<le> n" if "clamp_recv n a = Received bs" for a n bs
    using that by (cases a) auto
  then show ?thesis by (auto simp: os_recv_ok_def script_os_def split: list.splits)
qed

lemma script_clock_ok: "os_clock_ok script_os"
  by (auto simp: os_clock_ok_def script_os_def split: list.splits)

lemma script_select_ok: "os_select_ok script_os"
  by (auto simp: os_select_ok_def script_os_def split: list.splits if_splits)

lemma script_fds_ok: "os_fds_ok script_os"
  by (auto simp: os_fds_ok_def script_os_def clamp_fd_def FD_SETSIZE_def split: list.splits)

section \<open>Messages\<close>

text \<open>A message is its tag and its value; the text ''x'' neither prints nor parses.\<close>

type_synonym raw_msg = "u32 \<times> u8 list"

definition raw_pb :: "raw_msg pb" where
  "raw_pb = \<lparr>pb_lite = False,
     pb_print_text = (\<lambda>m. if length (snd m) < 2000000 \<and> snd m \<noteq> [120] then Some (snd m) else None),
     pb_parse_text = (\<lambda>s m. if s = [120] then None else Some (fst m, s)),
     pb_serialize = (\<lambda>m. if length (snd m) < 2000000 then Some (snd m) else None),
     pb_clear = (\<lambda>m. (fst m, [])),
     pb_parse = (\<lambda>s m. Some (fst m, s))\<rparr>"

definition raw_vt :: "raw_msg proto_vt" where
  "raw_vt = \<lparr>vt_GetTag = fst, vt_GetMessage = (\<lambda>tag. Some (tag, []))\<rparr>"

definition raw_callback :: "(script, raw_msg) callback" where
  "raw_callback m cid w = Some (1, w)"

text \<open>Callbacks exist for the tags below 100.\<close>

definition raw_env :: "(script, raw_msg) gep_env" where
  "raw_env = \<lparr>e_os = script_os, e_pb = raw_pb, e_vt = raw_vt, e_si = SocketInterface_of script_os,
     e_ops = (\<lambda>tag. if tag < 100 then Some raw_callback else None), e_uninit = (\<lambda>_. 0)\<rparr>"

definition raw_server_env :: "(script, raw_msg) server_env" where
  "raw_server_env = \<lparr>se_chan = raw_env, se_si = SocketInterface_of script_os,
     se_AddClient = (\<lambda>cid w. w), se_DelClient = (\<lambda>cid w. w)\<rparr>"

definition raw_proto :: proto where
  "raw_proto = GepProtocol_new raw_pb 3456"

definition raw_world :: "script \<Rightarrow> (script, raw_msg) world" where
  "raw_world s = \<lparr>w_os = s, w_errno = 0, w_log_level = LOG_WARNING, w_trace = []\<rparr>"

lemmas raw_defs = raw_env_def raw_pb_def raw_vt_def raw_callback_def raw_server_env_def

lemma raw_proto_simps [simp]:
  "pr_port raw_proto = 3456" "pr_mode raw_proto = MODE_TEXT" "pr_magic raw_proto = kMagic"
  "pr_select_timeout_usec raw_proto = kDefaultSelectTimeUsec"
  by (simp_all add: raw_proto_def GepProtocol_new_def kMode_def raw_pb_def)

lemma raw_Unserialize: "Unserialize raw_pb raw_proto s m = (if s = [120] then None else Some (fst m, s))"
  by (simp add: Unserialize_def raw_pb_def)

lemma raw_Serialize: "Serialize raw_pb raw_proto m = (if length (snd m) < 2000000 \<and> snd m \<noteq> [120] then Some (snd m) else None)"
  by (simp add: Serialize_def raw_pb_def)

lemma raw_codec_ok: "codec_ok raw_pb raw_vt"
  by (auto simp: codec_ok_def raw_pb_def raw_vt_def prod_eq_iff split: if_splits)

lemma raw_ops_ok: "ops_ok raw_env raw_proto"
  by (auto simp: ops_ok_def raw_env_def raw_Unserialize raw_vt_def raw_callback_def split: if_splits)

lemma raw_channel_env_ok: "channel_env_ok raw_env raw_proto"
  by (auto simp: channel_env_ok_def raw_ops_ok)
     (auto simp: raw_env_def script_send_ok script_recv_ok raw_Serialize callbacks_steady_def raw_callback_def
        split: if_splits)

lemma raw_callbacks_quiet: "callbacks_quiet raw_env"
  by (auto simp: callbacks_quiet_def raw_env_def raw_callback_def quiet_def split: if_splits)

lemma raw_server_env_ok: "server_env_ok raw_server_env raw_proto"
  by (simp add: server_env_ok_def raw_server_env_def raw_channel_env_ok hooks_steady_def)
     (simp add: raw_env_def script_fds_ok)

lemma raw_client_env_ok: "client_env_ok raw_env raw_proto"
  by (simp add: client_env_ok_def raw_channel_env_ok) (simp add: raw_env_def script_fds_ok)

end
