(* ===== verification/Gep_End_To_End.thy ===== *)
theory Gep_End_To_End
  imports Gep_Array_Ops
begin

text \<open>
  A sender's channel and a receiver's channel joined by a byte stream: what the receiver's
  callbacks get is a prefix of the messages that were sent, in order and unchanged, and all
  of them when all the bytes have arrived, however the stream was cut.
\<close>

text \<open>A prefix of a stream of whole frames is some of the frames and the beginning of the next.\<close>

lemma parse_prefix:
  assumes "parse_frames magic (bs @ rest) = (fs, More r)"
  shows "\<exists>k r'. k \<le> length fs \<and> parse_frames magic bs = (take k fs, More r')"
proof -
  obtain gs e where p: "parse_frames magic bs = (gs, e)" by fastforce
  show ?thesis
  proof (cases e)
    case Bad
    then show ?thesis using assms p parse_append [of magic bs rest] by simp
  next
    case (More r')
    then have "fs = gs @ fst (parse_frames magic (r' @ rest))"
      using assms p parse_append [of magic bs rest] by simp
    then show ?thesis using p More by (intro exI [of _ "length gs"] exI [of _ r']) simp
  qed
qed

text \<open>The callbacks a list of messages should cause.\<close>

definition expected :: "('w, 'm) gep_env \<Rightarrow> int \<Rightarrow> 'm list \<Rightarrow> (int \<times> u32 \<times> 'm) list" where
  "expected E cid ms =
     map (\<lambda>m. (cid, vt_GetTag (e_vt E) m, m)) (filter (\<lambda>m. e_ops E (vt_GetTag (e_vt E) m) \<noteq> None) ms)"

lemma deliver_message:
  assumes "codec_ok (e_pb E) (e_vt E)" and "ops_ok E p" and "Serialize (e_pb E) p m \<noteq> None"
  shows "accepts E p (message_frame E p m)" and "deliver E p cid (message_frame E p m) = expected E cid [m]"
proof -
  obtain s where s: "Serialize (e_pb E) p m = Some s" using assms(3) by blast
  have "\<exists>e. vt_GetMessage (e_vt E) (vt_GetTag (e_vt E) m) = Some e \<and> Unserialize (e_pb E) p s e = Some m"
    if c: "e_ops E (vt_GetTag (e_vt E) m) = Some cb" for cb
  proof -
    obtain e where "vt_GetMessage (e_vt E) (vt_GetTag (e_vt E) m) = Some e"
      using assms(2) c unfolding ops_ok_def by blast
    then show ?thesis using Unserialize_Serialize [OF assms(1) _ s] by blast
  qed
  then have "e_ops E (vt_GetTag (e_vt E) m) = None \<or> (\<exists>cb e. e_ops E (vt_GetTag (e_vt E) m) = Some cb \<and>
      vt_GetMessage (e_vt E) (vt_GetTag (e_vt E) m) = Some e \<and> Unserialize (e_pb E) p s e = Some m)"
    by (cases "e_ops E (vt_GetTag (e_vt E) m)") auto
  then show "accepts E p (message_frame E p m)" "deliver E p cid (message_frame E p m) = expected E cid [m]"
    using s by (auto simp: accepts_def deliver_def message_frame_def expected_def)
qed

lemma deliver_messages:
  assumes "codec_ok (e_pb E) (e_vt E)" and "ops_ok E p" and "\<forall>m \<in> set ms. Serialize (e_pb E) p m \<noteq> None"
  shows "deliver_all E p cid (map (message_frame E p) ms) = expected E cid ms"
  using assms(3)
proof (induction ms)
  case (Cons m ms)
  have e: "expected E cid (m # ms) = expected E cid [m] @ expected E cid ms" by (simp add: expected_def)
  show ?case
    using Cons deliver_message [OF assms(1,2), of m] unfolding e by (simp add: deliver_all_def)
qed (simp add: deliver_all_def expected_def)

lemma Serialize_mode: "pr_mode p = pr_mode q \<Longrightarrow> Serialize pb p = Serialize pb q"
  by (rule ext) (simp add: Serialize_def)

text \<open>The stream a sequence of successful sends puts on the sender's descriptor.\<close>

definition message_stream :: "('w, 'm) gep_env \<Rightarrow> proto \<Rightarrow> 'm list \<Rightarrow> u8 list" where
  "message_stream E p ms = concat (map (message_wire E p) ms)"

lemma message_stream_frames:
  assumes "\<forall>m \<in> set ms. Serialize (e_pb E) p m \<noteq> None"
  shows "message_stream E p ms = concat (map (frame_bytes (pr_magic p)) (map (message_frame E p) ms))"
  using assms by (induction ms) (auto simp: message_stream_def message_wire_def message_frame_def)

lemma send_run_stream:
  assumes "channel_env_ok E p" and "send_run E p ch ms w = Some (0, w')"
  shows "sends (ch_socket ch) (message_stream E p ms) w w'" and "\<forall>m \<in> set ms. Serialize (e_pb E) p m \<noteq> None"
proof -
  note law = sock.send_run_law [OF channel_env_okD(1,3) [OF assms(1)] channel_env_okD(6) [OF assms(1)] assms(2)]
  then show s: "\<forall>m \<in> set ms. Serialize (e_pb E) p m \<noteq> None" by simp
  show "sends (ch_socket ch) (message_stream E p ms) w w'"
    using law unfolding message_stream_frames [OF s] by (simp add: comp_def)
qed

text \<open>Parsing a prefix of the stream of some messages.\<close>

lemma parse_message_stream:
  assumes "message_stream E p ms = bs @ rest" and "\<forall>m \<in> set ms. Serialize (e_pb E) p m \<noteq> None"
    and "\<forall>m \<in> set ms. length (the (Serialize (e_pb E) p m)) < max_value_len"
  shows "\<exists>k r. k \<le> length ms \<and> parse_frames (pr_magic p) bs = (take k (map (message_frame E p) ms), More r) \<and>
    (rest = [] \<longrightarrow> k = length ms)"
proof -
  have "list_all (\<lambda>f. length (snd f) < max_value_len) (map (message_frame E p) ms)"
    using assms(3) by (simp add: list_all_iff message_frame_def)
  then have "parse_frames (pr_magic p) (message_stream E p ms @ []) = (map (message_frame E p) ms, More [])"
    unfolding message_stream_frames [OF assms(2)] by (subst parse_frames_bytes) (simp_all add: parse_short)
  then have all: "parse_frames (pr_magic p) (bs @ rest) = (map (message_frame E p) ms, More [])"
    by (simp only: assms(1) append_Nil2)
  then obtain k r where k: "k \<le> length ms" "parse_frames (pr_magic p) bs = (take k (map (message_frame E p) ms), More r)"
    using parse_prefix [OF all] by auto
  show ?thesis
  proof (cases "rest = []")
    case True
    then have "take k (map (message_frame E p) ms) = map (message_frame E p) ms" using all k(2) by simp
    then have "k = length ms" using k(1) by (metis length_map length_take min_absorb2)
    then show ?thesis using k by blast
  next
    case False
    then show ?thesis using k by blast
  qed
qed

text \<open>The callbacks run at the receiver are those of a prefix of the messages that were sent.\<close>

lemma delivery:
  assumes "channel_env_ok Es p" and "channel_env_ok Er q" and "callbacks_quiet Er"
    and "e_pb Er = e_pb Es" and "e_vt Er = e_vt Es" and "pr_mode q = pr_mode p" and "pr_magic q = pr_magic p"
    and "codec_ok (e_pb Es) (e_vt Es)"
    and "\<forall>m \<in> set ms. length (the (Serialize (e_pb Es) p m)) < max_value_len"
    and "send_run Es p sender ms ws = Some (0, ws')"
    and "chan_idle q receiver" and "content receiver = []"
    and "recv_run Er q n receiver wr = Some (r, receiver', wr')"
    and "sent_on (ch_socket sender) (w_trace ws') = sent_on (ch_socket sender) (w_trace ws) @ arrived @ rest"
    and "received_on (ch_socket receiver) (w_trace wr') = received_on (ch_socket receiver) (w_trace wr) @ arrived"
  shows "\<exists>k \<le> length ms.
    dispatched (w_trace wr') = dispatched (w_trace wr) @ expected Er (ch_id receiver) (take k ms) \<and>
    (rest = [] \<longrightarrow> k = length ms)"
proof -
  note st = send_run_stream [OF assms(1,10)]
  have cut: "message_stream Es p ms = arrived @ rest"
    using sends_sent_on [OF st(1)] assms(14) by simp
  obtain k x where k: "k \<le> length ms" "rest = [] \<longrightarrow> k = length ms"
    and pa: "parse_frames (pr_magic q) arrived = (map (message_frame Es p) (take k ms), More x)"
    using parse_message_stream [OF cut st(2) assms(9)] assms(7) by (auto simp: take_map)
  obtain bs where "received_on (ch_socket receiver) (w_trace wr') = received_on (ch_socket receiver) (w_trace wr) @ bs"
    and d: "dispatched (w_trace wr') = dispatched (w_trace wr) @
      deliver_all Er q (ch_id receiver) (fst (parse_frames (pr_magic q) (content receiver @ bs)))"
    using sock.recv_run_stream [OF channel_env_okD(2-4) [OF assms(2)] assms(3,11), of n wr] assms(13) by auto
  then have "bs = arrived" using assms(15) by simp
  moreover have "message_frame Es p = message_frame Er q"
    using Serialize_mode [OF assms(6), of "e_pb Es"] assms(4,5) by (auto simp: message_frame_def)
  moreover have "deliver_all Er q (ch_id receiver) (map (message_frame Er q) (take k ms)) =
      expected Er (ch_id receiver) (take k ms)"
    using deliver_messages [OF _ channel_env_okD(4) [OF assms(2)], of "take k ms"] assms(4,5,8) st(2)
      Serialize_mode [OF assms(6), of "e_pb Es"] by (auto dest: in_set_takeD)
  ultimately show ?thesis using d pa k assms(12) by auto
qed

end
