(* ===== verification/Gep_Runs.thy ===== *)
theory Gep_Runs
  imports Gep_Script Gep_End_To_End
begin

text \<open>
  Concrete runs on the scripted kernel: what a send and a receive do there. They give the
  inputs at which the theorems are applied.
\<close>

section \<open>Sending\<close>

text \<open>With an exhausted script every send succeeds at once.\<close>

definition sent :: "int \<Rightarrow> u8 list \<Rightarrow> (script, 'm) world \<Rightarrow> (script, 'm) world" where
  "sent fd buf w = (if buf = [] then w else emit (Ev_send fd buf) w)"

lemma world_os_self [simp]: "w\<lparr>w_os := w_os w\<rparr> = w"
  by simp

lemma script_FullSend:
  assumes "sc_send (w_os w) = []" and "sc_clock_ms (w_os w) = []"
  shows "FullSend script_os fd buf t w = Some (int (length buf), sent fd buf w)"
proof -
  have e: "ms_elapse script_os 0 w = Some (0, w)"
    using assms(2) by (simp add: ms_elapse_def get_now_ns_def script_os_def chk64_def i64_ok_def to_u64_def
        kNsecsPerSec_def)
  have s: "Raw_Send script_os fd buf w = (int (length buf), emit (Ev_send fd buf) w)"
    using assms(1) by (simp add: Raw_Send_def script_os_def)
  show ?thesis
  proof (cases "buf = []")
    case True
    then show ?thesis using e by (simp add: FullSend_def FullSend_loop.simps sent_def)
  next
    case False
    then show ?thesis
      using e s by (simp add: FullSend_def FullSend_loop.simps FullSend_round_def sent_def)
  qed
qed

lemma sent_os [simp]: "w_os (sent fd buf w) = w_os w"
  by (simp add: sent_def)

lemma raw_env_simps [simp]:
  "e_os raw_env = script_os" "e_pb raw_env = raw_pb" "e_vt raw_env = raw_vt"
  "vt_GetTag raw_vt = fst" "vt_GetMessage raw_vt tag = Some (tag, [])"
  by (simp_all add: raw_env_def raw_vt_def)

lemma raw_SendMessage_eq:
  assumes "length v < 2000000" and "v \<noteq> [120]"
  shows "SendMessage raw_env raw_proto ch (tag, v) w = do {
     (ret1, w) \<leftarrow> FullSend script_os (ch_socket ch) (header_bytes kMagic tag (of_nat (length v))) 5 w;
     if ret1 \<noteq> 12 then Some (-1, w)
     else if v = [] then Some (0, w)
     else do {
       (ret2, w) \<leftarrow> FullSend script_os (ch_socket ch) v 5 w;
       if ret2 \<noteq> int (length v) then Some (-1, w) else Some (0, w)
     }
   }"
proof -
  have n: "narrow32 (int (length v)) = int (length v)"
    using assms(1) by (intro narrow32_id) (simp add: i32_ok_def)
  have d: "SendData raw_env ch buf x = FullSend script_os (ch_socket ch) buf 5 x" for buf x
    by (simp add: SendData_def raw_env_def SocketInterface_of_def kGepSendTimeoutMs_def)
  have s: "Serialize raw_pb raw_proto (tag, v) = Some v"
    using assms by (simp add: raw_Serialize)
  have "SendMessage raw_env raw_proto ch (tag, v) w = SendTLV raw_env raw_proto ch tag (int (length v)) (Some v) w"
    by (simp add: SendMessage_def SendString_def s n)
  moreover have "length v < 2147483648" using assms(1) by simp
  ultimately show ?thesis by (simp only: SendTLV_eq d raw_proto_simps)
qed

lemma raw_SendMessage:
  assumes "sc_send (w_os w) = []" and "sc_clock_ms (w_os w) = []" and "length v < 2000000" and "v \<noteq> [120]"
  shows "SendMessage raw_env raw_proto ch (tag, v) w =
    Some (0, sent (ch_socket ch) v (sent (ch_socket ch) (header_bytes kMagic tag (of_nat (length v))) w))"
proof -
  have "FullSend script_os (ch_socket ch) buf 5 x = Some (int (length buf), sent (ch_socket ch) buf x)"
    if "w_os x = w_os w" for buf and x :: "(script, raw_msg) world"
    using that assms(1,2) by (simp add: script_FullSend)
  then show ?thesis by (simp add: raw_SendMessage_eq [OF assms(3,4)] sent_def)
qed

section \<open>Receiving\<close>

lemma raw_accepts: "accepts raw_env raw_proto f \<longleftrightarrow> \<not> (fst f < 100 \<and> snd f = [120])"
  by (auto simp: accepts_def raw_env_def raw_vt_def raw_Unserialize)

lemma raw_deliver:
  "deliver raw_env raw_proto cid f =
     (if fst f < 100 \<and> snd f \<noteq> [120] then [(cid, fst f, (fst f, snd f))] else [])"
  by (simp add: deliver_def raw_env_def raw_vt_def raw_Unserialize)

text \<open>One receive, when the script has these bytes for it.\<close>

lemma raw_RecvData:
  assumes "chan_idle raw_proto ch" and "sc_recv (w_os w) = Received bs # l" and "bs \<noteq> []"
    and "length bs \<le> 1048576 - nat (ch_len ch)" and "parse_frames kMagic (content ch @ bs) = (fs, e)"
  shows "\<exists>ch' w'. RecvData raw_env raw_proto ch w =
      Some (if list_all (accepts raw_env raw_proto) fs \<and> e \<noteq> Bad then 0 else -1, ch', w') \<and>
    same_conn ch ch' \<and>
    dispatched (w_trace w') = dispatched (w_trace w) @ deliver_all raw_env raw_proto (ch_id ch) fs \<and>
    received_on (ch_socket ch) (w_trace w') = received_on (ch_socket ch) (w_trace w) @ bs"
proof -
  have idle: "chan_room ch" "0 \<le> ch_socket ch" using assms(1) by (simp_all add: chan_idle_def)
  have si: "si_Recv (SocketInterface_of script_os) (ch_socket ch) (1048576 - nat (ch_len ch)) w =
      (int (length bs), bs, emit (Ev_recv (ch_socket ch) bs) (w\<lparr>w_os := (w_os w)\<lparr>sc_recv := l\<rparr>\<rparr>))"
    using assms(2,4) by (simp add: SocketInterface_of_def Raw_Recv_def script_os_def)
  have ro: "e_os raw_env = script_os" by (simp add: raw_env_def)
  obtain ret bs' w1 r ch' w' where rv:
    "si_Recv (SocketInterface_of script_os) (ch_socket ch) (1048576 - nat (ch_len ch)) w = (ret, bs', w1)"
    and rd: "RecvData raw_env raw_proto ch w = Some (r, ch', w')"
    and post: "recv_post raw_env raw_proto ch w ret bs' r ch' w'"
    using sock.RecvData_post [OF channel_env_okD(2-4) [OF raw_channel_env_ok] idle, of w] unfolding ro by blast
  have "bs' = bs" "ret > 0" using rv si assms(3) by auto
  then show ?thesis
    using rd post assms(5) raw_callbacks_quiet by (auto simp: recv_post_def split: if_splits)
qed

lemma new_channel_idle: "0 \<le> fd \<Longrightarrow> chan_idle p (GepChannel_new E cid fd)"
  by (simp add: chan_idle_def chan_room_def GepChannel_new_def content_def parse_short)

lemma new_channel_simps [simp]:
  "content (GepChannel_new E cid fd) = []" "ch_id (GepChannel_new E cid fd) = cid"
  "ch_socket (GepChannel_new E cid fd) = fd" "ch_len (GepChannel_new E cid fd) = 0"
  by (simp_all add: GepChannel_new_def content_def)

text \<open>A channel that holds these bytes.\<close>

definition loaded :: "u8 list \<Rightarrow> channel" where
  "loaded bs = \<lparr>ch_id = 7, ch_socket = 4, ch_len = int (length bs),
     ch_buf = (\<lambda>i. if i < length bs then bs ! i else 0)\<rparr>"

lemma loaded_simps [simp]:
  "content (loaded bs) = bs" "ch_id (loaded bs) = 7" "ch_socket (loaded bs) = 4"
  by (auto simp: loaded_def content_def bytes_at_def intro!: nth_equalityI)

lemma loaded_ok: "length bs \<le> 1048576 \<Longrightarrow> chan_ok (loaded bs)"
  by (simp add: loaded_def chan_ok_def)

lemma raw_RecvTLV:
  "RecvTLV raw_env raw_proto cid tag v w =
     (if tag < 100 then
        (if v = [120] then Some (CMD_ERROR, w) else Some (CMD_OK, emit (Ev_dispatch cid tag (tag, v)) w))
      else Some (CMD_DROPPED, w))"
  by (simp add: RecvTLV_eq raw_env_def raw_vt_def raw_Unserialize raw_callback_def)

section \<open>A run from end to end\<close>

text \<open>Three messages, the second with a tag nobody has a callback for.\<close>

definition demo_messages :: "raw_msg list" where
  "demo_messages = [(5, [1, 2]), (200, [9]), (7, [])]"

definition demo_frames :: "(u32 \<times> u8 list) list" where
  "demo_frames = [(5, [1, 2]), (200, [9]), (7, [])]"

definition demo_stream :: "u8 list" where
  "demo_stream = concat (map (frame_bytes kMagic) demo_frames)"

definition demo_channel :: channel where
  "demo_channel = GepChannel_new raw_env 7 4"

definition demo_sender_world :: "(script, raw_msg) world" where
  "demo_sender_world = raw_world quiet_script"

definition demo_receiver_world :: "(script, raw_msg) world" where
  "demo_receiver_world = raw_world (quiet_script\<lparr>sc_recv := [Received demo_stream]\<rparr>)"

lemma demo_stream_simps: "demo_stream \<noteq> []" "length demo_stream = 39"
  by (simp_all add: demo_stream_def demo_frames_def frame_bytes_def)

lemma demo_send:
  "\<exists>w'. send_run raw_env raw_proto demo_channel demo_messages demo_sender_world = Some (0, w') \<and>
     sent_on 4 (w_trace w') = demo_stream"
proof -
  have s: "SendMessage raw_env raw_proto demo_channel (tag, v) w =
      Some (0, sent 4 v (sent 4 (header_bytes kMagic tag (of_nat (length v))) w))"
    if "w_os w = quiet_script" "v \<in> {[1, 2], [9], []}" for tag v w
    using that raw_SendMessage [of w v demo_channel tag] by (auto simp: quiet_script_def demo_channel_def)
  have o: "sent_on 4 (w_trace (sent 4 buf w)) = sent_on 4 (w_trace w) @ buf" for buf and w :: "(script, raw_msg) world"
    by (simp add: sent_def)
  show ?thesis
    using o by (simp add: demo_messages_def s demo_sender_world_def raw_world_def demo_stream_def demo_frames_def
        frame_bytes_def)
qed

lemma parse_demo_stream: "parse_frames kMagic demo_stream = (demo_frames, More [])"
  using parse_frames_bytes [of demo_frames kMagic "[]"]
  by (simp add: demo_stream_def demo_frames_def max_value_len_def parse_short)

lemma demo_recv:
  "\<exists>ch' w'. recv_run raw_env raw_proto 1 demo_channel demo_receiver_world = Some (0, ch', w') \<and>
     received_on 4 (w_trace w') = demo_stream \<and>
     dispatched (w_trace w') = [(7, 5, (5, [1, 2])), (7, 7, (7, []))]"
proof -
  have "\<exists>ch' w'. RecvData raw_env raw_proto demo_channel demo_receiver_world =
      Some (if list_all (accepts raw_env raw_proto) demo_frames \<and> More [] \<noteq> Bad then 0 else -1, ch', w') \<and>
    same_conn demo_channel ch' \<and>
    dispatched (w_trace w') = dispatched (w_trace demo_receiver_world) @
      deliver_all raw_env raw_proto (ch_id demo_channel) demo_frames \<and>
    received_on (ch_socket demo_channel) (w_trace w') =
      received_on (ch_socket demo_channel) (w_trace demo_receiver_world) @ demo_stream"
    by (rule raw_RecvData [where l = "[]"])
      (simp_all add: demo_channel_def new_channel_idle demo_receiver_world_def raw_world_def demo_stream_simps
        parse_demo_stream)
  then show ?thesis
    by (auto simp: demo_channel_def demo_receiver_world_def raw_world_def demo_frames_def raw_accepts raw_deliver
        deliver_all_def)
qed

end
