(* ===== verification/Channel_Properties.thy ===== *)
theory Channel_Properties
  imports Gep_Runs
begin

text \<open>
  The properties of one connection: framing, receiving and sending. Each is stated over the
  definitions that model the code and followed by an application at a concrete input.
\<close>

section \<open>Receiving\<close>

text \<open>C4: Whatever pieces a byte stream arrives in, a channel runs exactly the callbacks of the
  frames of the whole stream up to the first one that is not accepted, and while its receives
  return 0 it holds the beginning of the next frame. The number of receives is arbitrary.\<close>

theorem recv_any_pieces:
  assumes "channel_env_ok E p" and "callbacks_quiet E" and "chan_idle p ch"
  shows "\<exists>r ch' w' bs. recv_run E p n ch w = Some (r, ch', w') \<and>
    received_on (ch_socket ch) (w_trace w') = received_on (ch_socket ch) (w_trace w) @ bs \<and>
    dispatched (w_trace w') = dispatched (w_trace w) @
      deliver_all E p (ch_id ch) (fst (parse_frames (pr_magic p) (content ch @ bs))) \<and>
    (r = 0 \<longrightarrow> chan_idle p ch' \<and>
       snd (parse_frames (pr_magic p) (content ch @ bs)) = More (content ch'))"
  using sock.recv_run_stream [OF channel_env_okD(2-4) [OF assms(1)] assms(2,3), of n w] by blast

theorem recv_any_pieces_witness:
  "channel_env_ok raw_env raw_proto \<and> callbacks_quiet raw_env \<and> chan_idle raw_proto demo_channel \<and>
   (\<exists>r ch' w' bs. recv_run raw_env raw_proto 1 demo_channel demo_receiver_world = Some (r, ch', w') \<and>
      dispatched (w_trace w') =
        deliver_all raw_env raw_proto 7 (fst (parse_frames kMagic bs)))"
  using recv_any_pieces [OF raw_channel_env_ok raw_callbacks_quiet, of demo_channel 1 demo_receiver_world]
    raw_channel_env_ok raw_callbacks_quiet new_channel_idle [of 4 raw_proto raw_env 7]
  by (auto simp: demo_channel_def demo_receiver_world_def raw_world_def)

text \<open>C9: A receive on a channel that is ready is undefined exactly when unpacking one of the frames
  it comes to is (\<open>RecvTLV\<close>: no message object, a callback that is undefined, or an empty value that
  does not unpack). Whatever bytes arrive, there is no other way: no write outside the buffer, no
  overflow, no endless loop. A table of callbacks that fits the protocol (\<open>ops_ok\<close>) excludes that
  one too. A receive that returns gives 0, -1 or -2, keeps the channel's id and socket and leaves at
  most the capacity of the buffer in use, with room for the next receive when it gives 0. Of the
  kernel, only that it moves no more bytes than it was asked for.\<close>

theorem RecvData_total:
  assumes "e_si E = SocketInterface_of (e_os E)" and "os_send_ok (e_os E)" and "os_recv_ok (e_os E)"
    and "chan_idle p ch"
    and "Raw_Recv (e_os E) (ch_socket ch) (1048576 - nat (ch_len ch)) w = (ret, bs, w1)"
  shows "(RecvData E p ch w = None \<longleftrightarrow>
      run_frames E p (ch_id ch) (fst (parse_frames (pr_magic p) (content ch @ bs))) w1 = None) \<and>
    (ops_ok E p \<longrightarrow> RecvData E p ch w \<noteq> None) \<and>
    (\<forall>r ch' w'. RecvData E p ch w = Some (r, ch', w') \<longrightarrow> r \<in> {0, -1, -2} \<and> same_conn ch ch' \<and>
      0 \<le> ch_len ch' \<and> ch_len ch' \<le> 1048576 \<and> (r = 0 \<longrightarrow> ch_len ch' < 1048576 \<and> chan_idle p ch'))"
proof -
  have idle: "chan_room ch" "0 \<le> ch_socket ch" "parse_frames (pr_magic p) (content ch) = ([], More (content ch))"
    using assms(4) by (simp_all add: chan_idle_def)
  have si: "si_Recv (e_si E) = si_Recv (SocketInterface_of (e_os E))" "os_send_ok (e_os E) \<and> os_recv_ok (e_os E)"
    using assms(1-3) by simp_all
  have rv: "si_Recv (SocketInterface_of (e_os E)) (ch_socket ch) (1048576 - nat (ch_len ch)) w = (ret, bs, w1)"
    using assms(5) by (simp add: SocketInterface_of_def)
  obtain fs e where pf: "parse_frames (pr_magic p) (content ch @ bs) = (fs, e)" by fastforce
  note post = sock.RecvData_frames [OF si idle(1,2) rv pf]
  have "bs = []" if "\<not> ret > 0" using sock.recv_law [OF si(2) rv] that by simp
  then have none: "run_frames E p (ch_id ch) fs w1 \<noteq> None" if "\<not> ret > 0" using that pf idle(3) by auto
  have defined: "RecvData E p ch w = None \<longleftrightarrow> run_frames E p (ch_id ch) fs w1 = None"
    using post none by (auto split: if_splits)
  moreover have "ops_ok E p \<longrightarrow> run_frames E p (ch_id ch) fs w1 \<noteq> None"
    using run_frames_defined [of E p "ch_id ch" fs w1] by auto
  moreover have "r \<in> {0, -1, -2} \<and> same_conn ch ch' \<and> chan_ok ch' \<and> (r = 0 \<longrightarrow> chan_idle p ch')"
    if "RecvData E p ch w = Some (r, ch', w')" for r ch' w'
  proof -
    have rp: "recv_post E p ch w ret bs r ch' w'" using post that by (auto split: if_splits)
    then show ?thesis
      using sock.RecvData_idle [OF rp assms(4)] by (auto simp: recv_post_def split: if_splits)
  qed
  ultimately show ?thesis using pf by (auto simp: chan_ok_def chan_idle_def chan_room_def)
qed

text \<open>An environment that has a callback for every tag and a message for none.\<close>

definition lacking_env :: "(script, raw_msg) gep_env" where
  "lacking_env = raw_env\<lparr>e_ops := (\<lambda>tag. Some raw_callback), e_vt := raw_vt\<lparr>vt_GetMessage := (\<lambda>tag. None)\<rparr>\<rparr>"

theorem RecvData_total_witness:
  "(\<exists>r ch' w'. RecvData raw_env raw_proto demo_channel demo_receiver_world = Some (r, ch', w') \<and>
      r \<in> {0, -1, -2} \<and> ch_len ch' \<le> 1048576) \<and>
   RecvData lacking_env raw_proto demo_channel demo_receiver_world = None"
proof -
  have idle: "chan_idle raw_proto demo_channel" by (simp add: demo_channel_def new_channel_idle)
  obtain w1 where rv: "Raw_Recv script_os 4 1048576 demo_receiver_world = (39, demo_stream, w1)"
    by (simp add: Raw_Recv_def demo_receiver_world_def raw_world_def script_os_def demo_stream_simps)
  have si: "e_si raw_env = SocketInterface_of script_os" "e_si lacking_env = SocketInterface_of script_os"
    "e_os lacking_env = script_os" "e_ops lacking_env tag = Some raw_callback" "vt_GetMessage (e_vt lacking_env) tag = None"
    for tag by (simp_all add: raw_env_def lacking_env_def)
  have "run_frames lacking_env raw_proto 7 demo_frames w1 = None"
    by (simp add: demo_frames_def RecvTLV_eq si)
  then have "RecvData lacking_env raw_proto demo_channel demo_receiver_world = None"
    using RecvData_total [of lacking_env raw_proto demo_channel demo_receiver_world 39 demo_stream w1]
      si(2,3) rv idle script_send_ok script_recv_ok parse_demo_stream by (simp add: demo_channel_def)
  moreover have "\<exists>r ch' w'. RecvData raw_env raw_proto demo_channel demo_receiver_world = Some (r, ch', w') \<and>
      r \<in> {0, -1, -2} \<and> ch_len ch' \<le> 1048576"
    using RecvData_total [of raw_env raw_proto demo_channel demo_receiver_world 39 demo_stream w1]
      si(1) rv idle script_send_ok script_recv_ok raw_ops_ok by (force simp: demo_channel_def)
  ultimately show ?thesis by blast
qed

text \<open>A receive on a channel without a socket, or whose length is not below the size of the
  buffer (a negative length counts as a huge one), returns -1 and changes nothing.\<close>

theorem RecvData_refuses:
  assumes "i32_ok (ch_len ch)" and "ch_socket ch < 0 \<or> ch_len ch < 0 \<or> 1048576 \<le> ch_len ch"
  shows "RecvData E p ch w = Some (-1, ch, w)"
proof -
  have "to_u64 (ch_len ch) \<ge> 1048576" if "ch_len ch < 0 \<or> 1048576 \<le> ch_len ch"
  proof (cases "ch_len ch < 0")
    case True
    then have "(ch_len ch + 18446744073709551616) mod 18446744073709551616 = ch_len ch + 18446744073709551616"
      using assms(1) by (intro mod_pos_pos_trivial) (simp_all add: i32_ok_def)
    then have "uint (to_u64 (ch_len ch)) = ch_len ch + 18446744073709551616"
      by (simp add: to_u64_def uint_word_of_int)
    then show ?thesis using assms(1) by (simp add: word_le_def i32_ok_def)
  next
    case False
    then have "unat (to_u64 (ch_len ch)) = nat (ch_len ch)"
      using assms(1) by (intro unat_to_u64) (auto simp: i32_ok_def)
    then show ?thesis using False that by (simp add: word_le_nat_alt)
  qed
  then show ?thesis using assms(2) by (auto simp: RecvData_def)
qed

theorem RecvData_refuses_witness:
  "RecvData raw_env raw_proto (SetLen 1048577 demo_channel) demo_receiver_world =
     Some (-1, SetLen 1048577 demo_channel, demo_receiver_world)"
  using RecvData_refuses [of "SetLen 1048577 demo_channel"] by (simp add: SetLen_def i32_ok_def)

text \<open>C10: The receive loop over the fixed buffer is equivalent to the stream parser followed by the
  handling of its frames one by one, in order. When all of them are handled, it returns what the end
  of the stream says and keeps exactly the incomplete frame. At the first that cannot be unpacked it
  stops with an error, in the world that frame left, and keeps that frame and what follows it. It
  is undefined exactly when handling the frames is.\<close>

theorem RecvString_implements_parser:
  assumes "chan_ok ch" and "parse_frames (pr_magic p) (content ch) = (fs, e)"
  shows "case run_frames E p (ch_id ch) fs w of
      None \<Rightarrow> RecvString E p ch w = None
    | Some (None, w') \<Rightarrow> list_all (accepts E p) fs \<and>
        (\<exists>ch'. RecvString E p ch w = Some (end_result e, ch', w') \<and> same_conn ch ch' \<and> content ch' = end_rest e)
    | Some (Some r, w') \<Rightarrow> r = CMD_ERROR \<and> \<not> list_all (accepts E p) fs \<and>
        (\<exists>ch'. RecvString E p ch w = Some (CMD_ERROR, ch', w') \<and> same_conn ch ch' \<and>
          parse_frames (pr_magic p) (content ch') = (dropWhile (accepts E p) fs, e))"
proof (cases "run_frames E p (ch_id ch) fs w")
  case None
  then show ?thesis using RecvString_refines [OF assms, of E w] by simp
next
  case (Some x)
  then obtain r w' where x: "run_frames E p (ch_id ch) fs w = Some (r, w')" by (cases x) simp
  then show ?thesis
    using RecvString_refines [OF assms, of E w] run_frames_result [OF x] by (auto split: option.splits if_splits)
qed

text \<open>A stream of two frames, the first of which unpacks while the second does not.\<close>

definition spoilt_frames :: "(u32 \<times> u8 list) list" where
  "spoilt_frames = [(5, [1, 2]), (7, [120])]"

definition spoilt_stream :: "u8 list" where
  "spoilt_stream = concat (map (frame_bytes kMagic) spoilt_frames) @ [103]"

lemma spoilt_stream_simps: "length spoilt_stream = 28" "parse_frames kMagic spoilt_stream = (spoilt_frames, More [103])"
  using parse_frames_bytes [of spoilt_frames kMagic "[103]"]
  by (simp_all add: spoilt_stream_def spoilt_frames_def frame_bytes_def max_value_len_def parse_short)

theorem RecvString_implements_parser_witness:
  "(\<exists>ch' w'. RecvString raw_env raw_proto (loaded demo_stream) demo_receiver_world = Some (CMD_OK, ch', w') \<and>
      content ch' = []) \<and>
   (\<exists>ch' w'. RecvString raw_env raw_proto (loaded spoilt_stream) demo_receiver_world = Some (CMD_ERROR, ch', w') \<and>
      dispatched (w_trace w') = [(7, 5, (5, [1, 2]))] \<and>
      parse_frames kMagic (content ch') = ([(7, [120])], More [103]))"
proof
  have "parse_frames (pr_magic raw_proto) (content (loaded demo_stream)) = (demo_frames, More [])"
    by (simp add: parse_demo_stream)
  from RecvString_implements_parser [OF loaded_ok this, of raw_env demo_receiver_world]
  show "\<exists>ch' w'. RecvString raw_env raw_proto (loaded demo_stream) demo_receiver_world = Some (CMD_OK, ch', w') \<and>
      content ch' = []"
    by (auto simp: demo_stream_simps demo_frames_def raw_RecvTLV IsRecoverable_def)
  have "parse_frames (pr_magic raw_proto) (content (loaded spoilt_stream)) = (spoilt_frames, More [103])"
    by (simp add: spoilt_stream_simps)
  from RecvString_implements_parser [OF loaded_ok this, of raw_env demo_receiver_world]
  show "\<exists>ch' w'. RecvString raw_env raw_proto (loaded spoilt_stream) demo_receiver_world = Some (CMD_ERROR, ch', w') \<and>
      dispatched (w_trace w') = [(7, 5, (5, [1, 2]))] \<and> parse_frames kMagic (content ch') = ([(7, [120])], More [103])"
    by (auto simp: spoilt_stream_simps spoilt_frames_def raw_RecvTLV raw_accepts IsRecoverable_def
        demo_receiver_world_def raw_world_def dispatched_def)
qed

text \<open>A buffer that starts with a wrong magic number, or with a value length of 1048564 or
  more, is emptied: the receive loop returns an error and runs no callback.\<close>

theorem RecvString_bad_header:
  assumes "chan_ok ch" and "12 \<le> length (content ch)"
    and "UINT32 (take 4 (content ch)) \<noteq> pr_magic p \<or> 1048564 \<le> unat (UINT32 (take 4 (drop 8 (content ch))))"
  shows "RecvString E p ch w = Some (CMD_ERROR, SetLen 0 ch, w)"
proof -
  have n: "to_u32 (ch_len ch) \<ge> kHdrLen"
    using chan_len [OF assms(1)] assms(2) by (simp add: word_le_nat_alt)
  have "RecvString_round E p ch w = Some (Inl (CMD_ERROR, ch\<lparr>ch_len := 0\<rparr>, w))"
  proof (cases "UINT32 (take 4 (content ch)) = pr_magic p")
    case True
    then show ?thesis
      using assms(3) by (intro round_too_long [OF assms(1,2)]) (simp_all add: max_value_len_def)
  next
    case False
    then show ?thesis by (rule round_bad_magic [OF assms(1,2)])
  qed
  then show ?thesis using n by (subst RecvString.simps) (simp add: SetLen_def)
qed

theorem RecvString_bad_header_witness:
  "RecvString raw_env raw_proto (loaded [97, 98, 99, 100, 0, 0, 0, 5, 0, 0, 0, 0]) demo_receiver_world =
     Some (CMD_ERROR, SetLen 0 (loaded [97, 98, 99, 100, 0, 0, 0, 5, 0, 0, 0, 0]), demo_receiver_world)"
proof (rule RecvString_bad_header)
  show "UINT32 (take 4 (content (loaded [97, 98, 99, 100, 0, 0, 0, 5, 0, 0, 0, 0]))) \<noteq> pr_magic raw_proto \<or>
    1048564 \<le> unat (UINT32 (take 4 (drop 8 (content (loaded [97, 98, 99, 100, 0, 0, 0, 5, 0, 0, 0, 0])))))"
    by (simp add: UINT32_def kMagic_def MakeTag_def push_bit_eq_mult)
qed (simp_all add: loaded_ok)

text \<open>A frame whose tag has no callback is dropped and the loop goes on behind it.\<close>

theorem RecvString_unsupported_tag:
  assumes "chan_ok ch" and "content ch = frame_bytes (pr_magic p) (tag, v) @ rest"
    and "length v < max_value_len" and "e_ops E tag = None"
  shows "\<exists>ch'. content ch' = rest \<and> chan_ok ch' \<and> same_conn ch ch' \<and>
    RecvString E p ch w = RecvString E p ch' w"
proof -
  let ?c = "content ch"
  have n: "unat (of_nat (length v) :: u32) = length v"
    using assms(3) by (simp add: max_value_len_def unat_of_nat)
  have parts: "UINT32 (take 4 ?c) = pr_magic p" "UINT32 (take 4 (drop 4 ?c)) = tag"
    "unat (UINT32 (take 4 (drop 8 ?c))) = length v" "drop 12 ?c = v @ rest"
    using n by (simp_all add: assms(2) frame_bytes_def header_bytes_def)
  have "drop (12 + length v) ?c = drop (length v) (drop 12 ?c)" by (simp only: drop_drop add.commute)
  then have rest: "drop (12 + length v) ?c = rest" unfolding parts(4) by simp
  have len: "12 + length v \<le> length ?c" by (simp only: assms(2)) (simp add: frame_bytes_def)
  obtain ch' where c: "content ch' = rest" "chan_ok ch'" "same_conn ch ch'"
    and r: "\<And>w. RecvString_round E p ch w = (case RecvTLV E p (ch_id ch) tag v w of None \<Rightarrow> None
       | Some (ret, w') \<Rightarrow> if IsRecoverable ret then Some (Inr (ch', w')) else Some (Inl (ret, ch, w')))"
    using round_frame [OF assms(1) parts(1) refl, of E] assms(3) len
    unfolding parts(2-4) rest by auto
  have "RecvString_round E p ch w = Some (Inr (ch', w))"
    unfolding r by (simp add: RecvTLV_eq assms(4) IsRecoverable_def)
  moreover have "to_u32 (ch_len ch) \<ge> kHdrLen"
    using chan_len [OF assms(1)] len by (simp add: word_le_nat_alt)
  ultimately show ?thesis
    using c by (intro exI [of _ ch']) (subst RecvString.simps, simp)
qed

theorem RecvString_unsupported_tag_witness:
  "\<exists>ch'. content ch' = [1, 2] \<and>
     RecvString raw_env raw_proto (loaded (frame_bytes kMagic (200, [9]) @ [1, 2])) demo_receiver_world =
     RecvString raw_env raw_proto ch' demo_receiver_world"
  using RecvString_unsupported_tag [of "loaded (frame_bytes kMagic (200, [9]) @ [1, 2])" raw_proto 200 "[9]"
      "[1, 2]" raw_env demo_receiver_world]
  by (auto simp: loaded_ok frame_bytes_def max_value_len_def raw_env_def)

text \<open>C12: Unpacking a value is undefined exactly when its tag has a callback and either no
  message object exists for the tag, or the empty value does not unpack (its text is printed
  into an array of size 0), or the callback itself is undefined. Every other case returns.\<close>

theorem RecvTLV_undefined_iff:
  "RecvTLV E p cid tag value w = None \<longleftrightarrow>
     (\<exists>cb. e_ops E tag = Some cb \<and>
       (vt_GetMessage (e_vt E) tag = None \<or>
        (\<exists>e. vt_GetMessage (e_vt E) tag = Some e \<and>
          (value = [] \<and> Unserialize (e_pb E) p [] e = None \<or>
           (\<exists>m. Unserialize (e_pb E) p value e = Some m \<and> cb m cid (emit (Ev_dispatch cid tag m) w) = None)))))"
  by (auto simp: RecvTLV_eq split: option.split)

section \<open>Sending\<close>

text \<open>C5: A message that is reported sent (0) is on the wire as one whole frame behind what was
  there; a message that is not (-1) left nothing or a proper prefix of its frame. Nothing goes
  to another descriptor and no callback runs.\<close>

theorem SendMessage_all_or_prefix:
  assumes "channel_env_ok E p" and "SendMessage E p ch m w = Some (r, w')"
  shows "(r = 0 \<and> (\<exists>s. Serialize (e_pb E) p m = Some s \<and>
        sent_on (ch_socket ch) (w_trace w') =
          sent_on (ch_socket ch) (w_trace w) @ frame_bytes (pr_magic p) (vt_GetTag (e_vt E) m, s)) \<or>
      r = -1 \<and> (\<exists>k. (k = 0 \<or> k < length (message_wire E p m)) \<and>
        sent_on (ch_socket ch) (w_trace w') =
          sent_on (ch_socket ch) (w_trace w) @ take k (message_wire E p m))) \<and>
    (\<forall>fd. fd \<noteq> ch_socket ch \<longrightarrow> sent_on fd (w_trace w') = sent_on fd (w_trace w)) \<and>
    dispatched (w_trace w') = dispatched (w_trace w)"
proof -
  obtain k where k: "k \<le> length (message_wire E p m)"
    "sends (ch_socket ch) (take k (message_wire E p m)) w w'"
    "r = (if Serialize (e_pb E) p m \<noteq> None \<and> k = length (message_wire E p m) then 0 else -1)"
    using SendMessage_prefix [OF assms] unfolding send_post_def by blast
  have "r = 0 \<and> (\<exists>s. Serialize (e_pb E) p m = Some s \<and>
        take k (message_wire E p m) = frame_bytes (pr_magic p) (vt_GetTag (e_vt E) m, s)) \<or>
      r = -1 \<and> (k = 0 \<or> k < length (message_wire E p m))"
    using k(1,3) by (auto simp: message_wire_def split: option.splits)
  then show ?thesis
    using sends_sent_on [OF k(2)] sends_sent_other [OF k(2)] sends_dispatched [OF k(2)] by auto
qed

theorem SendMessage_all_or_prefix_witness:
  "\<exists>w'. SendMessage raw_env raw_proto demo_channel (5, [1, 2]) demo_sender_world = Some (0, w') \<and>
     sent_on 4 (w_trace w') = frame_bytes kMagic (5, [1, 2])"
proof -
  have s: "SendMessage raw_env raw_proto demo_channel (5, [1, 2]) demo_sender_world =
      Some (0, sent 4 [1, 2] (sent 4 (header_bytes kMagic 5 2) demo_sender_world))"
    using raw_SendMessage [of demo_sender_world "[1, 2]" demo_channel 5]
    by (simp add: demo_sender_world_def raw_world_def quiet_script_def demo_channel_def)
  show ?thesis
    using s SendMessage_all_or_prefix [OF raw_channel_env_ok s]
    by (auto simp: demo_channel_def demo_sender_world_def raw_world_def raw_env_def raw_vt_def raw_Serialize)
qed

text \<open>A full send transmits a prefix of the buffer and nothing else; it returns the size of
  the buffer exactly when it transmitted all of it, and otherwise 0, -1 or -2.\<close>

theorem FullSend_prefix:
  assumes "os_send_ok os" and "FullSend os fd buf t w = Some (r, w')"
  shows "\<exists>k \<le> length buf. sent_on fd (w_trace w') = sent_on fd (w_trace w) @ take k buf \<and>
    (\<forall>f. f \<noteq> fd \<longrightarrow> sent_on f (w_trace w') = sent_on f (w_trace w)) \<and>
    (r = int (length buf) \<and> k = length buf \<or> r \<in> {0, -1, -2} \<and> k < length buf)"
proof -
  obtain k where "k \<le> length buf" and s: "sends fd (take k buf) w w'"
    and "r = int (length buf) \<and> k = length buf \<or> r \<in> {0, -1, -2} \<and> k < length buf"
    using FullSend_law [OF assms] by blast
  then show ?thesis using sends_sent_on [OF s] sends_sent_other [OF s] by blast
qed

theorem FullSend_prefix_witness:
  "\<exists>r w'. FullSend script_os 4 [1, 2, 3] 5 (raw_world (quiet_script\<lparr>sc_send := [Accepted 2, Accepted 0]\<rparr>)) =
       Some (r, w') \<and> r = -2 \<and> sent_on 4 (w_trace w') = [1, 2]"
proof -
  let ?w = "raw_world (quiet_script\<lparr>sc_send := [Accepted 2, Accepted 0]\<rparr>)"
  have "map_option (\<lambda>(r, w). (r, sent_on 4 (w_trace w))) (FullSend script_os 4 [1, 2, 3] 5 ?w) = Some (-2, [1, 2])"
    by code_simp
  then obtain w' where r: "FullSend script_os 4 [1, 2, 3] 5 ?w = Some (-2, w')" "sent_on 4 (w_trace w') = [1, 2]"
    by auto
  then show ?thesis using FullSend_prefix [OF script_send_ok r(1)] by simp
qed

text \<open>C11: A full send returns, by its deadline: as long as time passes, whatever the kernel answers
  (it may refuse every send and report the descriptor writable each time), it makes at most one
  \<open>send\<close> that is answered or one \<open>select\<close> per nanosecond of its timeout and of the millisecond and
  the clock tick to which it measures. So it neither waits for ever nor goes on sending in pieces
  for as long as the buffer lasts. Assumed: a descriptor an \<open>fd_set\<close> can hold, and a clock that
  does not reach the end of its range before the deadline.\<close>

theorem FullSend_terminates:
  assumes "os_clock_ok os" and "os_time_passes os now tick" and "0 \<le> fd" and "fd < FD_SETSIZE"
    and "now (w_os w) + (t + 1) * 1000000 + tick < clock_end"
  shows "\<exists>r w' evs. FullSend os fd buf (int t) w = Some (r, w') \<and> w_trace w' = w_trace w @ evs \<and>
    length evs \<le> (t + 1) * 1000000 + tick"
  by (rule FullSend_time [OF assms])

text \<open>
  A kernel that never takes a byte and always reports the descriptor writable. Its clock goes on by
  a nanosecond at each reading; the first entry of the script is the time.
\<close>

definition busy_os :: "script os" where
  "busy_os = script_os
     \<lparr>sys_send := (\<lambda>fd buf s. (Send_failed EAGAIN, s)),
      sys_select := (\<lambda>n rd wr tv s. ((1, 0, rd), s)),
      sys_clock := (\<lambda>s. let t = min (sum_list (sc_clock_ms s)) (clock_end - 1) in
        ((int (t div 1000000000), int (t mod 1000000000)), s\<lparr>sc_clock_ms := [t + 1]\<rparr>))\<rparr>"

lemma busy_ok:
  "os_clock_ok busy_os" "os_time_passes busy_os (\<lambda>s. min (sum_list (sc_clock_ms s)) (clock_end - 1)) 1"
proof -
  show "os_clock_ok busy_os"
    by (auto simp: os_clock_ok_def busy_os_def Let_def clock_end_def)
  have "int (x div 1000000000) * 1000000000 + int (x mod 1000000000) = int x" for x by (simp add: zdiv_int zmod_int)
  then show "os_time_passes busy_os (\<lambda>s. min (sum_list (sc_clock_ms s)) (clock_end - 1)) 1"
    by (auto simp: os_time_passes_def busy_os_def Let_def clock_end_def kNsecsPerSec_def)
qed

theorem FullSend_terminates_witness:
  "\<exists>r w' evs. FullSend busy_os 4 [1, 2, 3] 5 (raw_world quiet_script) = Some (r, w') \<and> w_trace w' = evs \<and>
     length evs \<le> 6000001"
  using FullSend_terminates [OF busy_ok, of 4 "raw_world quiet_script" 5 "[1, 2, 3]"]
  by (simp add: FD_SETSIZE_def clock_end_def raw_world_def quiet_script_def)

text \<open>The outcomes of a first \<open>send\<close> that takes nothing, as \<open>test/socket_interface_test.cc\<close>
  has them: a shutdown gives -2, an error -1, and a full socket buffer 0 when the timeout has
  passed; a \<open>send\<close> that takes one byte gives 0 when the timeout has passed after it.\<close>

theorem FullSend_outcomes:
  "map_option fst (FullSend script_os 1 (a # b # bs) 10
     (raw_world (quiet_script\<lparr>sc_send := [Accepted 0], sc_clock_ms := [1]\<rparr>))) = Some (-2) \<and>
   map_option fst (FullSend script_os 1 (a # b # bs) 10
     (raw_world (quiet_script\<lparr>sc_send := [Send_failed 98], sc_clock_ms := [1]\<rparr>))) = Some (-1) \<and>
   map_option fst (FullSend script_os 1 (a # b # bs) 10
     (raw_world (quiet_script\<lparr>sc_send := [Send_failed EAGAIN], sc_clock_ms := [1, 12]\<rparr>))) = Some 0 \<and>
   map_option fst (FullSend script_os 1 (a # b # bs) 10
     (raw_world (quiet_script\<lparr>sc_send := [Accepted 1], sc_clock_ms := [1, 12]\<rparr>))) = Some 0"
proof (intro conjI)
qed (simp_all add: FullSend_def FullSend_loop.simps FullSend_round_def ms_elapse_def get_now_ns_def script_os_def
      chk64_def i64_ok_def to_u64_def kNsecsPerSec_def kNsecsPerMsec_def raw_world_def quiet_script_def Raw_Send_def
      u64_to_i64_def EAGAIN_def EWOULDBLOCK_def)

text \<open>C13: A message whose header and value fill \<open>kMaxMsgLen\<close> bytes or more (a value of 1048564 bytes)
  is sent with result 0 whenever the socket takes it: the sender checks no length. No receiver takes
  it: the receive loop of any channel that holds its header, whatever is behind it, returns an
  error, empties the buffer and runs no callback.\<close>

theorem oversize_sent_but_refused:
  assumes "channel_env_ok E p" and "Serialize (e_pb E) p m = Some s" and "unat kMaxMsgLen \<le> unat kHdrLen + length s"
    and "FullSend (e_os E) (ch_socket ch) (take 12 (message_wire E p m)) kGepSendTimeoutMs w = Some (12, w1)"
    and "FullSend (e_os E) (ch_socket ch) s kGepSendTimeoutMs w1 = Some (int (length s), w')"
    and "chan_ok receiver" and "content receiver = take 12 (message_wire E p m) @ rest"
  shows "SendMessage E p ch m w = Some (0, w') \<and>
    sent_on (ch_socket ch) (w_trace w') = sent_on (ch_socket ch) (w_trace w) @ message_wire E p m \<and>
    RecvString F q receiver rw = Some (CMD_ERROR, SetLen 0 receiver, rw)"
proof -
  have len: "length s < 2147483648" "1048564 \<le> length s" "s \<noteq> []"
    using channel_env_okD(6) [OF assms(1,2)] assms(3) by auto
  have n: "unat (of_nat (length s) :: u32) = length s" using len(1) by (simp add: unat_of_nat)
  let ?h = "header_bytes (pr_magic p) (vt_GetTag (e_vt E) m) (of_nat (length s))"
  have f: "message_wire E p m = ?h @ s" by (simp add: message_wire_def assms(2) frame_bytes_def)
  have si: "si_FullSend (e_si E) = FullSend (e_os E)"
    using channel_env_okD(1) [OF assms(1)] by (simp add: SocketInterface_of_def)
  have nar: "narrow32 (int (length s)) = int (length s)" using len(1) by (intro narrow32_id) (simp add: i32_ok_def)
  have "SendMessage E p ch m w = SendTLV E p ch (vt_GetTag (e_vt E) m) (int (length s)) (Some s) w"
    by (simp add: SendMessage_def SendString_def assms(2) nar)
  then have sm: "SendMessage E p ch m w = Some (0, w')"
    using assms(4,5) len(3) by (simp add: SendTLV_eq [OF len(1)] SendData_def si f)
  have c: "12 \<le> length (content receiver)" "UINT32 (take 4 (drop 8 (content receiver))) = of_nat (length s)"
    unfolding assms(7) f by (simp_all add: header_bytes_def)
  have "RecvString F q receiver rw = Some (CMD_ERROR, SetLen 0 receiver, rw)"
    using RecvString_bad_header [OF assms(6) c(1)] c(2) len(2) n by simp
  moreover have "sent_on (ch_socket ch) (w_trace w') = sent_on (ch_socket ch) (w_trace w) @ message_wire E p m"
    using SendMessage_prefix [OF assms(1) sm] by (auto simp: send_post_def sends_sent_on split: if_splits)
  ultimately show ?thesis using sm by blast
qed

definition big_value :: "u8 list" where
  "big_value = replicate 1048564 0"

lemma length_big_value: "length big_value = 1048564"
  unfolding big_value_def by (rule length_replicate)

theorem oversize_sent_but_refused_witness:
  "\<exists>w'. SendMessage raw_env raw_proto demo_channel (5, big_value) demo_sender_world = Some (0, w') \<and>
     RecvString raw_env raw_proto (loaded (take 12 (message_wire raw_env raw_proto (5, big_value)))) demo_receiver_world =
       Some (CMD_ERROR, SetLen 0 (loaded (take 12 (message_wire raw_env raw_proto (5, big_value)))), demo_receiver_world)"
proof -
  have x: "big_value \<noteq> [120]"
  proof
    assume "big_value = [120]"
    then have "length big_value = length [120 :: u8]" by (rule arg_cong)
    then show False using length_big_value by simp
  qed
  have s: "Serialize (e_pb raw_env) raw_proto (5, big_value) = Some big_value"
    using x by (simp add: raw_env_def raw_Serialize length_big_value)
  let ?h = "take 12 (message_wire raw_env raw_proto (5, big_value))"
  have "message_wire raw_env raw_proto (5, big_value) = header_bytes kMagic 5 (of_nat (length big_value)) @ big_value"
    unfolding message_wire_def s by (simp add: frame_bytes_def)
  then have h: "length ?h = 12" by (simp only: length_take length_append length_header_bytes)
  have w: "sc_send (w_os demo_sender_world) = []" "sc_clock_ms (w_os demo_sender_world) = []"
    by (simp_all add: demo_sender_world_def raw_world_def quiet_script_def)
  have f1: "FullSend (e_os raw_env) (ch_socket demo_channel) ?h kGepSendTimeoutMs demo_sender_world =
      Some (12, sent 4 ?h demo_sender_world)"
    using script_FullSend [OF w, of 4 ?h] h by (simp add: demo_channel_def)
  have f2: "FullSend (e_os raw_env) (ch_socket demo_channel) big_value kGepSendTimeoutMs (sent 4 ?h demo_sender_world) =
      Some (int (length big_value), sent 4 big_value (sent 4 ?h demo_sender_world))"
    using script_FullSend [of "sent 4 ?h demo_sender_world" 4 big_value] w by (simp add: demo_channel_def)
  have big: "unat kMaxMsgLen \<le> unat kHdrLen + length big_value" by (simp add: length_big_value)
  have ok: "chan_ok (loaded ?h)" using h by (intro loaded_ok) linarith
  have c: "content (loaded ?h) = ?h @ []" by simp
  show ?thesis
    using oversize_sent_but_refused [OF raw_channel_env_ok s big f1 f2 ok c] by blast
qed

text \<open>C14: After a send that stopped inside the value of a message, the channel stays open and
  the next send can be reported a success; but its message, when it is short enough to fit into
  what is missing of the first, is swallowed: the receiver sees no frame at all.\<close>

theorem lost_after_short_send:
  assumes "channel_env_ok E p"
    and "SendMessage E p ch m1 w = Some (-1, w1)"
    and "sent_on (ch_socket ch) (w_trace w1) = sent_on (ch_socket ch) (w_trace w) @ take k (message_wire E p m1)"
    and "12 \<le> k" and "Serialize (e_pb E) p m1 = Some s1" and "length s1 < max_value_len"
    and "SendMessage E p ch m2 w1 = Some (0, w2)"
    and "k + length (message_wire E p m2) < length (message_wire E p m1)"
  shows "let stream = take k (message_wire E p m1) @ message_wire E p m2 in
    sent_on (ch_socket ch) (w_trace w2) = sent_on (ch_socket ch) (w_trace w) @ stream \<and>
    parse_frames (pr_magic p) stream = ([], More stream)"
proof -
  let ?m1 = "message_wire E p m1" and ?m2 = "message_wire E p m2"
  obtain j where j: "j \<le> length ?m2" "sends (ch_socket ch) (take j ?m2) w1 w2"
    "(0 :: int) = (if Serialize (e_pb E) p m2 \<noteq> None \<and> j = length ?m2 then 0 else -1)"
    using SendMessage_prefix [OF assms(1,7)] unfolding send_post_def by blast
  then have s: "sends (ch_socket ch) ?m2 w1 w2" by (simp split: if_splits)
  have n: "unat (of_nat (length s1) :: u32) = length s1"
    using assms(6) by (simp add: max_value_len_def unat_of_nat)
  have f: "?m1 = header_bytes (pr_magic p) (vt_GetTag (e_vt E) m1) (of_nat (length s1)) @ s1"
    by (simp add: message_wire_def assms(5) frame_bytes_def)
  obtain i where i: "k = 12 + i" using assms(4) le_Suc_ex by blast
  let ?st = "take k ?m1 @ ?m2"
  have st: "?st = header_bytes (pr_magic p) (vt_GetTag (e_vt E) m1) (of_nat (length s1)) @ take i s1 @ ?m2"
    unfolding f i by simp
  have "parse_frames (pr_magic p) ?st = ([], More ?st)"
  proof (rule parse_wait)
    show "12 \<le> length ?st" "UINT32 (take 4 ?st) = pr_magic p"
      "length s1 = unat (UINT32 (take 4 (drop 8 ?st)))" "length s1 < max_value_len"
      using n assms(6) unfolding st by (simp_all add: header_bytes_def)
    show "length ?st < 12 + length s1"
      using assms(8) unfolding st f i by simp
  qed
  then show ?thesis using sends_sent_on [OF s] assms(3) by (simp add: Let_def)
qed

theorem lost_after_short_send_witness:
  "\<exists>w1 w2. SendMessage raw_env raw_proto demo_channel (5, [1, 2, 3, 4, 5, 6, 7, 8, 9, 10, 11, 12, 13])
       (raw_world (quiet_script\<lparr>sc_send := [Accepted 12, Send_failed EAGAIN]\<rparr>)) = Some (-1, w1) \<and>
     SendMessage raw_env raw_proto demo_channel (7, []) w1 = Some (0, w2) \<and>
     (let stream = header_bytes kMagic 5 13 @ header_bytes kMagic 7 0 in
        sent_on 4 (w_trace w2) = stream \<and> parse_frames kMagic stream = ([], More stream))"
proof -
  let ?m1 = "(5, [1, 2, 3, 4, 5, 6, 7, 8, 9, 10, 11, 12, 13]) :: raw_msg"
  let ?w = "raw_world (quiet_script\<lparr>sc_send := [Accepted 12, Send_failed EAGAIN]\<rparr>)"
  have "map_option (\<lambda>(r, w). (r, sent_on 4 (w_trace w), w_os w)) (FullSend script_os 4 (header_bytes kMagic 5 13) 5 ?w) =
      Some (12, header_bytes kMagic 5 13, quiet_script\<lparr>sc_send := [Send_failed EAGAIN]\<rparr>)"
    by code_simp
  then obtain w0 where f1: "FullSend script_os 4 (header_bytes kMagic 5 13) 5 ?w = Some (12, w0)"
    "sent_on 4 (w_trace w0) = header_bytes kMagic 5 13" "w_os w0 = quiet_script\<lparr>sc_send := [Send_failed EAGAIN]\<rparr>"
    by auto
  obtain w1 where f2: "FullSend script_os 4 (snd ?m1) 5 w0 = Some (0, w1)" "sent_on 4 (w_trace w1) = sent_on 4 (w_trace w0)"
    "w_os w1 = quiet_script"
    using f1(3)
    by (simp add: FullSend_def FullSend_loop.simps FullSend_round_def ms_elapse_def get_now_ns_def script_os_def
      chk64_def i64_ok_def to_u64_def kNsecsPerSec_def kNsecsPerMsec_def quiet_script_def Raw_Send_def
      u64_to_i64_def EAGAIN_def EWOULDBLOCK_def FD_SET_def FD_SETSIZE_def Raw_Select_def)
  have s1: "SendMessage raw_env raw_proto demo_channel ?m1 ?w = Some (-1, w1)"
    using f1(1) f2(1) by (simp add: raw_SendMessage_eq demo_channel_def)
  obtain w2 where s2: "SendMessage raw_env raw_proto demo_channel (7, []) w1 = Some (0, w2)"
    using raw_SendMessage [of w1 "[]" demo_channel 7] f2(3) by (simp add: quiet_script_def)
  have m: "message_wire raw_env raw_proto ?m1 = header_bytes kMagic 5 13 @ [1, 2, 3, 4, 5, 6, 7, 8, 9, 10, 11, 12, 13]"
    "message_wire raw_env raw_proto (7, []) = header_bytes kMagic 7 0"
    by (simp_all add: message_wire_def raw_env_def raw_vt_def raw_Serialize frame_bytes_def)
  have "let stream = take 12 (message_wire raw_env raw_proto ?m1) @ message_wire raw_env raw_proto (7, []) in
      sent_on (ch_socket demo_channel) (w_trace w2) = sent_on (ch_socket demo_channel) (w_trace ?w) @ stream \<and>
      parse_frames (pr_magic raw_proto) stream = ([], More stream)"
    by (rule lost_after_short_send [OF raw_channel_env_ok s1 _ _ _ _ s2, where ?s1.0 = "snd ?m1"])
      (simp_all add: m f1(2) f2(2) demo_channel_def raw_world_def raw_Serialize max_value_len_def)
  then show ?thesis
    using s1 s2 by (auto simp: m Let_def demo_channel_def raw_world_def)
qed

section \<open>Framing and encoding\<close>

text \<open>Scanning a printed header gives back its tag and length, with the magic number
  accepted, and printing touches nothing beyond the header.\<close>

theorem header_round_trip:
  assumes "12 \<le> cap"
  shows "\<exists>m'. PrintHeader p tag value_len cap m 0 = Some m' \<and> ScanHeader p cap m' 0 = Some (True, tag, value_len) \<and>
    (\<forall>i \<ge> 12. m' i = m i)"
proof -
  obtain m' where m': "PrintHeader p tag value_len cap m 0 = Some m'" using PrintHeader_defined [OF assms] by blast
  note b = PrintHeader_bytes [OF m']
  have parts: "bytes_at m' 0 4 = take 4 (bytes_at m' 0 12)" "bytes_at m' 4 4 = take 4 (drop 4 (bytes_at m' 0 12))"
    "bytes_at m' 8 4 = drop 8 (bytes_at m' 0 12)"
    by (simp_all add: mem_simps)
  have "ScanHeader p cap m' 0 = Some (True, tag, value_len)"
    unfolding ScanHeader_bytes [OF assms] parts b by (simp add: header_bytes_def)
  moreover have "\<forall>i \<ge> 12. m' i = m i"
    using m' assms by (auto simp: PrintHeader_def hdr_consts poke_def split: if_splits)
  ultimately show ?thesis using m' by blast
qed

theorem header_round_trip_witness:
  "\<exists>m'. PrintHeader raw_proto 5 9 12 (\<lambda>_. 0) 0 = Some m' \<and> ScanHeader raw_proto 12 m' 0 = Some (True, 5, 9)"
  using header_round_trip [of 12 raw_proto 5 9 "\<lambda>_. 0"] by auto

text \<open>A message that serializes unserializes, into an object its protocol makes for its
  tag, to the same message, in text and in binary mode and in the lite build.\<close>

theorem codec_round_trip:
  assumes "codec_ok pb vt" and "vt_GetMessage vt (vt_GetTag vt m) = Some e" and "Serialize pb p m = Some s"
  shows "Unserialize pb p s e = Some m"
  by (rule Unserialize_Serialize [OF assms])

theorem codec_round_trip_witness:
  "Serialize raw_pb (SetMode MODE_BINARY raw_proto) (5, []) = Some [] \<and>
   Unserialize raw_pb (SetMode MODE_BINARY raw_proto) [] (5, []) = Some (5, [])"
proof -
  have s: "Serialize raw_pb (SetMode MODE_BINARY raw_proto) (5, []) = Some []"
    by (simp add: Serialize_def raw_pb_def SetMode_def)
  show ?thesis
    using s codec_round_trip [OF raw_codec_ok _ s, of "(5, [])"] by (simp add: raw_vt_def)
qed

text \<open>A frame as the sender puts it together: the header printed into its 12-byte buffer, and the value.\<close>

definition printed_frame :: "proto \<Rightarrow> u32 \<times> u8 list \<Rightarrow> u8 list option" where
  "printed_frame p f = do {
     buf \<leftarrow> PrintHeader p (fst f) (of_nat (length (snd f))) (unat kHdrLen) (\<lambda>_. 0) 0;
     hdr \<leftarrow> peek (unat kHdrLen) buf 0 (unat kHdrLen);
     Some (hdr @ snd f)
   }"

lemma printed_frame_eq: "printed_frame p f = Some (frame_bytes (pr_magic p) f)"
proof -
  obtain buf where "PrintHeader p (fst f) (of_nat (length (snd f))) 12 (\<lambda>_. 0) 0 = Some buf"
    "bytes_at buf 0 12 = header_bytes (pr_magic p) (fst f) (of_nat (length (snd f)))"
    using PrintHeader_12 by blast
  then show ?thesis by (simp add: printed_frame_def peek_def frame_bytes_def)
qed

lemma run_frames_append:
  assumes "run_frames E p cid (fs @ gs) w = Some (None, w')"
  shows "\<exists>w1. run_frames E p cid fs w = Some (None, w1) \<and> run_frames E p cid gs w1 = Some (None, w')"
  using assms by (induction fs arbitrary: w) (auto split: option.splits if_splits)

lemma parse_More_length: "snd (parse_frames magic bs) = More r \<Longrightarrow> length r \<le> length bs"
proof (induction magic bs rule: parse_frames.induct)
  case (1 magic bs)
  then show ?case
    by (subst (asm) (2) parse_frames.simps) (fastforce simp: Let_def case_prod_beta split: if_splits)
qed

text \<open>C15: Framing round-trips through the code of both sides. Frames put together as the sender does,
  with \<open>PrintHeader\<close>, and handed to the receive loop of a channel in two pieces, cut anywhere (inside
  a header or a value too), are unpacked to exactly those tags and values: after the second piece
  the channel is in the world that handling the frames one by one leads to, its buffer is empty, and
  no error was returned on the way. Assumed: each header and value together are shorter than
  \<open>kMaxMsgLen\<close>, and every frame is accepted.\<close>

theorem framing_round_trip:
  assumes "list_all (\<lambda>f. unat kHdrLen + length (snd f) < unat kMaxMsgLen) fs"
    and "map (printed_frame p) fs = map Some printed" and "concat printed = first @ second"
    and "run_frames E p (ch_id ch) fs w = Some (None, w')"
    and "chan_ok ch" and "content ch = first"
  shows "\<exists>r ch1 w1. RecvString E p ch w = Some (r, ch1, w1) \<and> r \<noteq> CMD_ERROR \<and> same_conn ch ch1 \<and>
    length (content ch1) \<le> length first \<and>
    (\<forall>ch2. chan_ok ch2 \<and> same_conn ch ch2 \<and> content ch2 = content ch1 @ second \<longrightarrow>
      (\<exists>ch3. RecvString E p ch2 w1 = Some (CMD_OK, ch3, w') \<and> same_conn ch ch3 \<and> content ch3 = []))"
proof -
  have "list_all (\<lambda>f. length (snd f) < max_value_len) fs"
    using assms(1) by (auto simp: list_all_iff max_value_len_def)
  moreover have "printed_frame p = Some \<circ> frame_bytes (pr_magic p)" by (rule ext) (simp add: printed_frame_eq)
  then have "map Some printed = map Some (map (frame_bytes (pr_magic p)) fs)" using assms(2) by simp
  then have "printed = map (frame_bytes (pr_magic p)) fs" by (rule map_injective) simp
  ultimately have all: "parse_frames (pr_magic p) (first @ second) = (fs, More [])"
    using parse_frames_bytes [of fs "pr_magic p" "[]"] assms(3) by (simp add: parse_short)
  obtain gs x where g: "parse_frames (pr_magic p) first = (gs, More x)" using parse_prefix [OF all] by blast
  let ?hs = "fst (parse_frames (pr_magic p) (x @ second))"
  have h: "fs = gs @ ?hs" "parse_frames (pr_magic p) (x @ second) = (?hs, More [])"
    using all g parse_append [of "pr_magic p" first second] by (auto simp: prod_eq_iff)
  obtain w1 where w1: "run_frames E p (ch_id ch) gs w = Some (None, w1)" "run_frames E p (ch_id ch) ?hs w1 = Some (None, w')"
    using run_frames_append assms(4) h(1) by metis
  obtain ch1 where ch1: "RecvString E p ch w = Some (end_result (More x), ch1, w1)" "same_conn ch ch1" "content ch1 = x"
    using RecvString_refines [of ch p gs "More x" E w] g w1(1) assms(5,6) by auto
  have "\<exists>ch3. RecvString E p ch2 w1 = Some (CMD_OK, ch3, w') \<and> same_conn ch ch3 \<and> content ch3 = []"
    if "chan_ok ch2 \<and> same_conn ch ch2 \<and> content ch2 = content ch1 @ second" for ch2
    using RecvString_refines [of ch2 p ?hs "More []" E w1] that h(2) ch1(3) w1(2) by (auto simp: same_conn_def)
  moreover have "length (content ch1) \<le> length first"
    using parse_More_length [of "pr_magic p" first x] g ch1(3) by simp
  moreover have "end_result (More x) \<noteq> CMD_ERROR" by (simp add: end_result_ok)
  ultimately show ?thesis using ch1(1,2) by blast
qed

text \<open>The three frames of the demonstration, cut inside the value of the second.\<close>

theorem framing_round_trip_witness:
  "\<exists>r ch1 w1 ch3 w'. RecvString raw_env raw_proto (loaded (take 26 demo_stream)) demo_receiver_world = Some (r, ch1, w1) \<and>
     RecvString raw_env raw_proto (loaded (content ch1 @ drop 26 demo_stream)) w1 = Some (CMD_OK, ch3, w') \<and>
     run_frames raw_env raw_proto 7 demo_frames demo_receiver_world = Some (None, w') \<and> content ch3 = []"
proof -
  let ?ch = "loaded (take 26 demo_stream)"
  obtain w' where w: "run_frames raw_env raw_proto (ch_id ?ch) demo_frames demo_receiver_world = Some (None, w')"
    by (simp add: demo_frames_def raw_RecvTLV IsRecoverable_def)
  have p: "map (printed_frame raw_proto) demo_frames = map Some (map (frame_bytes kMagic) demo_frames)"
    by (simp add: printed_frame_eq)
  have c: "concat (map (frame_bytes kMagic) demo_frames) = take 26 demo_stream @ drop 26 demo_stream"
    by (simp only: demo_stream_def append_take_drop_id)
  have ok: "chan_ok ?ch" by (rule loaded_ok) (simp add: demo_stream_simps)
  have l: "list_all (\<lambda>f. unat kHdrLen + length (snd f) < unat kMaxMsgLen) demo_frames" by (simp add: demo_frames_def)
  obtain r ch1 w1 where one: "RecvString raw_env raw_proto ?ch demo_receiver_world = Some (r, ch1, w1)"
    "length (content ch1) \<le> length (take 26 demo_stream)"
    and two: "\<And>ch2. chan_ok ch2 \<and> same_conn ?ch ch2 \<and> content ch2 = content ch1 @ drop 26 demo_stream \<Longrightarrow>
      \<exists>ch3. RecvString raw_env raw_proto ch2 w1 = Some (CMD_OK, ch3, w') \<and> same_conn ?ch ch3 \<and> content ch3 = []"
    using framing_round_trip [OF l p c w ok loaded_simps(1)] by blast
  have "chan_ok (loaded (content ch1 @ drop 26 demo_stream))"
    using one(2) by (intro loaded_ok) (simp add: demo_stream_simps)
  then show ?thesis
    using one(1) two [of "loaded (content ch1 @ drop 26 demo_stream)"] w by (auto simp: same_conn_def)
qed

end
