(* ===== verification/Gep_Senders.thy ===== *)
theory Gep_Senders
  imports Gep_End_To_End
begin

text \<open>
  Several threads sending on one channel. \<open>SendTLV\<close> holds \<open>socket_lock_\<close> from its first line to
  its return, so its two sends, of the header and of the value, are steps between which other
  threads run, but no other sender. Here the lock, the place of each thread in \<open>SendTLV\<close> and
  the history of what was returned are explicit (\<open>sending_step\<close>), and whatever else happens
  in the program happens between the steps (\<open>sender_step\<close>).
\<close>

section \<open>The two halves of SendTLV\<close>

definition send_header ::
  "('w, 'm) gep_env \<Rightarrow> proto \<Rightarrow> channel \<Rightarrow> u32 \<Rightarrow> u8 list \<Rightarrow> ('w, 'm) world \<Rightarrow> (int \<times> ('w, 'm) world) option"
where
  "send_header E p ch tag value w = do {
     _ \<leftarrow> TagString kMaxTagString (e_uninit E) tag (int kMaxTagString);
     buf \<leftarrow> PrintHeader p tag (to_u32 (int (length value))) (unat kHdrLen) (e_uninit E) 0;
     hdr \<leftarrow> peek (unat kHdrLen) buf 0 (unat kHdrLen);
     SendData E ch hdr w
   }"

definition send_value ::
  "('w, 'm) gep_env \<Rightarrow> channel \<Rightarrow> u8 list \<Rightarrow> ('w, 'm) world \<Rightarrow> (int \<times> ('w, 'm) world) option" where
  "send_value E ch value w = SendData E ch value w"

lemma send_header_eq:
  "send_header E p ch tag v w = SendData E ch (header_bytes (pr_magic p) tag (of_nat (length v))) w"
proof -
  obtain r where r: "TagString kMaxTagString (e_uninit E) tag (int kMaxTagString) = Some r"
    using TagString_defined by blast
  obtain buf where b: "PrintHeader p tag (of_nat (length v)) 12 (e_uninit E) 0 = Some buf"
    "bytes_at buf 0 12 = header_bytes (pr_magic p) tag (of_nat (length v))"
    using PrintHeader_12 by blast
  have "to_u32 (int (length v)) = of_nat (length v)" by (simp add: to_u32_def)
  then show ?thesis by (simp add: send_header_def r b peek_def)
qed

text \<open>Done by one thread without a pause, the two halves are \<open>SendTLV\<close>.\<close>

lemma SendTLV_halves:
  assumes "length v < 2147483648"
  shows "SendTLV E p ch tag (int (length v)) (Some v) w = do {
     (ret1, w) \<leftarrow> send_header E p ch tag v w;
     if ret1 \<noteq> int (unat kHdrLen) then Some (-1, w)
     else if v = [] then Some (0, w)
     else do {
       (ret2, w) \<leftarrow> send_value E ch v w;
       if ret2 \<noteq> int (length v) then Some (-1, w) else Some (0, w)
     }
   }"
  by (simp add: SendTLV_eq [OF assms] send_header_eq send_value_def cong del: if_weak_cong)

section \<open>Threads\<close>

datatype sender_pc =
    Sn_Idle
  | Sn_Call u32 "u8 list"
  | Sn_Header u32 "u8 list"
  | Sn_Value u32 "u8 list"

record ('w, 'm) senders =
  sn_pc :: "nat \<Rightarrow> sender_pc"
  sn_lock :: "nat option"
  sn_returned :: "(u32 \<times> u8 list \<times> int) list"
  sn_world :: "('w, 'm) world"

definition senders_new :: "('w, 'm) world \<Rightarrow> ('w, 'm) senders" where
  "senders_new w = \<lparr>sn_pc = (\<lambda>_. Sn_Idle), sn_lock = None, sn_returned = [], sn_world = w\<rparr>"

text \<open>Returning from \<open>SendTLV\<close> gives the lock back.\<close>

definition sn_return ::
  "nat \<Rightarrow> u32 \<Rightarrow> u8 list \<Rightarrow> int \<Rightarrow> ('w, 'm) world \<Rightarrow> ('w, 'm) senders \<Rightarrow> ('w, 'm) senders" where
  "sn_return t tag v r w s = s\<lparr>sn_pc := (sn_pc s)(t := Sn_Idle), sn_lock := None,
     sn_returned := sn_returned s @ [(tag, v, r)], sn_world := w\<rparr>"

inductive sending_step ::
  "('w, 'm) gep_env \<Rightarrow> proto \<Rightarrow> channel \<Rightarrow> ('w, 'm) senders \<Rightarrow> ('w, 'm) senders \<Rightarrow> bool"
  for E p ch where
  call: "sn_pc s t = Sn_Idle \<Longrightarrow> length v < 2147483648 \<Longrightarrow>
    sending_step E p ch s (s\<lparr>sn_pc := (sn_pc s)(t := Sn_Call tag v)\<rparr>)"
| lock: "sn_pc s t = Sn_Call tag v \<Longrightarrow> sn_lock s = None \<Longrightarrow>
    sending_step E p ch s (s\<lparr>sn_pc := (sn_pc s)(t := Sn_Header tag v), sn_lock := Some t\<rparr>)"
| header: "sn_pc s t = Sn_Header tag v \<Longrightarrow> send_header E p ch tag v (sn_world s) = Some (r, w') \<Longrightarrow>
    sending_step E p ch s
      (if r \<noteq> int (unat kHdrLen) then sn_return t tag v (-1) w' s
       else if v = [] then sn_return t tag v 0 w' s
       else s\<lparr>sn_pc := (sn_pc s)(t := Sn_Value tag v), sn_world := w'\<rparr>)"
| body: "sn_pc s t = Sn_Value tag v \<Longrightarrow> send_value E ch v (sn_world s) = Some (r, w') \<Longrightarrow>
    sending_step E p ch s (sn_return t tag v (if r \<noteq> int (length v) then -1 else 0) w' s)"

inductive sender_step ::
  "('w, 'm) gep_env \<Rightarrow> proto \<Rightarrow> channel \<Rightarrow> ('w, 'm) senders \<Rightarrow> ('w, 'm) senders \<Rightarrow> bool"
  for E p ch where
  sends: "sending_step E p ch s s' \<Longrightarrow> sender_step E p ch s s'"
| other: "sent_on (ch_socket ch) (w_trace w') = sent_on (ch_socket ch) (w_trace (sn_world s)) \<Longrightarrow>
    sender_step E p ch s (s\<lparr>sn_world := w'\<rparr>)"

text \<open>A call that no other thread's step interrupts is \<open>SendTLV\<close>.\<close>

lemma sending_runs_SendTLV:
  assumes "sn_pc s t = Sn_Call tag v" and "sn_lock s = None" and "length v < 2147483648"
    and "SendTLV E p ch tag (int (length v)) (Some v) (sn_world s) = Some (r, w')"
  shows "(sending_step E p ch)\<^sup>*\<^sup>* s (sn_return t tag v r w' s)"
proof -
  let ?s1 = "s\<lparr>sn_pc := (sn_pc s)(t := Sn_Header tag v), sn_lock := Some t\<rparr>"
  have s1: "sending_step E p ch s ?s1" by (rule sending_step.lock [OF assms(1,2)])
  obtain r1 w1 where h: "send_header E p ch tag v (sn_world s) = Some (r1, w1)"
    and rest: "(if r1 \<noteq> 12 then Some (-1, w1) else if v = [] then Some (0, w1)
       else do { (r2, w) \<leftarrow> send_value E ch v w1;
                 if r2 \<noteq> int (length v) then Some (-1, w) else Some (0, w) }) = Some (r, w')"
    using assms(4) unfolding SendTLV_halves [OF assms(3)] by (auto split: bind_splits)
  have s2: "sending_step E p ch ?s1 (if r1 \<noteq> int (unat kHdrLen) then sn_return t tag v (-1) w1 ?s1
      else if v = [] then sn_return t tag v 0 w1 ?s1
      else ?s1\<lparr>sn_pc := (sn_pc ?s1)(t := Sn_Value tag v), sn_world := w1\<rparr>)"
    by (rule sending_step.header) (simp_all add: h)
  show ?thesis
  proof (cases "r1 = 12 \<and> v \<noteq> []")
    case False
    then have "sending_step E p ch ?s1 (sn_return t tag v r w' s)"
      using s2 rest by (auto simp: sn_return_def split: if_splits)
    then show ?thesis using s1 by (meson r_into_rtranclp rtranclp.rtrancl_into_rtrancl)
  next
    case True
    let ?s2 = "?s1\<lparr>sn_pc := (sn_pc ?s1)(t := Sn_Value tag v), sn_world := w1\<rparr>"
    obtain r2 where v: "send_value E ch v w1 = Some (r2, w')" "r = (if r2 \<noteq> int (length v) then -1 else 0)"
      using True rest by (auto split: bind_splits if_splits)
    have "sending_step E p ch ?s2 (sn_return t tag v (if r2 \<noteq> int (length v) then -1 else 0) w' ?s2)"
      by (rule sending_step.body) (simp_all add: v)
    then have "sending_step E p ch ?s2 (sn_return t tag v r w' s)" using v(2) by (simp add: sn_return_def)
    moreover have "sending_step E p ch ?s1 ?s2" using s2 True by simp
    ultimately show ?thesis using s1 by (meson r_into_rtranclp rtranclp.rtrancl_into_rtrancl)
  qed
qed

lemma sending_steps: "(sending_step E p ch)\<^sup>*\<^sup>* s s' \<Longrightarrow> (sender_step E p ch)\<^sup>*\<^sup>* s s'"
  by (erule rtranclp_mono [THEN predicate2D, rotated]) (auto intro: sender_step.sends)

section \<open>Mutual exclusion and the stream\<close>

text \<open>What the thread that holds the lock has put on the socket.\<close>

definition half_sent :: "proto \<Rightarrow> ('w, 'm) senders \<Rightarrow> u8 list" where
  "half_sent p s =
     (case sn_lock s of
        None \<Rightarrow> []
      | Some t \<Rightarrow> (case sn_pc s t of
          Sn_Value tag v \<Rightarrow> header_bytes (pr_magic p) tag (of_nat (length v))
        | _ \<Rightarrow> []))"

lemma half_sent_world [simp]: "half_sent p (s\<lparr>sn_world := w\<rparr>) = half_sent p s"
  by (simp add: half_sent_def cong: option.case_cong)

text \<open>Each call that returned put a prefix of its frame there, all of it exactly when it returned 0.\<close>

fun call_part :: "proto \<Rightarrow> u32 \<times> u8 list \<times> int \<Rightarrow> u8 list \<Rightarrow> bool" where
  "call_part p (tag, v, r) part \<longleftrightarrow>
     (\<exists>k. part = take k (frame_bytes (pr_magic p) (tag, v)) \<and> r \<in> {0, -1} \<and>
        (r = 0 \<longleftrightarrow> length (frame_bytes (pr_magic p) (tag, v)) \<le> k))"

definition returned_stream :: "proto \<Rightarrow> (u32 \<times> u8 list \<times> int) list \<Rightarrow> u8 list \<Rightarrow> bool" where
  "returned_stream p calls bs \<longleftrightarrow> (\<exists>parts. bs = concat parts \<and> list_all2 (call_part p) calls parts)"

fun has_lock :: "sender_pc \<Rightarrow> bool" where
  "has_lock (Sn_Header tag v) = True"
| "has_lock (Sn_Value tag v) = True"
| "has_lock _ = False"

fun pc_size_ok :: "sender_pc \<Rightarrow> bool" where
  "pc_size_ok Sn_Idle = True"
| "pc_size_ok (Sn_Call tag v) = (length v < 2147483648)"
| "pc_size_ok (Sn_Header tag v) = (length v < 2147483648)"
| "pc_size_ok (Sn_Value tag v) = (length v < 2147483648)"

text \<open>A thread is between taking and giving back the lock exactly when it has it.\<close>

definition locks_ok :: "('w, 'm) senders \<Rightarrow> bool" where
  "locks_ok s \<longleftrightarrow> (\<forall>t. has_lock (sn_pc s t) \<longleftrightarrow> sn_lock s = Some t) \<and> (\<forall>t. pc_size_ok (sn_pc s t))"

definition senders_inv :: "proto \<Rightarrow> channel \<Rightarrow> u8 list \<Rightarrow> ('w, 'm) senders \<Rightarrow> bool" where
  "senders_inv p ch before s \<longleftrightarrow> locks_ok s \<and>
     (\<exists>bs. returned_stream p (sn_returned s) bs \<and>
        sent_on (ch_socket ch) (w_trace (sn_world s)) = before @ bs @ half_sent p s)"

lemma locks_okD:
  assumes "locks_ok s"
  shows "has_lock (sn_pc s t) \<Longrightarrow> sn_lock s = Some t" and "\<not> has_lock (sn_pc s t) \<Longrightarrow> sn_lock s \<noteq> Some t"
    and "pc_size_ok (sn_pc s t)"
  using assms unfolding locks_ok_def by blast+

lemma locks_ok_world [simp]: "locks_ok (s\<lparr>sn_world := w\<rparr>) = locks_ok s"
  by (simp add: locks_ok_def)

lemma locks_ok_return:
  assumes "locks_ok s" and "sn_lock s = Some t"
  shows "locks_ok (sn_return t tag v r w s)" and "half_sent p (sn_return t tag v r w s) = []"
  using assms by (auto simp: locks_ok_def sn_return_def half_sent_def)

lemma returned_stream_snoc:
  assumes "returned_stream p calls bs" and "call_part p call part"
  shows "returned_stream p (calls @ [call]) (bs @ part)"
proof -
  obtain parts where "bs = concat parts" and "list_all2 (call_part p) calls parts"
    using assms(1) unfolding returned_stream_def by blast
  then show ?thesis
    using assms(2) unfolding returned_stream_def
    by (intro exI [of _ "parts @ [part]"]) (simp add: list_all2_appendI)
qed

lemma SendData_sends:
  assumes "channel_env_ok E p" and "SendData E ch buf w = Some (r, w')"
  shows "\<exists>k \<le> length buf. sends (ch_socket ch) (take k buf) w w' \<and>
    (r = int (length buf) \<longleftrightarrow> k = length buf \<or> buf = [])"
proof -
  have f: "FullSend (e_os E) (ch_socket ch) buf kGepSendTimeoutMs w = Some (r, w')" "os_send_ok (e_os E)"
    using assms channel_env_okD(1,3) [OF assms(1)] by (auto simp: SendData_def SocketInterface_of_def)
  then obtain k where "k \<le> length buf" "sends (ch_socket ch) (take k buf) w w'"
    "r = int (length buf) \<and> k = length buf \<or> r \<in> {0, -1, -2} \<and> k < length buf"
    using FullSend_law [OF f(2,1)] by blast
  then show ?thesis by (intro exI [of _ k]) auto
qed

lemma senders_inv_new: "senders_inv p ch (sent_on (ch_socket ch) (w_trace w)) (senders_new w)"
  by (auto simp: senders_inv_def locks_ok_def senders_new_def half_sent_def returned_stream_def)

text \<open>
  What a step of a sender puts on the socket: it belongs to the half-sent frame of the holder of
  the lock, or it is the rest of the part of a call that returns.
\<close>

definition sending_effect ::
  "proto \<Rightarrow> channel \<Rightarrow> ('w, 'm) senders \<Rightarrow> ('w, 'm) senders \<Rightarrow> u8 list \<Rightarrow> bool" where
  "sending_effect p ch s s' bs \<longleftrightarrow> sends (ch_socket ch) bs (sn_world s) (sn_world s') \<and>
     (sn_returned s' = sn_returned s \<and> half_sent p s' = half_sent p s @ bs \<or>
      (\<exists>call. sn_returned s' = sn_returned s @ [call] \<and> half_sent p s' = [] \<and>
         call_part p call (half_sent p s @ bs)))"

lemma sending_effect_return:
  assumes "locks_ok s" and "sn_lock s = Some t" and "sends (ch_socket ch) bs (sn_world s) w'" and "r \<in> {0, -1}"
    and "half_sent p s @ bs = take k (frame_bytes (pr_magic p) (tag, v))"
    and "r = 0 \<longleftrightarrow> length (frame_bytes (pr_magic p) (tag, v)) \<le> k"
  shows "locks_ok (sn_return t tag v r w' s) \<and> (\<exists>bs. sending_effect p ch s (sn_return t tag v r w' s) bs)"
proof -
  have "call_part p (tag, v, r) (half_sent p s @ bs)" using assms(4-6) by auto
  moreover have "sn_returned (sn_return t tag v r w' s) = sn_returned s @ [(tag, v, r)]"
    "sn_world (sn_return t tag v r w' s) = w'" by (simp_all add: sn_return_def)
  ultimately have "sending_effect p ch s (sn_return t tag v r w' s) bs"
    using assms(3) locks_ok_return(2) [OF assms(1,2)] unfolding sending_effect_def by auto
  then show ?thesis using locks_ok_return(1) [OF assms(1,2)] by blast
qed

lemma sending_step_effect:
  assumes ok: "channel_env_ok E p" and "sending_step E p ch s s'" and locks: "locks_ok s"
  shows "locks_ok s' \<and> (\<exists>bs. sending_effect p ch s s' bs)"
  using assms(2)
proof cases
  case (call t v tag)
  have "half_sent p s' = half_sent p s" "locks_ok s'"
    using locks_okD(2) [OF locks, of t] locks call
    by (auto simp: half_sent_def locks_ok_def split: option.split)
  then show ?thesis using call(1) unfolding sending_effect_def by (auto intro!: exI [of _ "[]"])
next
  case (lock t tag v)
  have "half_sent p s' = half_sent p s" "locks_ok s'"
    using locks_okD(3) [OF locks, of t] locks lock by (auto simp: half_sent_def locks_ok_def)
  then show ?thesis using lock(1) unfolding sending_effect_def by (auto intro!: exI [of _ "[]"])
next
  case (header t tag v r w')
  let ?h = "header_bytes (pr_magic p) tag (of_nat (length v))"
  have l: "sn_lock s = Some t" and len: "length v < 2147483648" and half: "half_sent p s = []"
    using locks_okD [OF locks, of t] header(2) by (auto simp: half_sent_def)
  obtain k where k: "k \<le> 12" "sends (ch_socket ch) (take k ?h) (sn_world s) w'" "r = 12 \<longleftrightarrow> k = 12"
    using SendData_sends [OF ok header(3) [unfolded send_header_eq]] by (auto simp del: take_all)
  have f: "frame_bytes (pr_magic p) (tag, v) = ?h @ v" by (simp add: frame_bytes_def)
  show ?thesis
  proof (cases "r = 12")
    case False
    then show ?thesis
      using header(1) k f half sending_effect_return [OF locks l k(2), of "-1" p k tag v] by simp
  next
    case whole: True
    then have t: "take k ?h = ?h" using k(3) by simp
    show ?thesis
    proof (cases "v = []")
      case True
      then show ?thesis
        using header(1) k whole f half sending_effect_return [OF locks l k(2), of 0 p k tag v] by simp
    next
      case False
      then have s': "s' = s\<lparr>sn_pc := (sn_pc s)(t := Sn_Value tag v), sn_world := w'\<rparr>" using header(1) whole by simp
      have "sending_effect p ch s s' ?h"
        using k(2) l half unfolding sending_effect_def s' t by (simp add: half_sent_def)
      moreover have "locks_ok s'" using locks l len unfolding s' locks_ok_def by auto
      ultimately show ?thesis by blast
    qed
  qed
next
  case (body t tag v r w')
  let ?h = "header_bytes (pr_magic p) tag (of_nat (length v))"
  have l: "sn_lock s = Some t" and half: "half_sent p s = ?h"
    using locks_okD(1) [OF locks, of t] body(2) by (auto simp: half_sent_def)
  obtain k where k: "k \<le> length v" "sends (ch_socket ch) (take k v) (sn_world s) w'"
    "r = int (length v) \<longleftrightarrow> k = length v \<or> v = []"
    using SendData_sends [OF ok body(3) [unfolded send_value_def]] by blast
  have "frame_bytes (pr_magic p) (tag, v) = ?h @ v" by (simp add: frame_bytes_def)
  then show ?thesis unfolding body(1)
    by (intro sending_effect_return [OF locks l k(2), where k = "12 + k"]) (use k in \<open>auto simp: half\<close>)
qed

lemma senders_inv_step:
  assumes "channel_env_ok E p" and "sender_step E p ch s s'" and "senders_inv p ch before s"
  shows "senders_inv p ch before s'"
  using assms(2)
proof cases
  case sends
  obtain bs where bs: "locks_ok s'" "sending_effect p ch s s' bs"
    using sending_step_effect [OF assms(1) sends] assms(3) by (auto simp: senders_inv_def)
  then have "sent_on (ch_socket ch) (w_trace (sn_world s')) = sent_on (ch_socket ch) (w_trace (sn_world s)) @ bs"
    using sends_sent_on by (auto simp: sending_effect_def)
  then show ?thesis
    using assms(3) bs returned_stream_snoc unfolding senders_inv_def sending_effect_def by fastforce
next
  case (other w')
  then show ?thesis using assms(3) unfolding senders_inv_def by simp
qed

lemma senders_reach_inv:
  assumes "channel_env_ok E p" and "(sender_step E p ch)\<^sup>*\<^sup>* (senders_new w) s"
  shows "senders_inv p ch (sent_on (ch_socket ch) (w_trace w)) s"
  using assms(2)
  by induction (auto intro: senders_inv_new senders_inv_step [OF assms(1)])

lemma returned_stream_whole:
  assumes "list_all2 (call_part p) calls parts" and "\<forall>(tag, v, r) \<in> set calls. r = 0"
  shows "parts = map (\<lambda>(tag, v, r). frame_bytes (pr_magic p) (tag, v)) calls"
  using assms by (induction rule: list_all2_induct) auto

lemma returned_stream_frames:
  "returned_stream p calls bs \<Longrightarrow> \<forall>(tag, v, r) \<in> set calls. r = 0 \<Longrightarrow>
   bs = concat (map (\<lambda>(tag, v, r). frame_bytes (pr_magic p) (tag, v)) calls)"
  using returned_stream_whole by (auto simp: returned_stream_def)

lemma senders_stream:
  assumes "channel_env_ok E p" and "(sender_step E p ch)\<^sup>*\<^sup>* (senders_new w) s" and "sn_lock s = None"
    and "\<forall>(tag, v, r) \<in> set (sn_returned s). r = 0"
  shows "sent_on (ch_socket ch) (w_trace (sn_world s)) = sent_on (ch_socket ch) (w_trace w) @
    concat (map (\<lambda>(tag, v, r). frame_bytes (pr_magic p) (tag, v)) (sn_returned s))"
proof -
  obtain parts where parts: "list_all2 (call_part p) (sn_returned s) parts"
    "sent_on (ch_socket ch) (w_trace (sn_world s)) = sent_on (ch_socket ch) (w_trace w) @ concat parts @ half_sent p s"
    using senders_reach_inv [OF assms(1,2)] unfolding senders_inv_def returned_stream_def by blast
  then show ?thesis
    using returned_stream_whole [OF parts(1) assms(4)] assms(3) by (simp add: half_sent_def)
qed

end
