(* ===== verification/Gep_Traces.thy ===== *)
theory Gep_Traces
  imports Gep_Server Gep_End_To_End
begin

text \<open>
  Reading a trace connection by connection: which descriptors are open, which client a descriptor
  belongs to, the bytes a client sent and the callbacks that ran for it; and, for each operation
  of a server, which events it adds to the trace.
\<close>

section \<open>Connections in a trace\<close>

text \<open>
  An accepted descriptor belongs to the next client that is announced, until it is closed. The
  bytes received on a descriptor are those of the client it belongs to.
\<close>

record conns =
  cn_pending :: int
  cn_owner :: "int \<Rightarrow> int option"
  cn_bytes :: "int \<Rightarrow> u8 list"

definition conns_new :: conns where
  "conns_new = \<lparr>cn_pending = -1, cn_owner = Map.empty, cn_bytes = (\<lambda>_. [])\<rparr>"

definition conn_step :: "conns \<Rightarrow> 'm event \<Rightarrow> conns" where
  "conn_step c e =
     (case e of
        Ev_accept _ fd \<Rightarrow> c\<lparr>cn_pending := fd, cn_owner := (cn_owner c)(fd := None)\<rparr>
      | Ev_add_client cid \<Rightarrow> c\<lparr>cn_owner := (cn_owner c)(cn_pending c \<mapsto> cid), cn_bytes := (cn_bytes c)(cid := [])\<rparr>
      | Ev_close fd \<Rightarrow> c\<lparr>cn_owner := (cn_owner c)(fd := None)\<rparr>
      | Ev_recv fd bs \<Rightarrow> (case cn_owner c fd of
            None \<Rightarrow> c
          | Some cid \<Rightarrow> c\<lparr>cn_bytes := (cn_bytes c)(cid := cn_bytes c cid @ bs)\<rparr>)
      | _ \<Rightarrow> c)"

definition conns_of :: "'m event list \<Rightarrow> conns" where
  "conns_of tr = foldl conn_step conns_new tr"

definition client_bytes :: "int \<Rightarrow> 'm event list \<Rightarrow> u8 list" where
  "client_bytes cid tr = cn_bytes (conns_of tr) cid"

definition callbacks_for :: "int \<Rightarrow> 'm event list \<Rightarrow> (int \<times> u32 \<times> 'm) list" where
  "callbacks_for cid tr = filter (\<lambda>d. fst d = cid) (dispatched tr)"

text \<open>
  The descriptors that are open, and what the kernel documents about new ones: none of them is
  open already.
\<close>

definition open_step :: "int set \<Rightarrow> 'm event \<Rightarrow> int set" where
  "open_step fds e =
     (case e of
        Ev_socket fd \<Rightarrow> if fd < 0 then fds else insert fd fds
      | Ev_accept _ fd \<Rightarrow> if fd < 0 then fds else insert fd fds
      | Ev_close fd \<Rightarrow> fds - {fd}
      | _ \<Rightarrow> fds)"

definition open_fds :: "'m event list \<Rightarrow> int set" where
  "open_fds tr = foldl open_step {} tr"

fun fresh_from :: "int set \<Rightarrow> 'm event list \<Rightarrow> bool" where
  "fresh_from fds [] \<longleftrightarrow> True"
| "fresh_from fds (e # es) \<longleftrightarrow>
     (case e of Ev_socket fd \<Rightarrow> fd \<notin> fds | Ev_accept _ fd \<Rightarrow> fd \<notin> fds | _ \<Rightarrow> True) \<and>
     fresh_from (open_step fds e) es"

definition fds_fresh :: "'m event list \<Rightarrow> bool" where
  "fds_fresh tr = fresh_from {} tr"

section \<open>Events that belong to no connection\<close>

definition plain :: "'m event \<Rightarrow> bool" where
  "plain e \<longleftrightarrow>
     (case e of
        Ev_socket _ \<Rightarrow> False | Ev_accept _ _ \<Rightarrow> False | Ev_close _ \<Rightarrow> False | Ev_recv _ _ \<Rightarrow> False
      | Ev_dispatch _ _ _ \<Rightarrow> False | Ev_add_client _ \<Rightarrow> False | Ev_del_client _ \<Rightarrow> False | _ \<Rightarrow> True)"

text \<open>The events of a receive: bytes from the descriptor and callbacks for the client.\<close>

definition serves :: "int \<Rightarrow> int \<Rightarrow> 'm event \<Rightarrow> bool" where
  "serves cid fd e \<longleftrightarrow> plain e \<or> (case e of Ev_recv f _ \<Rightarrow> f = fd | Ev_dispatch i _ _ \<Rightarrow> i = cid | _ \<Rightarrow> False)"

definition grows :: "('m event \<Rightarrow> bool) \<Rightarrow> ('w, 'm) world \<Rightarrow> ('w, 'm) world \<Rightarrow> bool" where
  "grows Q w w' \<longleftrightarrow> (\<exists>es. w_trace w' = w_trace w @ es \<and> list_all Q es)"

text \<open>What callbacks and the server's own hooks add to the trace.\<close>

definition callbacks_grow :: "('m event \<Rightarrow> bool) \<Rightarrow> ('w, 'm) gep_env \<Rightarrow> bool" where
  "callbacks_grow Q E \<longleftrightarrow>
     (\<forall>tag cb m cid w r w'. e_ops E tag = Some cb \<longrightarrow> cb m cid w = Some (r, w') \<longrightarrow> grows Q w w')"

definition hooks_grow :: "('m event \<Rightarrow> bool) \<Rightarrow> ('w, 'm) server_env \<Rightarrow> bool" where
  "hooks_grow Q S \<longleftrightarrow> (\<forall>cid w. grows Q w (se_AddClient S cid w) \<and> grows Q w (se_DelClient S cid w))"

text \<open>They touch no connection themselves; or they send nothing and open no socket.\<close>

definition callbacks_local :: "('w, 'm) gep_env \<Rightarrow> bool" where
  "callbacks_local E \<longleftrightarrow> callbacks_grow plain E"

definition hooks_local :: "('w, 'm) server_env \<Rightarrow> bool" where
  "hooks_local S \<longleftrightarrow> hooks_grow plain S"

definition silent :: "'m event \<Rightarrow> bool" where
  "silent e \<longleftrightarrow> (case e of Ev_send _ _ \<Rightarrow> False | Ev_socket _ \<Rightarrow> False | _ \<Rightarrow> True)"

definition callbacks_silent :: "('w, 'm) gep_env \<Rightarrow> bool" where
  "callbacks_silent E \<longleftrightarrow> callbacks_grow silent E"

definition hooks_silent :: "('w, 'm) server_env \<Rightarrow> bool" where
  "hooks_silent S \<longleftrightarrow> hooks_grow silent S"

lemma plain_simps [simp]:
  "plain (Ev_bind fd prt r)" "plain (Ev_listen fd b r)" "plain (Ev_connect fd prt r)" "plain (Ev_send fd bs)"
  "plain (Ev_select r)" "plain (Ev_setopt fd opt v r)" "plain (Ev_setfl fd r)" "plain (Ev_sleep s n)"
  "\<not> plain (Ev_socket fd)" "\<not> plain (Ev_accept l fd)" "\<not> plain (Ev_close fd)" "\<not> plain (Ev_recv fd bs)"
  "\<not> plain (Ev_dispatch cid tag m)" "\<not> plain (Ev_add_client cid)" "\<not> plain (Ev_del_client cid)"
  by (simp_all add: plain_def)

lemma silent_simps [simp]:
  "silent (Ev_recv fd bs)" "silent (Ev_dispatch cid tag m)" "silent (Ev_close fd)" "silent (Ev_select r)"
  "silent (Ev_connect fd prt r)" "silent (Ev_sleep s n)" "silent (Ev_accept l fd)" "silent (Ev_add_client cid)"
  "silent (Ev_del_client cid)"
  by (simp_all add: silent_def)

lemma grows_refl [simp]: "grows Q w w"
  by (simp add: grows_def)

lemma grows_trans: "grows Q a b \<Longrightarrow> grows Q b c \<Longrightarrow> grows Q a c"
  by (fastforce simp: grows_def)

lemma grows_mono: "grows Q a b \<Longrightarrow> (\<And>e. Q e \<Longrightarrow> Q' e) \<Longrightarrow> grows Q' a b"
  unfolding grows_def by (metis list.pred_mono_strong)

lemma grows_rel: "reflp (grows Q)" "transp (grows Q)"
  by (auto simp: reflp_def intro: transpI grows_trans)

lemma grows_emit: "Q e \<Longrightarrow> grows Q w (emit e w)"
  by (auto simp: grows_def)

lemma grows_same_trace: "w_trace w' = w_trace w \<Longrightarrow> grows Q w w'"
  by (simp add: grows_def)

lemma grows_update [simp]:
  "grows Q (w\<lparr>w_os := s\<rparr>) w' = grows Q w w'" "grows Q (w\<lparr>w_errno := e\<rparr>) w' = grows Q w w'"
  by (simp_all add: grows_def)

section \<open>What the operations add to the trace\<close>

lemma sends_plain: "sends fd bs w w' \<Longrightarrow> grows plain w w'"
proof -
  have "send_event fd e \<Longrightarrow> plain e" for e :: "'b event"
    by (cases e) (simp_all add: send_event_def)
  then show "sends fd bs w w' \<Longrightarrow> grows plain w w'"
    unfolding sends_def grows_def by (metis list.pred_mono_strong)
qed

lemma syscall_grows: "syscall f ev w = (r, w') \<Longrightarrow> (\<And>r. Q (ev r)) \<Longrightarrow> grows Q w w'"
  by (auto simp: syscall_def grows_def split: prod.splits)

lemma syscall_grows_os: "syscall f ev (w\<lparr>w_os := s\<rparr>) = (r, w') \<Longrightarrow> (\<And>r. Q (ev r)) \<Longrightarrow> grows Q w w'"
  using syscall_grows [of f ev "w\<lparr>w_os := s\<rparr>" r w' Q] by simp

text \<open>Setting up a socket and waiting on it.\<close>

definition tuning :: "'m event \<Rightarrow> bool" where
  "tuning e \<longleftrightarrow>
     (case e of
        Ev_bind _ _ _ \<Rightarrow> True | Ev_listen _ _ _ \<Rightarrow> True | Ev_setopt _ _ _ _ \<Rightarrow> True | Ev_setfl _ _ \<Rightarrow> True
      | Ev_select _ \<Rightarrow> True | _ \<Rightarrow> False)"

lemma tuning_simps [simp]:
  "tuning (Ev_bind fd prt r)" "tuning (Ev_listen fd b r)" "tuning (Ev_setopt fd opt v r)" "tuning (Ev_setfl fd r)"
  "tuning (Ev_select r)"
  by (simp_all add: tuning_def)

lemma raw_tuned:
  "Raw_Bind os fd prt w = (r, w') \<Longrightarrow> grows tuning w w'" "Raw_Listen os fd b w = (r, w') \<Longrightarrow> grows tuning w w'"
  "Raw_SetSockOpt os fd opt v w = (r, w') \<Longrightarrow> grows tuning w w'"
  by (auto simp: Raw_Bind_def Raw_Listen_def Raw_SetSockOpt_def intro: syscall_grows)

lemma settings_tuned:
  "SetNonBlocking os fd w = (r, w') \<Longrightarrow> grows tuning w w'" "SetNoDelay os fd w = (r, w') \<Longrightarrow> grows tuning w w'"
  "SetPriority os fd prio w = (r, w') \<Longrightarrow> grows tuning w w'" "SetReuseAddr os fd w = (r, w') \<Longrightarrow> grows tuning w w'"
  "GetPort_socket os fd w = (r, prt, w') \<Longrightarrow> grows tuning w w'"
  "GetPeerIP os fd cap buf sz w = Some (buf', w') \<Longrightarrow> grows tuning w w'"
  "Raw_Select os n rd wr tv w = (r, rd', w') \<Longrightarrow> grows tuning w w'"
proof -
  show "SetNonBlocking os fd w = (r, w') \<Longrightarrow> grows tuning w w'"
    by (auto simp: SetNonBlocking_def Let_def split: prod.splits if_splits
        intro: grows_same_trace syscall_grows_os)
  show "GetPort_socket os fd w = (r, prt, w') \<Longrightarrow> grows tuning w w'"
    by (auto simp: GetPort_socket_def Raw_GetSockName_def Let_def split: prod.splits if_splits
        intro: grows_same_trace)
  show "GetPeerIP os fd cap buf sz w = Some (buf', w') \<Longrightarrow> grows tuning w w'"
    by (auto simp: GetPeerIP_def Let_def split: prod.splits option.splits if_splits bind_splits
        intro: grows_same_trace)
  show "Raw_Select os n rd wr tv w = (r, rd', w') \<Longrightarrow> grows tuning w w'"
    by (auto simp: Raw_Select_def grows_def split: prod.splits)
qed (auto simp: SetNoDelay_def SetPriority_def SetReuseAddr_def Let_def
      split: prod.splits if_splits intro: raw_tuned)

lemma plain_tuning: "tuning e \<Longrightarrow> plain e"
  by (simp add: tuning_def plain_def split: event.splits)

lemma silent_tuning: "tuning e \<Longrightarrow> silent e"
  by (simp add: tuning_def silent_def split: event.splits)

lemma tuning_plain: "grows tuning w w' \<Longrightarrow> grows plain w w'"
  by (erule grows_mono) (rule plain_tuning)

lemmas settings_plain = settings_tuned [THEN tuning_plain]

text \<open>The calls that open and close a descriptor.\<close>

lemma open_close_trace:
  "Raw_Socket os w = (r, w') \<Longrightarrow> w_trace w' = w_trace w @ [Ev_socket r]"
  "Raw_Accept os l w = (r, w') \<Longrightarrow> w_trace w' = w_trace w @ [Ev_accept l r]"
  "w_trace (os_close os fd w) = w_trace w @ [Ev_close fd]"
  by (auto simp: Raw_Socket_def Raw_Accept_def os_close_def syscall_def split: prod.splits)

text \<open>A receive adds the bytes of its descriptor, its callbacks and what these add.\<close>

lemma RecvTLV_grows:
  assumes "RecvTLV E p cid tag v w = Some (r, w')" and "callbacks_grow Q E" and "\<And>m. Q (Ev_dispatch cid tag m)"
  shows "grows Q w w'"
proof -
  have cb: "grows Q w1 w2" if "e_ops E tag = Some cb" "cb m cid w1 = Some (r', w2)" for cb m w1 r' w2
    using assms(2) that unfolding callbacks_grow_def by blast
  have "grows Q w (emit (Ev_dispatch cid tag m) w)" for m using assms(3) by (rule grows_emit)
  then show ?thesis
    using assms(1) cb grows_trans by (fastforce simp: RecvTLV_eq split: option.splits if_splits)
qed

lemma RecvData_grows:
  assumes "channel_env_ok E p" and "callbacks_grow Q E" and "RecvData E p ch w = Some (r, ch', w')"
    and "\<And>tag m. Q (Ev_dispatch (ch_id ch) tag m)" and "\<And>bs. Q (Ev_recv (ch_socket ch) bs)"
  shows "grows Q w w'"
proof (rule RecvData_keeps [OF assms(3) grows_rel])
  show "grows Q w w'" if "RecvTLV E p (ch_id ch) tag v w = Some (r, w')" for tag v w r w'
    using RecvTLV_grows [OF that assms(2,4)] .
  show "grows Q w w'" if "si_Recv (e_si E) (ch_socket ch) n w = (ret, bs, w')" for n ret bs w'
    using sock.recv_law [OF channel_env_okD(3) [OF assms(1)], of "ch_socket ch" n w ret bs w'] that
      channel_env_okD(2) [OF assms(1)] assms(5)
    by (auto simp: grows_def)
qed

lemma RecvData_serves:
  assumes "channel_env_ok E p" and "callbacks_local E" and "RecvData E p ch w = Some (r, ch', w')"
  shows "grows (serves (ch_id ch) (ch_socket ch)) w w'"
proof (rule RecvData_grows [OF assms(1) _ assms(3)])
  have "grows plain x y \<Longrightarrow> grows (serves (ch_id ch) (ch_socket ch)) x y" for x y :: "('a, 'b) world"
    by (erule grows_mono) (simp add: serves_def)
  then show "callbacks_grow (serves (ch_id ch) (ch_socket ch)) E"
    using assms(2) unfolding callbacks_local_def callbacks_grow_def by blast
qed (simp_all add: serves_def)

lemma RecvData_silent:
  "channel_env_ok E p \<Longrightarrow> callbacks_silent E \<Longrightarrow> RecvData E p ch w = Some (r, ch', w') \<Longrightarrow> grows silent w w'"
  by (rule RecvData_grows) (simp_all add: callbacks_silent_def)

lemma plain_quiet:
  fixes w :: "('w, 'm) world"
  assumes "grows plain w w'"
  shows "quiet w w'"
proof -
  have "list_all plain es \<Longrightarrow> dispatched es = [] \<and> received_on fd es = []" for es :: "'m event list" and fd
    by (induction es) (auto simp: plain_def dispatched_def received_on_def split: event.splits)
  then show ?thesis using assms by (auto simp: grows_def quiet_def)
qed

lemma callbacks_local_quiet: "callbacks_local E \<Longrightarrow> callbacks_quiet E"
  unfolding callbacks_local_def callbacks_grow_def callbacks_quiet_def using plain_quiet by blast

lemma hooks_trace:
  assumes "hooks_grow Q S"
  shows "\<exists>es. list_all Q es \<and> w_trace (AddClient S cid w) = w_trace w @ Ev_add_client cid # es"
    and "\<exists>es. list_all Q es \<and> w_trace (DelClient S cid w) = w_trace w @ Ev_del_client cid # es"
proof -
  have "grows Q (emit e w) (se_AddClient S cid (emit e w))" "grows Q (emit e w) (se_DelClient S cid (emit e w))" for e
    using assms unfolding hooks_grow_def by blast+
  then show "\<exists>es. list_all Q es \<and> w_trace (AddClient S cid w) = w_trace w @ Ev_add_client cid # es"
    and "\<exists>es. list_all Q es \<and> w_trace (DelClient S cid w) = w_trace w @ Ev_del_client cid # es"
    by (fastforce simp: grows_def AddClient_def DelClient_def)+
qed

text \<open>Accepting: the new descriptor, its settings, and the new client if there is room.\<close>

lemma AcceptConnection_trace:
  assumes "AcceptConnection S a w = Some (r, a', w')" and "hooks_grow Q S" and "\<And>e. tuning e \<Longrightarrow> Q e"
    and "se_si S = SocketInterface_of (e_os (se_chan S))"
  shows "\<exists>fd es. fst (Raw_Accept (e_os (se_chan S)) (ca_server_socket a) w) = fd \<and>
     list_all Q es \<and>
     (a' = a \<and> w_trace w' = w_trace w @ Ev_accept (ca_server_socket a) fd # es \<or>
      fd \<noteq> -1 \<and> ca_last_id a' = ca_last_id a + 1 \<and> ca_server_socket a' = ca_server_socket a \<and>
        ca_channels a' = ca_channels a @ [GepChannel_new (se_chan S) (ca_last_id a) fd] \<and>
        (\<exists>es'. list_all Q es' \<and> w_trace w' = w_trace w @ Ev_accept (ca_server_socket a) fd # es @ Ev_add_client (ca_last_id a) # es'))"
proof -
  let ?os = "e_os (se_chan S)"
  obtain fd w1 where s1: "Raw_Accept ?os (ca_server_socket a) w = (fd, w1)" by fastforce
  obtain b w2 where s2: "GetPeerIP ?os fd 32 (e_uninit (se_chan S)) 32 w1 = Some (b, w2)"
    using GetPeerIP_defined by blast
  obtain r3 w3 where s3: "SetNonBlocking ?os fd w2 = (r3, w3)" by fastforce
  obtain r4 w4 where s4: "SetNoDelay ?os fd w3 = (r4, w4)" by fastforce
  obtain r5 w5 where s5: "SetPriority ?os fd 4 w4 = (r5, w5)" by fastforce
  have "grows tuning w1 w5"
    by (intro grows_trans [OF settings_tuned(6) [OF s2]] grows_trans [OF settings_tuned(1) [OF s3]]
        grows_trans [OF settings_tuned(2) [OF s4]] settings_tuned(3) [OF s5])
  then have "grows Q w1 w5" using assms(3) by (rule grows_mono)
  then obtain es where es: "list_all Q es" "w_trace w5 = w_trace w @ Ev_accept (ca_server_socket a) fd # es"
    using open_close_trace(2) [OF s1] by (auto simp: grows_def)
  have eq: "AcceptConnection S a w = (if fd = -1 then Some (-1, a, w1)
      else AddChannel S fd a w5 \<bind> (\<lambda>(_, a, w). Some (0, a, w)))"
    by (simp add: AcceptConnection_def assms(4) SocketInterface_of_def s1 s2 s3 s4 s5 Let_def)
  show ?thesis
  proof (cases "fd = -1")
    case True
    then show ?thesis
      using assms(1) open_close_trace(2) [OF s1] s1 unfolding eq
      by (intro exI [of _ fd] exI [of _ "[]"]) simp
  next
    case False
    then show ?thesis
      using assms(1) s1 es hooks_trace(1) [OF assms(2), of "ca_last_id a" w5] unfolding eq
      by (intro exI [of _ fd] exI [of _ es]) (auto simp: AddChannel_def Let_def split: if_splits bind_splits)
  qed
qed

section \<open>Dropping a channel\<close>

text \<open>Deleting a client and destroying its channel.\<close>

lemma drop_trace:
  assumes "hooks_grow Q S" and "IsOpenSocket ch"
  shows "\<exists>es. list_all Q es \<and> w_trace (GepChannel_destroy (se_chan S) ch (DelClient S cid w)) =
    w_trace w @ Ev_del_client cid # es @ [Ev_close (ch_socket ch)]"
  using hooks_trace(2) [OF assms(1), of cid w] assms(2)
  by (auto simp: GepChannel_destroy_def Close_def IsOpenSocket_def open_close_trace)

section \<open>Opening and closing a server\<close>

lemma OpenServerSocket_grows:
  assumes "OpenServerSocket S p a w = Some (r, p', a', w')" and "se_si S = SocketInterface_of (e_os (se_chan S))"
    and "\<And>e. tuning e \<Longrightarrow> Q e" and "\<And>fd. Q (Ev_socket fd)" and "\<And>fd. Q (Ev_close fd)"
  shows "grows Q w w'"
proof -
  let ?os = "e_os (se_chan S)"
  obtain fd w1 where s1: "Raw_Socket ?os w = (fd, w1)" by fastforce
  obtain r2 w2 where s2: "SetReuseAddr ?os fd w1 = (r2, w2)" by fastforce
  obtain r3 w3 where s3: "SetNonBlocking ?os fd w2 = (r3, w3)" by fastforce
  obtain r4 w4 where s4: "SetNoDelay ?os fd w3 = (r4, w4)" by fastforce
  obtain r5 w5 where s5: "SetPriority ?os fd 4 w4 = (r5, w5)" by fastforce
  obtain r6 w6 where s6: "Raw_Bind ?os fd (word_of_int (pr_port p)) w5 = (r6, w6)" by fastforce
  obtain r7 w7 where s7: "Raw_Listen ?os fd 4 w6 = (r7, w7)" by fastforce
  obtain r8 prt w8 where s8: "GetPort_socket ?os fd w7 = (r8, prt, w8)" by (metis surj_pair)
  have tu: "grows tuning x y \<Longrightarrow> grows Q x y" for x y :: "('a, 'b) world"
    using assms(3) grows_mono by blast
  have g1: "grows Q w w1" using open_close_trace(1) [OF s1] assms(4) by (auto simp: grows_def)
  have g2: "grows Q w w2" using grows_trans [OF g1 tu [OF settings_tuned(4) [OF s2]]] .
  have g5: "grows Q w w5"
    by (intro grows_trans [OF g2] grows_trans [OF tu [OF settings_tuned(1) [OF s3]]]
        grows_trans [OF tu [OF settings_tuned(2) [OF s4]]] tu [OF settings_tuned(3) [OF s5]])
  have g6: "grows Q w w6" using grows_trans [OF g5 tu [OF raw_tuned(1) [OF s6]]] .
  have g7: "grows Q w w7" using grows_trans [OF g6 tu [OF raw_tuned(2) [OF s7]]] .
  have g8: "grows Q w w8" using grows_trans [OF g7 tu [OF settings_tuned(5) [OF s8]]] .
  have cl: "grows Q w (os_close ?os fd x)" if "grows Q w x" for x
    using that assms(5) by (auto simp: grows_def open_close_trace)
  show ?thesis
    using assms(1) g1 g7 g8 cl [OF g2] cl [OF g6] cl [OF g7] cl [OF g8]
    by (auto simp: OpenServerSocket_def assms(2) SocketInterface_of_def s1 s2 s3 s4 s5 s6 s7 s8 Let_def
        split: if_splits bind_splits)
qed

lemma Array_Stop_grows:
  assumes "Array_Stop S a w = (r, a', w')" and "hooks_grow Q S"
    and "\<And>cid. Q (Ev_del_client cid)" and "\<And>fd. Q (Ev_close fd)"
  shows "grows Q w w'"
proof -
  have del: "grows Q w (DelClient S cid w)" for cid w
    using hooks_trace(2) [OF assms(2), of cid w] assms(3) by (auto simp: grows_def)
  have dels: "grows Q w (DelClients S chs w)" for chs w
    by (induction chs arbitrary: w) (auto intro: grows_trans del)
  have "grows Q w (GepChannel_destroy E ch w)" for E ch and w :: "('a, 'b) world"
    using assms(4) by (auto simp: GepChannel_destroy_def Close_def grows_def open_close_trace)
  then have "grows Q w (destroy_all E chs w)" for E chs and w :: "('a, 'b) world"
    by (induction chs arbitrary: w) (simp, metis destroy_all.simps(2) grows_trans)
  moreover have "grows Q w (os_close os fd w)" for os fd and w :: "('a, 'b) world"
    using assms(4) by (simp add: grows_def open_close_trace)
  ultimately show ?thesis
    using assms(1) dels by (auto simp: Array_Stop_def Let_def split: if_splits) (metis grows_trans)+
qed

end
