(* ===== verification/Gep_Duplex.thy ===== *)
theory Gep_Duplex
  imports Gep_Senders Gep_Traces
begin

text \<open>
  A channel used in both directions at once: one thread receives, again and again, while any
  number of threads send. \<open>RecvData\<close> holds \<open>socket_lock_\<close> for its \<open>recv\<close> only; the loop over the
  buffer and the callbacks run without it. Here the receive is taken apart at these points, and
  senders, in the middle of a frame too, and the rest of the program step in between.
\<close>

section \<open>The steps of a receive\<close>

text \<open>One test of the loop's condition and, when there is a header, one round.\<close>

definition receive_round ::
  "('w, 'm) gep_env \<Rightarrow> proto \<Rightarrow> channel \<Rightarrow> ('w, 'm) world \<Rightarrow> (receive_pc \<times> channel \<times> ('w, 'm) world) option"
where
  "receive_round E p ch w =
     (if \<not> to_u32 (ch_len ch) \<ge> kHdrLen
      then Some (Rx_Done (receive_code (if ch_len ch \<noteq> 0 then CMD_FRAGMENTED else CMD_OK)), ch, w)
      else (case RecvString_round E p ch w of
          None \<Rightarrow> None
        | Some (Inl (res, ch, w)) \<Rightarrow> Some (Rx_Done (receive_code res), ch, w)
        | Some (Inr (ch, w)) \<Rightarrow> Some (Rx_Loop, ch, w)))"

definition receive_next ::
  "('w, 'm) gep_env \<Rightarrow> proto \<Rightarrow> receive_pc \<Rightarrow> channel \<Rightarrow> ('w, 'm) world \<Rightarrow>
     (receive_pc \<times> channel \<times> ('w, 'm) world) option"
where
  "receive_next E p pc ch w =
     (case pc of
        Rx_Start \<Rightarrow> receive_begin E ch w
      | Rx_Loop \<Rightarrow> receive_round E p ch w
      | Rx_Done r \<Rightarrow> None)"

text \<open>
  The channel with its receiver and its senders. A receive that returned 0 may be followed by the
  next; the rest of the program neither receives nor runs callbacks, nor sends on this socket.
\<close>

inductive duplex_step ::
  "('w, 'm) gep_env \<Rightarrow> proto \<Rightarrow> receive_pc \<times> channel \<times> ('w, 'm) senders \<Rightarrow>
     receive_pc \<times> channel \<times> ('w, 'm) senders \<Rightarrow> bool"
  for E p where
  sender: "sending_step E p ch s s' \<Longrightarrow> duplex_step E p (pc, ch, s) (pc, ch, s')"
| receiver: "pc = Rx_Start \<longrightarrow> sn_lock s = None \<Longrightarrow>
    receive_next E p pc ch (sn_world s) = Some (pc', ch', w') \<Longrightarrow>
    duplex_step E p (pc, ch, s) (pc', ch', s\<lparr>sn_world := w'\<rparr>)"
| again: "duplex_step E p (Rx_Done 0, ch, s) (Rx_Start, ch, s)"
| other: "quiet (sn_world s) w' \<Longrightarrow>
    sent_on (ch_socket ch) (w_trace w') = sent_on (ch_socket ch) (w_trace (sn_world s)) \<Longrightarrow>
    duplex_step E p (pc, ch, s) (pc, ch, s\<lparr>sn_world := w'\<rparr>)"

text \<open>Nothing in between: the steps are \<open>RecvData\<close>.\<close>

lemma duplex_round:
  "receive_round E p ch (sn_world s) = Some (pc, ch1, w1) \<Longrightarrow>
   duplex_step E p (Rx_Loop, ch, s) (pc, ch1, s\<lparr>sn_world := w1\<rparr>)"
  using duplex_step.receiver [of Rx_Loop s E p ch pc ch1 w1] by (simp add: receive_next_def)

lemma receive_rounds:
  assumes "RecvString E p ch (sn_world s) = Some (res, ch', w')"
  shows "(duplex_step E p)\<^sup>*\<^sup>* (Rx_Loop, ch, s) (Rx_Done (receive_code res), ch', s\<lparr>sn_world := w'\<rparr>)"
proof -
  have "RecvString E p ch w = Some (res, ch', w') \<Longrightarrow>
    (duplex_step E p)\<^sup>*\<^sup>* (Rx_Loop, ch, s\<lparr>sn_world := w\<rparr>) (Rx_Done (receive_code res), ch', s\<lparr>sn_world := w'\<rparr>)" for w
  proof (induction E p ch w rule: RecvString.induct)
    case (1 E p ch w)
    show ?case
    proof (cases "to_u32 (ch_len ch) \<ge> kHdrLen")
      case False
      then show ?thesis
        using "1.prems" duplex_round [of E p ch "s\<lparr>sn_world := w\<rparr>"]
        by (subst (asm) RecvString.simps) (auto simp: receive_round_def intro!: r_into_rtranclp [of "duplex_step E p"])
    next
      case True
      then obtain x where x: "RecvString_round E p ch w = Some x"
        using "1.prems" by (subst (asm) RecvString.simps) (auto split: option.splits)
      show ?thesis
      proof (cases x)
        case (Inl a)
        then show ?thesis
          using "1.prems" True x duplex_round [of E p ch "s\<lparr>sn_world := w\<rparr>"]
          by (subst (asm) RecvString.simps) (auto simp: receive_round_def intro!: r_into_rtranclp [of "duplex_step E p"])
      next
        case (Inr b)
        obtain ch1 w1 where b: "b = (ch1, w1)" by fastforce
        have "RecvString E p ch1 w1 = Some (res, ch', w')"
          using "1.prems" True x Inr b by (subst (asm) RecvString.simps) simp
        then have "(duplex_step E p)\<^sup>*\<^sup>* (Rx_Loop, ch1, s\<lparr>sn_world := w1\<rparr>)
            (Rx_Done (receive_code res), ch', s\<lparr>sn_world := w'\<rparr>)"
          using "1.IH" [OF _ x Inr b [symmetric]] True by simp
        moreover have "duplex_step E p (Rx_Loop, ch, s\<lparr>sn_world := w\<rparr>) (Rx_Loop, ch1, s\<lparr>sn_world := w1\<rparr>)"
          using duplex_round [of E p ch "s\<lparr>sn_world := w\<rparr>" Rx_Loop ch1 w1] True x Inr b by (simp add: receive_round_def)
        ultimately show ?thesis by (rule converse_rtranclp_into_rtranclp [rotated])
      qed
    qed
  qed
  from this [OF assms] show ?thesis by simp
qed

lemma receiving_runs_RecvData:
  assumes "RecvData E p ch (sn_world s) = Some (r, ch', w')" and "sn_lock s = None"
  shows "(duplex_step E p)\<^sup>*\<^sup>* (Rx_Start, ch, s) (Rx_Done r, ch', s\<lparr>sn_world := w'\<rparr>)"
proof -
  obtain pc ch1 w1 where b: "receive_begin E ch (sn_world s) = Some (pc, ch1, w1)" "pc \<noteq> Rx_Start"
    using assms(1) by (auto simp: RecvData_halves receive_begin_def Let_def chk32_def split: option.splits prod.splits if_splits bind_splits)
  let ?s1 = "s\<lparr>sn_world := w1\<rparr>"
  have st: "duplex_step E p (Rx_Start, ch, s) (pc, ch1, ?s1)"
    using duplex_step.receiver [of Rx_Start s E p ch pc ch1 w1] assms(2) b(1) by (simp add: receive_next_def)
  show ?thesis
  proof (cases pc)
    case Rx_Loop
    then obtain res where "RecvString E p ch1 w1 = Some (res, ch', w')" "r = receive_code res"
      using assms(1) b(1) by (auto simp: RecvData_halves)
    then have "(duplex_step E p)\<^sup>*\<^sup>* (Rx_Loop, ch1, ?s1) (Rx_Done r, ch', s\<lparr>sn_world := w'\<rparr>)"
      using receive_rounds [of E p ch1 ?s1] by simp
    then show ?thesis using converse_rtranclp_into_rtranclp [where r = "duplex_step E p", OF st] Rx_Loop by simp
  qed (use assms(1) b st in \<open>auto simp: RecvData_halves intro: r_into_rtranclp\<close>)
qed

section \<open>The invariant of the receiver\<close>

text \<open>
  Of the bytes that came since the beginning: the frames before the loop's place were all accepted
  and their callbacks ran; the buffer is what is left.
\<close>

definition receive_at ::
  "('w, 'm) gep_env \<Rightarrow> proto \<Rightarrow> int \<Rightarrow> u8 list \<Rightarrow> receive_pc \<Rightarrow> channel \<Rightarrow> (int \<times> u32 \<times> 'm) list \<Rightarrow> bool"
where
  "receive_at E p cid bytes pc ch ds \<longleftrightarrow>
     (case parse_frames (pr_magic p) bytes of (fs, e) \<Rightarrow>
        (if pc = Rx_Loop
         then \<exists>k \<le> length fs. list_all (accepts E p) (take k fs) \<and> ds = deliver_all E p cid (take k fs) \<and>
           parse_frames (pr_magic p) (content ch) = (drop k fs, e)
         else ds = deliver_all E p cid fs \<and>
           (pc = Rx_Start \<or> pc = Rx_Done 0 \<longrightarrow>
              list_all (accepts E p) fs \<and> e = More (content ch) \<and> chan_room ch)))"

definition receiver_inv ::
  "('w, 'm) gep_env \<Rightarrow> proto \<Rightarrow> channel \<Rightarrow> ('w, 'm) world \<Rightarrow> receive_pc \<Rightarrow> channel \<Rightarrow> ('w, 'm) world \<Rightarrow> bool"
where
  "receiver_inv E p ch0 w0 pc ch w \<longleftrightarrow> same_conn ch0 ch \<and> chan_ok ch \<and>
     (\<exists>bs ds. received_on (ch_socket ch0) (w_trace w) = received_on (ch_socket ch0) (w_trace w0) @ bs \<and>
        dispatched (w_trace w) = dispatched (w_trace w0) @ ds \<and>
        receive_at E p (ch_id ch0) (content ch0 @ bs) pc ch ds)"

text \<open>It is stable under the steps of everyone else.\<close>

lemma receiver_inv_quiet:
  "receiver_inv E p ch0 w0 pc ch w \<Longrightarrow> quiet w w' \<Longrightarrow> receiver_inv E p ch0 w0 pc ch w'"
  by (simp add: receiver_inv_def quiet_def)

lemma sends_quiet: "sends fd bs w w' \<Longrightarrow> quiet w w'"
  by (intro plain_quiet sends_plain)

lemma deliver_all_snoc:
  assumes "list_all (accepts E p) fs"
  shows "deliver_all E p cid (fs @ [f]) = deliver_all E p cid fs @ deliver E p cid f"
    and "\<not> accepts E p f \<Longrightarrow> deliver_all E p cid (fs @ f # gs) = deliver_all E p cid fs"
    and "\<not> accepts E p f \<Longrightarrow> deliver E p cid f = []"
proof -
  show none: "\<not> accepts E p f \<Longrightarrow> deliver E p cid f = []" by (auto simp: accepts_def deliver_def split: option.splits)
  show "deliver_all E p cid (fs @ [f]) = deliver_all E p cid fs @ deliver E p cid f"
    unfolding sock.deliver_all_append [OF assms] using none by (simp add: deliver_all_def)
  show "\<not> accepts E p f \<Longrightarrow> deliver_all E p cid (fs @ f # gs) = deliver_all E p cid fs"
    unfolding sock.deliver_all_append [OF assms] by (simp add: deliver_all_def)
qed

lemma receive_begin_step:
  assumes "channel_env_ok E p" and "0 \<le> ch_socket ch0" and "receiver_inv E p ch0 w0 Rx_Start ch w"
  shows "\<exists>pc' ch' w'. receive_begin E ch w = Some (pc', ch', w') \<and> receiver_inv E p ch0 w0 pc' ch' w' \<and> pc' \<noteq> Rx_Start"
proof -
  obtain bs ds where i: "same_conn ch0 ch" "chan_ok ch"
    "received_on (ch_socket ch0) (w_trace w) = received_on (ch_socket ch0) (w_trace w0) @ bs"
    "dispatched (w_trace w) = dispatched (w_trace w0) @ ds"
    "receive_at E p (ch_id ch0) (content ch0 @ bs) Rx_Start ch ds"
    using assms(3) by (auto simp: receiver_inv_def)
  obtain fs where fs: "parse_frames (pr_magic p) (content ch0 @ bs) = (fs, More (content ch))"
    "list_all (accepts E p) fs" "ds = deliver_all E p (ch_id ch0) fs" "chan_room ch"
    using i(5) by (auto simp: receive_at_def split: prod.splits)
  have sock: "ch_socket ch = ch_socket ch0" "ch_id ch = ch_id ch0" using i(1) by (simp_all add: same_conn_def)
  note env = channel_env_okD(2,3) [OF assms(1)]
  obtain ret new w1 where rv: "si_Recv (SocketInterface_of (e_os E)) (ch_socket ch) (1048576 - nat (ch_len ch)) w = (ret, new, w1)"
    by (metis surj_pair)
  obtain ch1 where b: "receive_begin E ch w =
      Some (if ret > 0 then Rx_Loop else Rx_Done (if ret = 0 then -2 else -1), ch1, w1)"
    "same_conn ch ch1" "chan_ok ch1" "content ch1 = content ch @ new" "ret \<le> 0 \<longrightarrow> new = []"
    using sock.receive_begin_post [OF env fs(4) _ rv] assms(2) sock by auto
  have frame: "received_on (ch_socket ch0) (w_trace w1) = received_on (ch_socket ch0) (w_trace w0) @ bs @ new"
    "dispatched (w_trace w1) = dispatched (w_trace w0) @ ds"
    using sock.recv_frame [OF env(2) rv] i(3,4) sock by simp_all
  obtain gs e where gs: "parse_frames (pr_magic p) (content ch @ new) = (gs, e)" by fastforce
  then have all: "parse_frames (pr_magic p) (content ch0 @ bs @ new) = (fs @ gs, e)"
    using parse_append [of "pr_magic p" "content ch0 @ bs" new] fs(1) by simp
  have "receive_at E p (ch_id ch0) (content ch0 @ bs @ new)
      (if ret > 0 then Rx_Loop else Rx_Done (if ret = 0 then -2 else -1)) ch1 ds"
  proof (cases "ret > 0")
    case True
    then show ?thesis
      using all fs(2,3) b(4) gs unfolding receive_at_def by (auto intro!: exI [of _ "length fs"])
  next
    case False
    then have "new = []" using b(5) by simp
    then show ?thesis using False fs(1,3) by (simp add: receive_at_def)
  qed
  moreover have "same_conn ch0 ch1" using i(1) b(2) by (simp add: same_conn_def)
  ultimately show ?thesis using b(1,3) frame unfolding receiver_inv_def by (auto split: if_splits)
qed

text \<open>A round ends the receive or handles the next frame.\<close>

lemma receive_at_end:
  assumes "receive_at E p cid bytes Rx_Loop ch ds" and "parse_frames (pr_magic p) (content ch) = ([], e)"
    and "chan_ok ch'" and "content ch' = end_rest e"
  shows "receive_at E p cid bytes (Rx_Done (receive_code (end_result e))) ch' ds"
proof -
  obtain fs e' where pf: "parse_frames (pr_magic p) bytes = (fs, e')" by fastforce
  obtain k where k: "k \<le> length fs" "list_all (accepts E p) (take k fs)" "ds = deliver_all E p cid (take k fs)"
    "drop k fs = []" "e' = e"
    using assms(1,2) pf by (auto simp: receive_at_def)
  then have whole: "list_all (accepts E p) fs" "ds = deliver_all E p cid fs" by simp_all
  show ?thesis
  proof (cases e)
    case Bad
    then show ?thesis using whole(2) pf by (simp add: receive_at_def receive_code_def)
  next
    case (More r)
    then have "length (content ch') < 1048576"
      using parse_More_bound [of "pr_magic p" "content ch" r] assms(2,4) by simp
    then show ?thesis
      using whole pf k(5) More assms(4) content_room [OF assms(3)]
      by (simp add: receive_at_def)
  qed
qed

lemma receive_at_frame:
  assumes "receive_at E p cid bytes Rx_Loop ch ds" and "parse_frames (pr_magic p) (content ch) = (f # gs, e)"
  shows "accepts E p f \<Longrightarrow> parse_frames (pr_magic p) (content ch') = (gs, e) \<Longrightarrow>
      receive_at E p cid bytes Rx_Loop ch' (ds @ deliver E p cid f)"
    and "\<not> accepts E p f \<Longrightarrow> receive_at E p cid bytes (Rx_Done (-1)) ch' (ds @ deliver E p cid f)"
proof -
  obtain fs e' where pf: "parse_frames (pr_magic p) bytes = (fs, e')" by fastforce
  obtain k where k: "k \<le> length fs" "list_all (accepts E p) (take k fs)" "ds = deliver_all E p cid (take k fs)"
    "drop k fs = f # gs" "e' = e"
    using assms pf by (auto simp: receive_at_def)
  have fs: "fs = take k fs @ f # gs" using append_take_drop_id [of k fs] k(4) by simp
  have lt: "k < length fs" using k(1,4) by (cases "k = length fs") simp_all
  then have next_k: "take (Suc k) fs = take k fs @ [f]" "drop (Suc k) fs = gs"
    using k(4) by (simp_all add: take_Suc_conv_app_nth Cons_nth_drop_Suc [symmetric])
  show "receive_at E p cid bytes Rx_Loop ch' (ds @ deliver E p cid f)"
    if "accepts E p f" "parse_frames (pr_magic p) (content ch') = (gs, e)"
    using that pf k(2,3,5) lt next_k deliver_all_snoc(1) [OF k(2), of cid f]
    unfolding receive_at_def by (auto intro!: exI [of _ "Suc k"])
  show "receive_at E p cid bytes (Rx_Done (-1)) ch' (ds @ deliver E p cid f)" if "\<not> accepts E p f"
    using pf k(3) fs deliver_all_snoc(2) [OF k(2) that, of cid gs] deliver_all_snoc(3) [OF k(2) that, of cid]
    by (simp add: receive_at_def)
qed

lemma receive_round_step:
  assumes "channel_env_ok E p" and "callbacks_quiet E" and "receiver_inv E p ch0 w0 Rx_Loop ch w"
  shows "\<exists>pc' ch' w'. receive_round E p ch w = Some (pc', ch', w') \<and> receiver_inv E p ch0 w0 pc' ch' w' \<and> pc' \<noteq> Rx_Start"
proof -
  obtain bs ds where i: "same_conn ch0 ch" "chan_ok ch"
    "received_on (ch_socket ch0) (w_trace w) = received_on (ch_socket ch0) (w_trace w0) @ bs"
    "dispatched (w_trace w) = dispatched (w_trace w0) @ ds"
    and at: "receive_at E p (ch_id ch0) (content ch0 @ bs) Rx_Loop ch ds"
    using assms(3) by (auto simp: receiver_inv_def)
  have ended: ?thesis
    if "receive_round E p ch w = Some (Rx_Done (receive_code (end_result e)), ch', w)"
      "parse_frames (pr_magic p) (content ch) = ([], e)" "same_conn ch ch'" "chan_ok ch'" "content ch' = end_rest e" for e ch'
    using that receive_at_end [OF at that(2,4,5)] i unfolding receiver_inv_def
    by (intro exI [of _ "Rx_Done (receive_code (end_result e))"] exI [of _ ch'] exI [of _ w]) (auto simp: same_conn_def)
  show ?thesis
  proof (cases "12 \<le> length (content ch)")
    case False
    then have "parse_frames (pr_magic p) (content ch) = ([], More (content ch))" by (simp add: parse_short)
    moreover have "receive_round E p ch w = Some (Rx_Done (receive_code (end_result (More (content ch)))), ch, w)"
      using False header_there [OF i(2)] len_content [OF i(2)] by (simp add: receive_round_def)
    ultimately show ?thesis using ended [of "More (content ch)" ch] i(2) by (simp add: same_conn_def)
  next
    case True
    then have big: "to_u32 (ch_len ch) \<ge> kHdrLen" using header_there [OF i(2)] by simp
    obtain gs e where gs: "parse_frames (pr_magic p) (content ch) = (gs, e)" by fastforce
    note round = round_refines [OF i(2) True gs, of E]
    show ?thesis
    proof (cases gs)
      case Nil
      then obtain ch' where "RecvString_round E p ch w = Some (Inl (end_result e, ch', w))" "same_conn ch ch'" "chan_ok ch'"
        "content ch' = end_rest e"
        using round by auto
      then show ?thesis using ended [of e ch'] big gs Nil by (simp add: receive_round_def)
    next
      case (Cons f fs')
      obtain tag v where f: "f = (tag, v)" by fastforce
      obtain ch' where c: "parse_frames (pr_magic p) (content ch') = (fs', e)" "same_conn ch ch'" "chan_ok ch'"
        and r: "RecvString_round E p ch w =
          (case RecvTLV E p (ch_id ch) tag v w of None \<Rightarrow> None
           | Some (ret, w') \<Rightarrow> if IsRecoverable ret then Some (Inr (ch', w')) else Some (Inl (ret, ch, w')))"
        using round Cons f by auto
      have id: "ch_id ch = ch_id ch0" using i(1) by (simp add: same_conn_def)
      obtain ret w1 where t: "RecvTLV E p (ch_id ch0) tag v w = Some (ret, w1)"
        using RecvTLV_defined [OF channel_env_okD(4) [OF assms(1)]] by blast
      note res = RecvTLV_result [OF t] and disp = RecvTLV_dispatch [OF t assms(2)]
      note frame = receive_at_frame [OF at, of f fs' e] 
      show ?thesis
      proof (cases "IsRecoverable ret")
        case True
        then have "receive_round E p ch w = Some (Rx_Loop, ch', w1)" using big r t id by (simp add: receive_round_def)
        moreover have "receiver_inv E p ch0 w0 Rx_Loop ch' w1"
          using frame(1) [of ch'] gs Cons f True res(1) c i disp by (auto simp: receiver_inv_def same_conn_def)
        ultimately show ?thesis by blast
      next
        case False
        then have "receive_round E p ch w = Some (Rx_Done (-1), ch, w1)"
          using big r t id res(2) by (simp add: receive_round_def receive_code_def)
        moreover have "receiver_inv E p ch0 w0 (Rx_Done (-1)) ch w1"
          using frame(2) [of ch] gs Cons f False res(1) i disp by (auto simp: receiver_inv_def same_conn_def)
        ultimately show ?thesis by blast
      qed
    qed
  qed
qed

lemma receive_next_step:
  assumes "channel_env_ok E p" and "callbacks_quiet E" and "0 \<le> ch_socket ch0"
    and "receiver_inv E p ch0 w0 pc ch w" and "pc = Rx_Start \<or> pc = Rx_Loop"
  shows "\<exists>pc' ch' w'. receive_next E p pc ch w = Some (pc', ch', w') \<and> receiver_inv E p ch0 w0 pc' ch' w'"
  using assms(5)
proof
  assume "pc = Rx_Start"
  then show ?thesis using receive_begin_step [OF assms(1,3)] assms(4) by (fastforce simp: receive_next_def)
next
  assume "pc = Rx_Loop"
  then show ?thesis using receive_round_step [OF assms(1,2)] assms(4) by (fastforce simp: receive_next_def)
qed

section \<open>Both directions\<close>

lemma silent_sent:
  fixes w :: "('w, 'm) world"
  assumes "grows silent w w'"
  shows "sent_on fd (w_trace w') = sent_on fd (w_trace w)"
proof -
  have "list_all silent es \<Longrightarrow> sent_on fd es = []" for es :: "'m event list"
    by (induction es) (auto simp: silent_def sent_on_def split: event.splits)
  then show ?thesis using assms by (auto simp: grows_def)
qed

lemma receive_next_silent:
  assumes "channel_env_ok E p" and "callbacks_silent E" and "receive_next E p pc ch w = Some (pc', ch', w')"
  shows "grows silent w w'"
proof (cases pc)
  case Rx_Start
  have "grows silent w w1" if "si_Recv (e_si E) (ch_socket ch) n w = (ret, bs, w1)" for n ret bs w1
    using sock.recv_law [OF channel_env_okD(3) [OF assms(1)], of "ch_socket ch" n w ret bs w1] that
      channel_env_okD(2) [OF assms(1)]
    by (auto simp: grows_def)
  then show ?thesis
    using assms(3) Rx_Start
    by (auto simp: receive_next_def receive_begin_def Let_def split: if_splits bind_splits prod.splits)
next
  case Rx_Loop
  have tlv: "grows silent w w1" if "RecvTLV E p (ch_id ch) tag v w = Some (r, w1)" for tag v r w1
    using RecvTLV_grows [OF that, of silent] assms(2) by (simp add: callbacks_silent_def)
  have "case x of Inl (res, c, w1) \<Rightarrow> grows silent w w1 | Inr (c, w1) \<Rightarrow> grows silent w w1"
    if "RecvString_round E p ch w = Some x" for x
    using RecvString_round_keeps [where R = "grows silent", OF that grows_refl tlv] by (auto split: sum.split)
  then show ?thesis
    using assms(3) Rx_Loop
    by (fastforce simp: receive_next_def receive_round_def split: if_splits option.splits sum.splits prod.splits)
qed (use assms(3) in \<open>simp add: receive_next_def\<close>)

lemma sending_steps_quiet:
  assumes "(sending_step E p ch)\<^sup>*\<^sup>* s s'" and "channel_env_ok E p" and "locks_ok s"
  shows "quiet (sn_world s) (sn_world s') \<and> locks_ok s'"
  using assms(1)
proof induction
  case (step y z)
  then obtain bs where "locks_ok z" "sends (ch_socket ch) bs (sn_world y) (sn_world z)"
    using sending_step_effect [OF assms(2) step.hyps(2)] by (auto simp: sending_effect_def)
  then show ?case using step.IH sends_quiet by (fastforce simp: quiet_def)
qed (use assms(3) in \<open>simp add: quiet_def\<close>)

definition duplex_inv ::
  "('w, 'm) gep_env \<Rightarrow> proto \<Rightarrow> channel \<Rightarrow> ('w, 'm) world \<Rightarrow> receive_pc \<times> channel \<times> ('w, 'm) senders \<Rightarrow> bool"
where
  "duplex_inv E p ch0 w0 = (\<lambda>(pc, ch, s). receiver_inv E p ch0 w0 pc ch (sn_world s) \<and>
     senders_inv p ch0 (sent_on (ch_socket ch0) (w_trace w0)) s)"

lemma senders_inv_socket: "ch_socket ch = ch_socket ch0 \<Longrightarrow> senders_inv p ch = senders_inv p ch0"
  by (simp add: senders_inv_def fun_eq_iff)

lemma duplex_step_inv:
  assumes "channel_env_ok E p" and "callbacks_quiet E" and "callbacks_silent E" and "0 \<le> ch_socket ch0"
    and "duplex_step E p x y" and "duplex_inv E p ch0 w0 x"
  shows "duplex_inv E p ch0 w0 y"
  using assms(5)
proof cases
  case (sender ch s s' pc)
  have inv: "receiver_inv E p ch0 w0 pc ch (sn_world s)" "senders_inv p ch0 (sent_on (ch_socket ch0) (w_trace w0)) s"
    using assms(6) sender(1) by (simp_all add: duplex_inv_def)
  then have sock: "ch_socket ch = ch_socket ch0" by (simp add: receiver_inv_def same_conn_def)
  obtain bs where "sends (ch_socket ch) bs (sn_world s) (sn_world s')"
    using sending_step_effect [OF assms(1) sender(3)] inv(2) by (auto simp: senders_inv_def sending_effect_def)
  then have "receiver_inv E p ch0 w0 pc ch (sn_world s')" using receiver_inv_quiet [OF inv(1)] sends_quiet by blast
  moreover have "senders_inv p ch0 (sent_on (ch_socket ch0) (w_trace w0)) s'"
    using senders_inv_step [OF assms(1) sender_step.sends [OF sender(3)]] inv(2) senders_inv_socket [OF sock] by metis
  ultimately show ?thesis using sender(2) by (simp add: duplex_inv_def)
next
  case (receiver pc s ch pc' ch' w')
  have inv: "receiver_inv E p ch0 w0 pc ch (sn_world s)" "senders_inv p ch0 (sent_on (ch_socket ch0) (w_trace w0)) s"
    using assms(6) receiver(1) by (simp_all add: duplex_inv_def)
  have "pc = Rx_Start \<or> pc = Rx_Loop" using receiver(4) by (cases pc) (simp_all add: receive_next_def)
  then have "receiver_inv E p ch0 w0 pc' ch' w'"
    using receive_next_step [OF assms(1,2,4) inv(1)] receiver(4) by auto
  moreover have "sent_on (ch_socket ch0) (w_trace w') = sent_on (ch_socket ch0) (w_trace (sn_world s))"
    by (rule silent_sent [OF receive_next_silent [OF assms(1,3) receiver(4)]])
  then have "senders_inv p ch0 (sent_on (ch_socket ch0) (w_trace w0)) (s\<lparr>sn_world := w'\<rparr>)"
    using inv(2) by (simp add: senders_inv_def)
  ultimately show ?thesis using receiver(2) by (simp add: duplex_inv_def)
next
  case (again ch s)
  then show ?thesis using assms(6) by (auto simp: duplex_inv_def receiver_inv_def receive_at_def split: prod.splits)
next
  case (other s w' ch pc)
  have inv: "receiver_inv E p ch0 w0 pc ch (sn_world s)" "senders_inv p ch0 (sent_on (ch_socket ch0) (w_trace w0)) s"
    using assms(6) other(1) by (simp_all add: duplex_inv_def)
  then have "ch_socket ch = ch_socket ch0" by (simp add: receiver_inv_def same_conn_def)
  then have "senders_inv p ch0 (sent_on (ch_socket ch0) (w_trace w0)) (s\<lparr>sn_world := w'\<rparr>)"
    using inv(2) other(4) by (simp add: senders_inv_def)
  then show ?thesis using receiver_inv_quiet [OF inv(1) other(3)] other(2) by (simp add: duplex_inv_def)
qed

lemma duplex_reach_inv:
  assumes "(duplex_step E p)\<^sup>*\<^sup>* (Rx_Start, ch, senders_new w) y"
    and "channel_env_ok E p" and "callbacks_quiet E" and "callbacks_silent E" and "chan_idle p ch"
  shows "duplex_inv E p ch w y"
  using assms(1)
proof (rule rtranclp_invariant)
  have "receiver_inv E p ch w Rx_Start ch w"
    using assms(5)
    by (auto simp: receiver_inv_def same_conn_def chan_idle_def chan_room_def chan_ok_def receive_at_def deliver_all_def)
  then show "duplex_inv E p ch w (Rx_Start, ch, senders_new w)"
    using senders_inv_new [of p ch w] by (simp add: duplex_inv_def) (simp add: senders_new_def)
  show "duplex_inv E p ch w y" if "duplex_inv E p ch w x" "duplex_step E p x y" for x y
    using duplex_step_inv [OF assms(2-4) _ that(2,1)] assms(5) by (simp add: chan_idle_def)
qed

end
