(* ===== verification/Sender_Properties.thy ===== *)
theory Sender_Properties
  imports Gep_Duplex Gep_Runs
begin

text \<open>
  The properties of a channel used by several threads: what those that send leave on its socket,
  and that a receive goes on as if they were not there.
\<close>

text \<open>However the calls of \<open>SendTLV\<close> of several threads on one channel are interleaved with
  each other and with the rest of the program, at most one thread is between taking and giving
  back \<open>socket_lock_\<close>, and the socket has seen, call after call in the order they returned, a
  prefix of the frame of each, followed by what the holder of the lock has sent. When every call
  returned 0 and the lock is free, that is the sequence of their whole frames: a header is
  never separated from its value.\<close>

theorem senders_never_interleave:
  assumes "channel_env_ok E p" and "(sender_step E p ch)\<^sup>*\<^sup>* (senders_new w) s"
  shows "(\<forall>t. has_lock (sn_pc s t) \<longleftrightarrow> sn_lock s = Some t) \<and>
    (\<exists>parts. list_all2 (call_part p) (sn_returned s) parts \<and>
       sent_on (ch_socket ch) (w_trace (sn_world s)) =
         sent_on (ch_socket ch) (w_trace w) @ concat parts @ half_sent p s) \<and>
    ((\<forall>(tag, v, r) \<in> set (sn_returned s). r = 0) \<and> sn_lock s = None \<longrightarrow>
       sent_on (ch_socket ch) (w_trace (sn_world s)) = sent_on (ch_socket ch) (w_trace w) @
         concat (map (\<lambda>(tag, v, r). frame_bytes (pr_magic p) (tag, v)) (sn_returned s)))"
proof -
  have inv: "senders_inv p ch (sent_on (ch_socket ch) (w_trace w)) s" by (rule senders_reach_inv [OF assms])
  then have "\<exists>parts. list_all2 (call_part p) (sn_returned s) parts \<and>
       sent_on (ch_socket ch) (w_trace (sn_world s)) =
         sent_on (ch_socket ch) (w_trace w) @ concat parts @ half_sent p s"
    unfolding senders_inv_def returned_stream_def by blast
  then show ?thesis using inv senders_stream [OF assms] unfolding senders_inv_def locks_ok_def by blast
qed

text \<open>Two threads call; the second to call is the first to send.\<close>

definition two_calls :: "(script, raw_msg) world \<Rightarrow> (script, raw_msg) senders" where
  "two_calls w = (senders_new w)\<lparr>sn_pc := (\<lambda>_. Sn_Idle)(0 := Sn_Call 5 [1, 2], 1 := Sn_Call 7 [])\<rparr>"

lemma two_calls_reach: "(sending_step raw_env raw_proto ch)\<^sup>*\<^sup>* (senders_new w) (two_calls w)"
proof -
  let ?s = "senders_new w :: (script, raw_msg) senders"
  let ?s1 = "?s\<lparr>sn_pc := (sn_pc ?s)(0 := Sn_Call 5 [1, 2])\<rparr>"
  have 1: "sending_step raw_env raw_proto ch ?s ?s1"
    by (rule sending_step.call) (simp_all add: senders_new_def)
  have "sending_step raw_env raw_proto ch ?s1 (?s1\<lparr>sn_pc := (sn_pc ?s1)(1 := Sn_Call 7 [])\<rparr>)"
    by (rule sending_step.call) (simp_all add: senders_new_def)
  then have "sending_step raw_env raw_proto ch ?s1 (two_calls w)"
    by (simp add: two_calls_def senders_new_def)
  with 1 show ?thesis by (meson r_into_rtranclp rtranclp.rtrancl_into_rtrancl)
qed

lemma raw_SendTLV:
  assumes "sc_send (w_os w) = []" and "sc_clock_ms (w_os w) = []" and "length v < 2000000"
  shows "SendTLV raw_env raw_proto ch tag (int (length v)) (Some v) w =
    Some (0, sent (ch_socket ch) v (sent (ch_socket ch) (header_bytes kMagic tag (of_nat (length v))) w))"
proof -
  have "SendData raw_env ch buf x = Some (int (length buf), sent (ch_socket ch) buf x)"
    if "w_os x = w_os w" for buf and x :: "(script, raw_msg) world"
    using that assms(1,2)
    by (simp add: SendData_def raw_env_def SocketInterface_of_def kGepSendTimeoutMs_def script_FullSend)
  then show ?thesis using assms(3) by (simp add: SendTLV_eq sent_def)
qed

text \<open>They return in that order, with their whole frames on the socket.\<close>

lemma two_calls_done:
  assumes "sc_send (w_os w) = []" and "sc_clock_ms (w_os w) = []"
  shows "\<exists>s. (sending_step raw_env raw_proto ch)\<^sup>*\<^sup>* (senders_new w) s \<and>
     sn_returned s = [(7, [], 0), (5, [1, 2], 0)] \<and> sn_lock s = None"
proof -
  let ?step = "sending_step raw_env raw_proto ch"
  have q: "sc_send (w_os (sn_world (two_calls w))) = []" "sc_clock_ms (w_os (sn_world (two_calls w))) = []"
    using assms by (simp_all add: two_calls_def senders_new_def)
  obtain w1 where w1: "SendTLV raw_env raw_proto ch 7 (int (length ([] :: u8 list))) (Some []) (sn_world (two_calls w)) = Some (0, w1)"
    "w_os w1 = w_os (sn_world (two_calls w))"
    using raw_SendTLV [OF q, of "[]" ch 7] by simp
  let ?s1 = "sn_return 1 7 [] 0 w1 (two_calls w)"
  have r1: "?step\<^sup>*\<^sup>* (two_calls w) ?s1"
    by (rule sending_runs_SendTLV [OF _ _ _ w1(1)]) (simp_all add: two_calls_def senders_new_def)
  obtain w2 where w2: "SendTLV raw_env raw_proto ch 5 (int (length [1, 2 :: u8])) (Some [1, 2]) (sn_world ?s1) = Some (0, w2)"
    using raw_SendTLV [of w1 "[1, 2 :: u8]" ch 5] q w1(2) by (simp add: sn_return_def)
  let ?s2 = "sn_return 0 5 [1, 2] 0 w2 ?s1"
  have r2: "?step\<^sup>*\<^sup>* ?s1 ?s2"
    by (rule sending_runs_SendTLV [OF _ _ _ w2]) (simp_all add: two_calls_def senders_new_def sn_return_def)
  have r: "?step\<^sup>*\<^sup>* (senders_new w) ?s2"
    using two_calls_reach r1 r2 by (meson rtranclp_trans)
  have "sn_returned ?s2 = [(7, [], 0), (5, [1, 2], 0)]" "sn_lock ?s2 = None"
    by (simp_all add: sn_return_def two_calls_def senders_new_def)
  then show ?thesis using r by blast
qed

theorem senders_never_interleave_witness:
  "\<exists>s. (sender_step raw_env raw_proto demo_channel)\<^sup>*\<^sup>* (senders_new demo_sender_world) s \<and>
     sn_returned s = [(7, [], 0), (5, [1, 2], 0)] \<and>
     sent_on 4 (w_trace (sn_world s)) = frame_bytes kMagic (7, []) @ frame_bytes kMagic (5, [1, 2])"
proof -
  obtain s where s: "(sender_step raw_env raw_proto demo_channel)\<^sup>*\<^sup>* (senders_new demo_sender_world) s"
    "sn_returned s = [(7, [], 0), (5, [1, 2], 0)]" "sn_lock s = None"
  proof -
    have "sc_send (w_os demo_sender_world) = []" "sc_clock_ms (w_os demo_sender_world) = []"
      by (simp_all add: demo_sender_world_def raw_world_def quiet_script_def)
    then show ?thesis using two_calls_done [of demo_sender_world demo_channel] that sending_steps by blast
  qed
  then show ?thesis
    using senders_never_interleave [OF raw_channel_env_ok s(1)]
    by (intro exI [of _ s]) (simp add: demo_channel_def demo_sender_world_def raw_world_def)
qed

section \<open>Sending and receiving at once\<close>

text \<open>C8: A channel carries both directions at once. While one thread receives again and again, others
  send, and their steps come anywhere between the steps of the receive: before \<open>recv\<close>, between
  frames, in the middle of a frame that is being sent. The callbacks that ran are those of the
  frames of the bytes received, in order, up to the first that is not accepted: of all of them
  between receives, and of those before the loop's place during one, when the buffer holds the
  rest. The socket has seen a prefix of the frame of each call in the order they returned and what
  the holder of \<open>socket_lock_\<close> has sent. And the receive can always go on. Assumed of the
  callbacks: they do not send or receive themselves.\<close>

theorem duplex_channel:
  assumes "channel_env_ok E p" and "callbacks_quiet E" and "callbacks_silent E" and "chan_idle p ch"
    and "(duplex_step E p)\<^sup>*\<^sup>* (Rx_Start, ch, senders_new w) (pc, ch', s)"
  shows "(\<exists>bs k. received_on (ch_socket ch) (w_trace (sn_world s)) = received_on (ch_socket ch) (w_trace w) @ bs \<and>
      (let fs = fst (parse_frames (pr_magic p) (content ch @ bs)) in
       dispatched (w_trace (sn_world s)) = dispatched (w_trace w) @ deliver_all E p (ch_id ch) (take k fs) \<and>
       (if pc = Rx_Loop then fst (parse_frames (pr_magic p) (content ch')) = drop k fs else k = length fs))) \<and>
    (\<exists>parts. list_all2 (call_part p) (sn_returned s) parts \<and>
       sent_on (ch_socket ch) (w_trace (sn_world s)) =
         sent_on (ch_socket ch) (w_trace w) @ concat parts @ half_sent p s) \<and>
    (\<forall>t. has_lock (sn_pc s t) \<longleftrightarrow> sn_lock s = Some t) \<and>
    (pc = Rx_Start \<or> pc = Rx_Loop \<longrightarrow> receive_next E p pc ch' (sn_world s) \<noteq> None)"
proof -
  have inv: "receiver_inv E p ch w pc ch' (sn_world s)" "senders_inv p ch (sent_on (ch_socket ch) (w_trace w)) s"
    using duplex_reach_inv [OF assms(5,1-4)] by (simp_all add: duplex_inv_def)
  obtain bs ds where i: "received_on (ch_socket ch) (w_trace (sn_world s)) = received_on (ch_socket ch) (w_trace w) @ bs"
    "dispatched (w_trace (sn_world s)) = dispatched (w_trace w) @ ds"
    "receive_at E p (ch_id ch) (content ch @ bs) pc ch' ds"
    using inv(1) by (auto simp: receiver_inv_def)
  obtain fs e where pf: "parse_frames (pr_magic p) (content ch @ bs) = (fs, e)" by fastforce
  have "\<exists>k. ds = deliver_all E p (ch_id ch) (take k fs) \<and>
      (if pc = Rx_Loop then fst (parse_frames (pr_magic p) (content ch')) = drop k fs else k = length fs)"
    using i(3) pf by (auto simp: receive_at_def split: if_splits)
  moreover have "pc = Rx_Start \<or> pc = Rx_Loop \<longrightarrow> receive_next E p pc ch' (sn_world s) \<noteq> None"
    using receive_next_step [OF assms(1,2) _ inv(1)] assms(4) by (fastforce simp: chan_idle_def)
  ultimately show ?thesis
    using inv(2) i(1,2) pf unfolding senders_inv_def returned_stream_def locks_ok_def Let_def by fastforce
qed

lemma raw_silent: "callbacks_silent raw_env"
  by (simp add: callbacks_silent_def callbacks_grow_def raw_env_def raw_callback_def)

text \<open>Bytes arrive; two threads send before the receiver looks at them; then it goes on.\<close>

lemma sending_duplex:
  "(sending_step E p ch)\<^sup>*\<^sup>* s s' \<Longrightarrow> (duplex_step E p)\<^sup>*\<^sup>* (pc, ch, s) (pc, ch, s')"
  by (induction rule: rtranclp_induct) (auto intro: duplex_step.sender rtranclp.rtrancl_into_rtrancl)

theorem duplex_channel_witness:
  "\<exists>ch w pc ch' s. chan_idle raw_proto ch \<and> (duplex_step raw_env raw_proto)\<^sup>*\<^sup>* (Rx_Start, ch, senders_new w) (pc, ch', s) \<and>
     pc = Rx_Loop \<and> sn_returned s = [(7, [], 0), (5, [1, 2], 0)] \<and>
     received_on 4 (w_trace (sn_world s)) = demo_stream \<and>
     (\<exists>k. dispatched (w_trace (sn_world s)) = deliver_all raw_env raw_proto 7 (take k demo_frames) \<and>
        fst (parse_frames kMagic (content ch')) = drop k demo_frames)"
proof -
  let ?w = "raw_world (quiet_script\<lparr>sc_recv := [Received demo_stream]\<rparr>)"
  let ?w1 = "emit (Ev_recv 4 demo_stream) (raw_world quiet_script)"
  have idle: "chan_idle raw_proto demo_channel" "chan_room demo_channel" "0 \<le> ch_socket demo_channel"
    by (simp_all add: demo_channel_def new_channel_idle chan_room_def)
  have rv: "si_Recv (SocketInterface_of script_os) (ch_socket demo_channel) (1048576 - nat (ch_len demo_channel)) ?w =
      (int (length demo_stream), demo_stream, ?w1)"
    by (simp add: SocketInterface_of_def Raw_Recv_def script_os_def raw_world_def quiet_script_def demo_channel_def
        demo_stream_simps)
  have env: "si_Recv (e_si raw_env) = si_Recv (SocketInterface_of script_os)" "os_send_ok script_os \<and> os_recv_ok script_os"
    using channel_env_okD(2,3) [OF raw_channel_env_ok] by (simp_all add: raw_env_def)
  obtain ch1 where b: "receive_begin raw_env demo_channel ?w = Some (Rx_Loop, ch1, ?w1)" "same_conn demo_channel ch1"
    using sock.receive_begin_post [OF env idle(2,3) rv] by (auto simp: demo_stream_simps)
  have "duplex_step raw_env raw_proto (Rx_Start, demo_channel, senders_new ?w) (Rx_Loop, ch1, senders_new ?w1)"
    using duplex_step.receiver [of Rx_Start "senders_new ?w" raw_env raw_proto demo_channel Rx_Loop ch1 ?w1] b(1)
    by (simp add: receive_next_def senders_new_def)
  moreover obtain s where s: "(sending_step raw_env raw_proto ch1)\<^sup>*\<^sup>* (senders_new ?w1) s"
    "sn_returned s = [(7, [], 0), (5, [1, 2], 0)]"
    using two_calls_done [of ?w1 ch1] by (auto simp: raw_world_def quiet_script_def)
  ultimately have r: "(duplex_step raw_env raw_proto)\<^sup>*\<^sup>* (Rx_Start, demo_channel, senders_new ?w) (Rx_Loop, ch1, s)"
    using sending_duplex [OF s(1)] by (blast intro: converse_rtranclp_into_rtranclp)
  have "locks_ok (senders_new ?w1)" by (simp add: locks_ok_def senders_new_def)
  then have "quiet ?w1 (sn_world s)"
    using sending_steps_quiet [OF s(1) raw_channel_env_ok] by (simp add: senders_new_def)
  then have rec: "received_on 4 (w_trace (sn_world s)) = demo_stream"
    by (simp add: quiet_def raw_world_def received_on_def)
  obtain bs k where bs: "received_on 4 (w_trace (sn_world s)) = bs"
    "dispatched (w_trace (sn_world s)) = deliver_all raw_env raw_proto 7 (take k (fst (parse_frames kMagic bs)))"
    "fst (parse_frames kMagic (content ch1)) = drop k (fst (parse_frames kMagic bs))"
    using duplex_channel [OF raw_channel_env_ok raw_callbacks_quiet raw_silent idle(1) r]
    by (auto simp: demo_channel_def raw_world_def Let_def)
  have "fst (parse_frames kMagic bs) = demo_frames" using bs(1) rec parse_demo_stream by simp
  then show ?thesis using idle(1) r s(2) rec bs(2,3) by (intro exI conjI) auto
qed

end
