(* ===== verification/Gep_Directory.thy ===== *)
theory Gep_Directory
  imports Gep_Server
begin

text \<open>
  An abstract specification of what a server tells its user about clients: a counter and the
  list of the ids that are connected. The steps of the server refine it, in every
  interleaving of the service thread with the calls of other threads.
\<close>

section \<open>The directory\<close>

type_synonym directory = "int \<times> int list"

inductive directory_step :: "directory \<Rightarrow> directory \<Rightarrow> bool" where
  enter: "directory_step (next, ids) (next + 1, ids @ [next])"
| leave: "cid \<in> set ids \<Longrightarrow> directory_step (next, ids) (next, remove1 cid ids)"
| clear: "directory_step (next, ids) (next, [])"

inductive_cases directory_stepE: "directory_step (next, ids) (next', ids')"

definition directory_reach :: "directory \<Rightarrow> directory \<Rightarrow> bool" where
  "directory_reach = directory_step\<^sup>*\<^sup>*"

text \<open>The counter only grows, and an id below it that has left does not come back.\<close>

lemma directory_step_ids:
  assumes "directory_step (next, ids) (next', ids')"
  shows "next \<le> next'" and "set ids' \<subseteq> set ids \<union> {next..<next'}"
  using assms by (auto elim!: directory_stepE dest: subsetD [OF set_remove1_subset])

lemma directory_reach_ids:
  assumes "directory_reach (next, ids) (next', ids')"
  shows "next \<le> next' \<and> set ids' \<subseteq> set ids \<union> {next..<next'}"
  using assms unfolding directory_reach_def
proof (induction rule: rtranclp_induct2)
  case (step n2 ids2 n3 ids3)
  then show ?case using directory_step_ids [OF step(2)] by fastforce
qed simp

section \<open>The server's directory\<close>

definition array_directory :: "carray \<Rightarrow> directory" where
  "array_directory a = (ca_last_id a, map ch_id (ca_channels a))"

definition directory_eq_step :: "directory \<Rightarrow> directory \<Rightarrow> bool" where
  "directory_eq_step = directory_step\<^sup>=\<^sup>="

lemma array_directory_socket [simp]: "array_directory (a\<lparr>ca_server_socket := fd\<rparr>) = array_directory a"
  by (simp add: array_directory_def)

lemma directory_same [simp, intro]: "directory_eq_step d d"
  by (simp add: directory_eq_step_def)

lemma directory_clear: "ca_last_id a' = ca_last_id a \<Longrightarrow> ca_channels a' = [] \<Longrightarrow>
  directory_eq_step (array_directory a) (array_directory a')"
  by (simp add: array_directory_def directory_eq_step_def directory_step.clear)

lemma Array_receive_directory:
  assumes "server_env_ok S p" and "array_ok p a" and "Array_receive S p fds a w = Some (failed, a', w')"
  shows "array_directory a' = array_directory a"
  using Array_receive_result [OF assms(1,2), of fds w] assms(3) by (auto simp: array_directory_def)

lemma drop_channel_directory:
  assumes "hooks_steady S" and "failing_ok p ch a" and "clients_known a w"
    and "drop_channel S ch a w = (a', w')"
  shows "directory_eq_step (array_directory a) (array_directory a')"
proof -
  have fo: "ch \<in> set (ca_channels a)" "distinct (map ch_id (ca_channels a))"
    using assms(2) by (simp_all add: failing_ok_def array_shape_def)
  have a': "a' = without (ch_id ch) a" using drop_channel_result [OF assms(1-3) refl] assms(4) by simp
  have "map ch_id (ca_channels a') = remove1 (ch_id ch) (map ch_id (ca_channels a))"
    using remove1_ids [OF fo(2)] by (simp add: a')
  then show ?thesis
    using fo(1) by (simp add: a' array_directory_def directory_eq_step_def directory_step.leave)
qed

lemma AcceptConnection_directory:
  assumes "server_env_ok S p" and "array_ok p a" and "clients_known a w"
    and "AcceptConnection S a w = Some (r, a', w')"
  shows "directory_eq_step (array_directory a) (array_directory a')"
proof -
  have "a' = a \<or> ca_last_id a' = ca_last_id a + 1 \<and>
      (\<exists>fd. ca_channels a' = ca_channels a @ [GepChannel_new (se_chan S) (ca_last_id a) fd])"
    using AcceptConnection_result [OF assms(1-3) AcceptConnection_Some_room [OF assms(4,1,2)]] assms(4)
    by (auto simp: Let_def split: if_splits)
  then show ?thesis
    by (auto simp: array_directory_def directory_eq_step_def GepChannel_new_def directory_step.enter)
qed

lemma server_thread_directory:
  assumes "server_inv S (s, w)" and "Server_RunThread S s w = Some (s', w')"
  shows "directory_eq_step (array_directory (sv_array s)) (array_directory (sv_array s'))"
proof -
  note inv = server_invD [OF assms(1)]
  show ?thesis
  proof (cases "sv_pc s")
    case (S_Recv fd fds)
    then show ?thesis
      using assms(2) Array_receive_directory [OF inv(1,2)] by (auto simp: Server_RunThread_def split: bind_splits)
  next
    case (S_Drop fd fds ch)
    then have fo: "failing_ok (sv_proto s) ch (sv_array s)"
      using assms(1) by (simp add: server_inv_def serving_ok_def)
    obtain a w1 where "drop_channel S ch (sv_array s) w = (a, w1)" by fastforce
    then show ?thesis
      using assms(2) S_Drop drop_channel_directory [OF server_env_okD(2) [OF inv(1)] fo inv(3)]
      by (auto simp: Server_RunThread_def)
  next
    case (S_Accept fd fds)
    then show ?thesis
      using assms(2) AcceptConnection_directory [OF inv(1,2,3)]
      by (auto simp: Server_RunThread_def split: bind_splits if_splits)
  qed (use assms(2) in \<open>auto simp: Server_RunThread_def Let_def split: bind_splits\<close>)
qed

lemma server_step_directory:
  assumes "server_inv S (s, w)" and "server_step S (s, w) (s', w')"
  shows "directory_eq_step (array_directory (sv_array s)) (array_directory (sv_array s'))"
  using assms(2)
proof cases
  case thread
  then show ?thesis using server_thread_directory [OF assms(1)] by blast
next
  case (start r)
  then show ?thesis
    using OpenServerSocket_result [OF server_invD(1) [OF assms(1)], of "sv_array s" w]
    by (auto simp: Server_Start_def split: bind_splits if_splits)
next
  case stop
  then show ?thesis by (auto simp: Server_Stop_request_def split: if_splits)
next
  case join
  have "ca_last_id (sv_array s') = ca_last_id (sv_array s)"
    using join(3) by (auto simp: Server_Stop_join_def ClearGepChannelVector_def Array_Stop_def Let_def split: if_splits)
  moreover have "\<not> is_S_Drop (sv_pc s)" using join(2) by simp
  ultimately show ?thesis using Server_Stop_join_result [OF assms(1)] join(3) by (auto intro: directory_clear)
qed simp_all

lemma server_reach_directory:
  assumes "server_reach S (s, w) (s', w')" and "server_inv S (s, w)"
  shows "directory_reach (array_directory (sv_array s)) (array_directory (sv_array s'))"
  using assms(1) unfolding server_reach_def
proof (induction rule: rtranclp_induct2)
  case refl
  then show ?case by (simp add: directory_reach_def)
next
  case (step s2 w2 s3 w3)
  have "server_inv S (s2, w2)" using server_reach_inv [OF _ assms(2)] step(1) by (simp add: server_reach_def)
  from server_step_directory [OF this step(2)] step(3) show ?case
    unfolding directory_eq_step_def directory_reach_def by (auto intro: rtranclp.rtrancl_into_rtrancl)
qed

section \<open>Reachable states\<close>

text \<open>The bound on the number of clients is fixed.\<close>

lemma Array_receive_max: "Array_receive S p fds a w = Some (failed, a', w') \<Longrightarrow> ca_max_channels a' = ca_max_channels a"
  by (auto simp: Array_receive_def Let_def split: bind_splits option.splits if_splits)

lemma drop_channel_max: "drop_channel S ch a w = (a', w') \<Longrightarrow> ca_max_channels a' = ca_max_channels a"
  by (auto simp: drop_channel_def Let_def split: if_splits)

lemma AcceptConnection_max: "AcceptConnection S a w = Some (r, a', w') \<Longrightarrow> ca_max_channels a' = ca_max_channels a"
  by (auto simp: AcceptConnection_def AddChannel_def Let_def split: bind_splits prod.splits if_splits)

lemma server_step_max:
  assumes "server_step S (s, w) (s', w')"
  shows "ca_max_channels (sv_array s') = ca_max_channels (sv_array s)"
  using assms
proof cases
  case thread
  then show ?thesis
    by (cases "sv_pc s")
       (auto simp: Server_RunThread_def Let_def Array_receive_max drop_channel_max AcceptConnection_max
         split: bind_splits if_splits prod.splits)
next
  case (start r)
  then show ?thesis
    by (auto simp: Server_Start_def OpenServerSocket_def Let_def split: bind_splits if_splits prod.splits)
next
  case stop
  then show ?thesis by (auto simp: Server_Stop_request_def split: if_splits)
next
  case join
  then show ?thesis
    by (auto simp: Server_Stop_join_def ClearGepChannelVector_def Array_Stop_def Let_def split: if_splits)
qed simp_all

lemma server_reach_max:
  assumes "server_reach S (s, w) (s', w')"
  shows "ca_max_channels (sv_array s') = ca_max_channels (sv_array s)"
  using assms unfolding server_reach_def
  by (induction rule: rtranclp_induct2) (simp_all add: server_step_max)

text \<open>A state reached from a new server.\<close>

definition server_run_to ::
  "('w, 'm) server_env \<Rightarrow> int \<Rightarrow> proto \<Rightarrow> ('w, 'm) world \<Rightarrow> server \<Rightarrow> ('w, 'm) world \<Rightarrow> bool" where
  "server_run_to S max_channels p w0 s w \<longleftrightarrow> server_env_ok S p \<and> w_trace w0 = [] \<and>
     server_reach S (GepServer_new max_channels p, w0) (s, w)"

lemma server_run_to_inv: "server_run_to S max_channels p w0 s w \<Longrightarrow> server_inv S (s, w)"
  using server_reach_inv [OF _ server_inv_init] by (fastforce simp: server_run_to_def live_clients_def)

text \<open>The steps of the service thread alone are steps of the system.\<close>

lemma Server_RunThread_pc: "Server_RunThread S s w = Some (s', w') \<Longrightarrow> sv_pc s' \<noteq> S_None"
  by (cases "sv_pc s") (auto simp: Server_RunThread_def Server_select_def Let_def split: bind_splits if_splits prod.splits option.splits)

lemma Server_run_star:
  assumes "\<And>s w s' w'. sv_pc s \<noteq> S_None \<Longrightarrow> Server_RunThread S s w = Some (s', w') \<Longrightarrow> R (f s w) (f s' w')"
  shows "sv_pc s \<noteq> S_None \<Longrightarrow> Server_run S n s w = Some (s', w') \<Longrightarrow> R\<^sup>*\<^sup>* (f s w) (f s' w')"
proof (induction n arbitrary: s w)
  case (Suc n)
  show ?case
  proof (cases "sv_pc s = S_Exit")
    case True
    then show ?thesis using Suc.prems by simp
  next
    case False
    then obtain s1 w1 where t: "Server_RunThread S s w = Some (s1, w1)" "Server_run S n s1 w1 = Some (s', w')"
      using Suc.prems(2) by (auto split: option.splits)
    then have "R\<^sup>*\<^sup>* (f s1 w1) (f s' w')" using Suc.IH Server_RunThread_pc by blast
    then show ?thesis
      using assms [OF Suc.prems(1) t(1)] by (rule converse_rtranclp_into_rtranclp [rotated])
  qed
qed simp

lemma Server_run_reach:
  "sv_pc s \<noteq> S_None \<Longrightarrow> Server_run S n s w = Some (s', w') \<Longrightarrow> server_reach S (s, w) (s', w')"
  unfolding server_reach_def by (rule Server_run_star [of S "server_step S" Pair]) (rule server_step.thread)

end
