(* ===== verification/Gep_Server_Runs.thy ===== *)
theory Gep_Server_Runs
  imports Gep_Directory Gep_Runs
begin

text \<open>
  Concrete runs of a server and of a client on the scripted kernel, from their constructors
  to a connection. They give the inputs at which the theorems are applied.
\<close>

section \<open>Calls of the scripted kernel\<close>

lemma script_call:
  "(\<And>s. f s = (r, e, s)) \<Longrightarrow> 0 \<le> r \<Longrightarrow> syscall f ev w = (r, emit (ev r) w)"
  by (cases w) (simp add: syscall_def)

lemma script_socket: "sc_socket (w_os w) = [] \<Longrightarrow> Raw_Socket script_os w = (3, emit (Ev_socket 3) w)"
  by (cases w) (simp add: Raw_Socket_def syscall_def script_os_def)

lemma script_bind: "Raw_Bind script_os fd prt w = (0, emit (Ev_bind fd prt 0) w)"
  unfolding Raw_Bind_def by (rule script_call) (simp_all add: script_os_def)

lemma script_listen: "Raw_Listen script_os fd b w = (0, emit (Ev_listen fd b 0) w)"
  unfolding Raw_Listen_def by (rule script_call) (simp_all add: script_os_def)

lemma script_setopt: "Raw_SetSockOpt script_os fd opt v w = (0, emit (Ev_setopt fd opt v 0) w)"
  unfolding Raw_SetSockOpt_def by (rule script_call) (simp_all add: script_os_def)

lemma script_setfl: "SetNonBlocking script_os fd w = (0, emit (Ev_setfl fd 0) w)"
proof -
  have "syscall (sys_setfl script_os fd fl) (Ev_setfl fd) w = (0, emit (Ev_setfl fd 0) w)" for fl
    by (rule script_call) (simp_all add: script_os_def)
  then show ?thesis by (cases w) (simp add: SetNonBlocking_def script_os_def)
qed

lemma script_connect:
  "sc_connect (w_os w) = [] \<Longrightarrow> os_connect script_os fd prt w = (0, emit (Ev_connect fd prt 0) w)"
  by (cases w) (simp add: os_connect_def syscall_def script_os_def)

lemma script_accept:
  "sc_accept (w_os w) = fd # l \<Longrightarrow> 0 \<le> fd \<Longrightarrow> fd < 1024 \<Longrightarrow>
   Raw_Accept script_os ls w = (fd, emit (Ev_accept ls fd) (w\<lparr>w_os := (w_os w)\<lparr>sc_accept := l\<rparr>\<rparr>))"
  by (simp add: Raw_Accept_def syscall_def script_os_def clamp_fd_def FD_SETSIZE_def)

lemma script_select:
  "sc_select (w_os w) = (r, e, fds) # l \<Longrightarrow> 0 \<le> r \<Longrightarrow>
   Raw_Select script_os n rd wr tv w =
     (r, rd \<inter> fds, emit (Ev_select r) (w\<lparr>w_os := (w_os w)\<lparr>sc_select := l\<rparr>\<rparr>))"
  by (simp add: Raw_Select_def script_os_def)

lemmas script_calls = script_socket script_bind script_listen script_setopt script_setfl script_connect
  script_accept script_select

lemma script_settings:
  "SetNoDelay script_os fd w = (0, emit (Ev_setopt fd TCP_NODELAY 1 0) w)"
  "SetReuseAddr script_os fd w = (0, emit (Ev_setopt fd SO_REUSEADDR 1 0) w)"
  "SetPriority script_os fd prio w = (0, emit (Ev_setopt fd SO_PRIORITY prio 0) w)"
  by (simp_all add: SetNoDelay_def SetReuseAddr_def SetPriority_def script_setopt)

lemma script_peer: "\<exists>b. GetPeerIP script_os fd 32 buf 32 w = Some (b, w)"
proof -
  obtain b w' where g: "GetPeerIP script_os fd 32 buf 32 w = Some (b, w')" using GetPeerIP_defined by blast
  then have "w' = w" by (cases w) (auto simp: GetPeerIP_def script_os_def split: bind_splits)
  then show ?thesis using g by blast
qed

lemma raw_server_env_simps [simp]:
  "se_chan raw_server_env = raw_env" "se_si raw_server_env = SocketInterface_of script_os"
  "se_AddClient raw_server_env cid w = w" "se_DelClient raw_server_env cid w = w"
  by (simp_all add: raw_server_env_def)

section \<open>A server with one client\<close>

text \<open>
  The first \<open>select\<close> reports the service socket, and one connection is accepted; then the
  script goes on with these answers.
\<close>

definition then_script :: "(int \<times> int \<times> int set) list \<Rightarrow> recv_answer list \<Rightarrow> script" where
  "then_script sel rcv = quiet_script\<lparr>sc_select := sel, sc_recv := rcv\<rparr>"

definition one_client_script :: "(int \<times> int \<times> int set) list \<Rightarrow> recv_answer list \<Rightarrow> script" where
  "one_client_script sel rcv = (then_script sel rcv)\<lparr>sc_select := (1, 0, {3}) # sel, sc_accept := [5]\<rparr>"

definition started_server :: "int \<Rightarrow> server" where
  "started_server mx = \<lparr>sv_array = (GepChannelArray_new mx)\<lparr>ca_server_socket := 3\<rparr>, sv_proto = raw_proto,
     sv_thread_ctrl = True, sv_pc = S_Entry, sv_stopping = False\<rparr>"

text \<open>What these runs leave in the trace.\<close>

definition start_trace :: "raw_msg event list" where
  "start_trace = [Ev_socket 3, Ev_setopt 3 SO_REUSEADDR 1 0, Ev_setfl 3 0, Ev_setopt 3 TCP_NODELAY 1 0,
     Ev_setopt 3 SO_PRIORITY 4 0, Ev_bind 3 3456 0, Ev_listen 3 4 0]"

definition serve_trace :: "raw_msg event list" where
  "serve_trace = [Ev_select 1, Ev_accept 3 5, Ev_setfl 5 0, Ev_setopt 5 TCP_NODELAY 1 0,
     Ev_setopt 5 SO_PRIORITY 4 0, Ev_add_client 0]"

lemma start_run:
  assumes "sc_socket s = []"
  shows "\<exists>w. Server_Start raw_server_env (GepServer_new mx raw_proto) (raw_world s) =
      Some (0, started_server mx, w) \<and> w_os w = s \<and> w_trace w = start_trace"
  using assms
  by (simp add: Server_Start_def GepServer_new_def OpenServerSocket_def SocketInterface_of_def raw_world_def
      script_calls script_settings started_server_def GepChannelArray_new_def start_trace_def)

definition served_server :: "int \<Rightarrow> channel list \<Rightarrow> int \<Rightarrow> server" where
  "served_server mx chs next = \<lparr>sv_array = \<lparr>ca_max_channels = mx, ca_last_id = next, ca_channels = chs,
     ca_server_socket = 3\<rparr>, sv_proto = raw_proto, sv_thread_ctrl = True, sv_pc = S_Test 3, sv_stopping = False\<rparr>"

lemma select_run:
  assumes "w_os w = one_client_script sel rcv"
  shows "\<exists>w'. Server_run raw_server_env (6 + n) (started_server mx) w =
      Server_run raw_server_env n ((started_server mx)\<lparr>sv_pc := S_Accept 3 {3}\<rparr>) w' \<and>
    w_os w' = (then_script sel rcv)\<lparr>sc_accept := [5]\<rparr> \<and> w_trace w' = w_trace w @ [Ev_select 1]"
  using assms
  by (simp add: numeral_eq_Suc Server_RunThread_def started_server_def GetServerSocket_def GepChannelArray_new_def
      Server_select_def FD_SET_def FD_SETSIZE_def GetVectorReadFds_def script_select one_client_script_def
      Array_receive_def)
     (intro exI conjI, rule refl, simp_all add: then_script_def quiet_script_def)

lemma accept_run:
  assumes "w_os w = (then_script sel rcv)\<lparr>sc_accept := [5]\<rparr>"
  shows "\<exists>w'. AcceptConnection raw_server_env a w = (AddChannel raw_server_env 5 a w' \<bind> (\<lambda>(_, a, w). Some (0, a, w))) \<and>
    w_os w' = then_script sel rcv \<and> w_trace w' = w_trace w @ [Ev_accept (ca_server_socket a) 5, Ev_setfl 5 0,
      Ev_setopt 5 TCP_NODELAY 1 0, Ev_setopt 5 SO_PRIORITY 4 0]"
proof -
  obtain b where peer: "GetPeerIP script_os 5 32 (e_uninit raw_env) 32
      (emit (Ev_accept (ca_server_socket a) 5) (w\<lparr>w_os := (w_os w)\<lparr>sc_accept := []\<rparr>\<rparr>)) =
      Some (b, emit (Ev_accept (ca_server_socket a) 5) (w\<lparr>w_os := (w_os w)\<lparr>sc_accept := []\<rparr>\<rparr>))"
    using script_peer by blast
  show ?thesis
    using assms peer
    by (simp add: AcceptConnection_def SocketInterface_of_def script_accept script_settings script_setfl)
       (intro exI conjI, rule refl, simp_all add: then_script_def quiet_script_def)
qed

lemma AddChannel_room:
  assumes "0 < mx" and "mx < 100"
  shows "AddChannel raw_server_env 5 (sv_array (started_server mx)) w =
    Some (0, sv_array (served_server mx [GepChannel_new raw_env 0 5] 1), emit (Ev_add_client 0) w)"
proof -
  have "\<not> 18446744073709551616 dvd mx" using assms zdvd_not_zless [of mx] by (auto dest: zdvd_imp_le)
  then have room: "to_u64 mx \<noteq> 0" by (simp add: to_u64_def word_of_int_eq_0_iff)
  then show ?thesis
    by (simp add: AddChannel_def AddClient_def chk32_def i32_ok_def started_server_def served_server_def
        GepChannelArray_new_def Let_def)
qed

lemma serve_run:
  assumes "w_os w = one_client_script sel rcv" and "0 < mx" and "mx < 100"
  shows "\<exists>w'. Server_run raw_server_env 7 (started_server mx) w =
      Some (served_server mx [GepChannel_new raw_env 0 5] 1, w') \<and> w_os w' = then_script sel rcv \<and>
    w_trace w' = w_trace w @ serve_trace"
proof -
  let ?s = "(started_server mx)\<lparr>sv_pc := S_Accept 3 {3}\<rparr>"
  obtain w1 where w1: "Server_run raw_server_env 7 (started_server mx) w = Server_run raw_server_env 1 ?s w1"
    "w_os w1 = (then_script sel rcv)\<lparr>sc_accept := [5]\<rparr>" "w_trace w1 = w_trace w @ [Ev_select 1]"
    using select_run [OF assms(1), of 1 mx] by auto
  obtain w2 where w2: "AcceptConnection raw_server_env (sv_array (started_server mx)) w1 =
      (AddChannel raw_server_env 5 (sv_array (started_server mx)) w2 \<bind> (\<lambda>(_, a, w). Some (0, a, w)))"
    "w_os w2 = then_script sel rcv" "w_trace w2 = w_trace w1 @ [Ev_accept 3 5, Ev_setfl 5 0,
      Ev_setopt 5 TCP_NODELAY 1 0, Ev_setopt 5 SO_PRIORITY 4 0]"
    using accept_run [OF w1(2), of "sv_array (started_server mx)"] by (auto simp: started_server_def)
  have "Server_run raw_server_env 1 ?s w1 =
      Some (served_server mx [GepChannel_new raw_env 0 5] 1, emit (Ev_add_client 0) w2)"
    using w2(1) AddChannel_room [OF assms(2,3)]
    by (simp add: Server_RunThread_def FD_ISSET_def FD_SETSIZE_def) (simp add: started_server_def served_server_def)
  then show ?thesis using w1(1,3) w2(2,3) by (simp add: serve_trace_def)
qed

lemma demo_start:
  "\<exists>w. server_step raw_server_env (GepServer_new mx raw_proto, raw_world (one_client_script sel rcv))
      (started_server mx, w) \<and> w_os w = one_client_script sel rcv \<and> w_trace w = start_trace"
proof -
  obtain w where st: "Server_Start raw_server_env (GepServer_new mx raw_proto) (raw_world (one_client_script sel rcv)) =
      Some (0, started_server mx, w)" "w_os w = one_client_script sel rcv" "w_trace w = start_trace"
    using start_run [of "one_client_script sel rcv" mx]
    by (auto simp: one_client_script_def then_script_def quiet_script_def)
  have "sv_pc (GepServer_new mx raw_proto) = S_None" by (simp add: GepServer_new_def)
  from server_step.start [OF this st(1)] st(2,3) show ?thesis by (intro exI conjI)
qed

text \<open>The server, from its constructor to its first client.\<close>

lemma demo_server_run:
  assumes "0 < mx" and "mx < 100"
  shows "\<exists>w1 w. Server_Start raw_server_env (GepServer_new mx raw_proto) (raw_world (one_client_script sel rcv)) =
      Some (0, started_server mx, w1) \<and>
    Server_run raw_server_env 7 (started_server mx) w1 = Some (served_server mx [GepChannel_new raw_env 0 5] 1, w) \<and>
    w_os w = then_script sel rcv \<and> w_trace w = start_trace @ serve_trace"
proof -
  obtain w1 where st: "Server_Start raw_server_env (GepServer_new mx raw_proto) (raw_world (one_client_script sel rcv)) =
      Some (0, started_server mx, w1)" "w_os w1 = one_client_script sel rcv" "w_trace w1 = start_trace"
    using start_run [of "one_client_script sel rcv"] by (auto simp: one_client_script_def then_script_def quiet_script_def)
  then show ?thesis using serve_run [OF st(2) assms] by auto
qed

lemma demo_server_reach:
  assumes "0 < mx" and "mx < 100"
  shows "\<exists>w. server_reach raw_server_env (GepServer_new mx raw_proto, raw_world (one_client_script sel rcv))
      (served_server mx [GepChannel_new raw_env 0 5] 1, w) \<and> w_os w = then_script sel rcv \<and>
    w_trace w = start_trace @ serve_trace"
proof -
  obtain w1 w where run: "Server_Start raw_server_env (GepServer_new mx raw_proto) (raw_world (one_client_script sel rcv)) =
      Some (0, started_server mx, w1)"
    "Server_run raw_server_env 7 (started_server mx) w1 = Some (served_server mx [GepChannel_new raw_env 0 5] 1, w)"
    "w_os w = then_script sel rcv \<and> w_trace w = start_trace @ serve_trace"
    using demo_server_run [OF assms] by blast
  have "sv_pc (GepServer_new mx raw_proto) = S_None" "sv_pc (started_server mx) \<noteq> S_None"
    by (simp_all add: GepServer_new_def started_server_def)
  then have "server_reach raw_server_env (GepServer_new mx raw_proto, raw_world (one_client_script sel rcv))
      (served_server mx [GepChannel_new raw_env 0 5] 1, w)"
    using server_step.start [OF _ run(1)] Server_run_reach [OF _ run(2)]
    unfolding server_reach_def by (blast intro: converse_rtranclp_into_rtranclp)
  then show ?thesis using run(3) by blast
qed

text \<open>The server about to accept that connection.\<close>

lemma demo_accepting_reach:
  "\<exists>w. server_reach raw_server_env (GepServer_new mx raw_proto, raw_world (one_client_script sel rcv))
      ((started_server mx)\<lparr>sv_pc := S_Accept 3 {3}\<rparr>, w) \<and> w_os w = (then_script sel rcv)\<lparr>sc_accept := [5]\<rparr>"
proof -
  obtain w1 where st: "server_step raw_server_env (GepServer_new mx raw_proto, raw_world (one_client_script sel rcv))
      (started_server mx, w1)" "w_os w1 = one_client_script sel rcv" "w_trace w1 = start_trace"
    using demo_start by blast
  obtain w2 where run: "Server_run raw_server_env 6 (started_server mx) w1 =
      Some ((started_server mx)\<lparr>sv_pc := S_Accept 3 {3}\<rparr>, w2)" "w_os w2 = (then_script sel rcv)\<lparr>sc_accept := [5]\<rparr>"
    using select_run [OF st(2), of 0 mx] by auto
  have "sv_pc (started_server mx) \<noteq> S_None" by (simp add: started_server_def)
  from Server_run_reach [OF this run(1)] show ?thesis
    using st run(2) unfolding server_reach_def by (blast intro: converse_rtranclp_into_rtranclp)
qed

end
