(* ===== verification/Server_Properties.thy ===== *)
theory Server_Properties
  imports Gep_Server_Runs
begin

text \<open>
  The properties of the server: its service thread, its array of channels and the calls of
  other threads, each with an application at a concrete run on the scripted kernel.
\<close>

section \<open>Reachable states\<close>

text \<open>A state some interleaving leads to, from a server just made in a program just started.\<close>

definition server_state ::
  "('w, 'm) server_env \<Rightarrow> int \<Rightarrow> proto \<Rightarrow> server \<Rightarrow> ('w, 'm) world \<Rightarrow> bool" where
  "server_state S max_channels p s w \<longleftrightarrow> server_env_ok S p \<and>
     (\<exists>w0. w_trace w0 = [] \<and> server_reach S (GepServer_new max_channels p, w0) (s, w))"

lemma server_state_inv: "server_state S max_channels p s w \<Longrightarrow> server_inv S (s, w)"
  using server_reach_inv server_inv_init by (fastforce simp: server_state_def live_clients_def)

lemma server_state_channels:
  assumes "server_state S max_channels p s w" and "ch \<in> set (ca_channels (sv_array s))"
  shows "0 \<le> ch_socket ch" and "ch_socket ch < FD_SETSIZE" and "IsOpenSocket ch"
    and "0 \<le> ch_len ch" and "ch_len ch \<le> 1048576"
    and "\<not> is_S_Drop (sv_pc s) \<Longrightarrow> ch_len ch < 1048576"
proof -
  note inv = server_invD [OF server_state_inv [OF assms(1)]] and shape = array_shapeD [OF server_invD(6) [OF server_state_inv [OF assms(1)]] assms(2)]
  show "0 \<le> ch_socket ch" "ch_socket ch < FD_SETSIZE" "IsOpenSocket ch" "0 \<le> ch_len ch" "ch_len ch \<le> 1048576"
    using shape by (simp_all add: chan_ok_def)
  show "ch_len ch < 1048576" if "\<not> is_S_Drop (sv_pc s)"
    using array_okD(2) [OF inv(2) [OF that] assms(2)] by (simp add: chan_idle_def chan_room_def)
qed

lemma server_state_room:
  assumes "server_state S max_channels p s w" and "ca_last_id (sv_array s) < 2147483647"
  shows "i32_ok (ca_last_id (sv_array s) + 1)"
  using server_invD(6) [OF server_state_inv [OF assms(1)]] assms(2) by (simp add: array_shape_def i32_ok_def)

lemma server_state_reach:
  assumes "server_reach raw_server_env (GepServer_new mx raw_proto, raw_world scr) (s, w)"
  shows "server_state raw_server_env mx raw_proto s w"
proof -
  have "w_trace (raw_world scr) = []" by (simp add: raw_world_def)
  then show ?thesis using assms raw_server_env_ok unfolding server_state_def by blast
qed

text \<open>The server of the applications: one client, with id 0 and descriptor 5.\<close>

abbreviation demo_server :: server where
  "demo_server \<equiv> served_server 2 [GepChannel_new raw_env 0 5] 1"

lemma demo_server_state:
  "\<exists>w. server_state raw_server_env 2 raw_proto demo_server w \<and> w_os w = then_script sel rcv"
  using demo_server_reach [of 2 sel rcv] server_state_reach by fastforce

lemma demo_server_simps [simp]:
  "sv_proto demo_server = raw_proto" "sv_pc demo_server = S_Test 3" "ca_last_id (sv_array demo_server) = 1"
  "ca_channels (sv_array demo_server) = [GepChannel_new raw_env 0 5]"
  "ca_server_socket (sv_array demo_server) = 3" "sv_thread_ctrl demo_server"
  by (simp_all add: served_server_def)

text \<open>C16: In every reachable state, whatever the interleaving of the service thread with starts,
  stops and sends, the clients announced and not yet taken back are exactly those in the vector,
  in order; their ids are distinct, there are at most \<open>max_channels\<close> of them, each has an open
  descriptor below \<open>FD_SETSIZE\<close> and a buffer that is not overrun, with room left in it unless a
  channel that failed is being dropped; and without a service thread there is none.\<close>

theorem server_clients_invariant:
  assumes "server_state S max_channels p s w"
  shows "live_clients (w_trace w) = map ch_id (ca_channels (sv_array s)) \<and>
    distinct (map ch_id (ca_channels (sv_array s))) \<and>
    length (ca_channels (sv_array s)) \<le> unat (to_u64 max_channels) \<and>
    (\<forall>ch \<in> set (ca_channels (sv_array s)).
      0 \<le> ch_socket ch \<and> ch_socket ch < FD_SETSIZE \<and> 0 \<le> ch_len ch \<and> ch_len ch \<le> 1048576 \<and>
      (ch_len ch = 1048576 \<longrightarrow> is_S_Drop (sv_pc s))) \<and>
    (sv_pc s = S_None \<longrightarrow> ca_channels (sv_array s) = [])"
proof -
  note inv = server_invD [OF server_state_inv [OF assms]]
  have "ca_max_channels (sv_array s) = max_channels"
    using assms server_reach_max by (fastforce simp: server_state_def GepServer_new_def GepChannelArray_new_def)
  then show ?thesis
    using inv(3,4,6) server_state_channels [OF assms]
    by (fastforce simp: array_shape_def clients_known_def pc_ok_def)
qed

theorem server_clients_invariant_witness:
  "\<exists>w. server_state raw_server_env 2 raw_proto demo_server w \<and>
     live_clients (w_trace w) = [0]"
proof -
  obtain w where w: "server_state raw_server_env 2 raw_proto demo_server w"
    using demo_server_state by blast
  show ?thesis using w server_clients_invariant [OF w] by (auto simp: served_server_def)
qed

text \<open>C19: The ids of a server's clients refine an abstract directory: each step of the system
  enters the next id, takes one away, clears them all or leaves them. So a client id that was
  given out and is gone never comes back, in any continuation of the run.\<close>

theorem server_ids_never_reused:
  assumes "server_state S max_channels p s w" and "server_reach S (s, w) (s', w')"
  shows "directory_reach (array_directory (sv_array s)) (array_directory (sv_array s')) \<and>
    (\<forall>cid < ca_last_id (sv_array s). cid \<notin> set (live_clients (w_trace w)) \<longrightarrow>
      cid \<notin> set (live_clients (w_trace w')))"
proof -
  note inv = server_state_inv [OF assms(1)]
  have d: "directory_reach (array_directory (sv_array s)) (array_directory (sv_array s'))"
    by (rule server_reach_directory [OF assms(2) inv])
  have live: "live_clients (w_trace x) = snd (array_directory (sv_array t))" if "server_inv S (t, x)" for t x
    using server_invD(3) [OF that] by (simp add: clients_known_def array_directory_def)
  show ?thesis
    using d directory_reach_ids [OF d [unfolded array_directory_def]]
      live [OF inv] live [OF server_reach_inv [OF assms(2) inv]]
    by (auto simp: array_directory_def)
qed

theorem server_ids_never_reused_witness:
  "\<exists>w. server_state raw_server_env 2 raw_proto (GepServer_new 2 raw_proto) w \<and>
     directory_reach (0, []) (1, [0])"
proof -
  let ?s = "GepServer_new 2 raw_proto" and ?w = "raw_world (one_client_script [] [])"
  have st: "server_state raw_server_env 2 raw_proto ?s ?w"
    by (rule server_state_reach [of _ "one_client_script [] []"]) (simp add: server_reach_def)
  obtain w where r: "server_reach raw_server_env (?s, ?w) (demo_server, w)"
    using demo_server_reach [of 2 "[]" "[]"] by auto
  show ?thesis
    using st server_ids_never_reused [OF st r]
    by (auto simp: array_directory_def GepServer_new_def GepChannelArray_new_def served_server_def)
qed

section \<open>Starting\<close>



section \<open>The service thread\<close>



text \<open>C21: Once another thread has asked it to stop, the service thread finishes within three of its
  steps, whatever it was doing. The join that follows closes the service socket and every client's
  descriptor, in that order, takes every client back and leaves a server that can be started again:
  no thread, no clients, no socket. It keeps the port it took at the start and the counter of client
  ids. Assumed: the counter has not reached the largest \<open>int\<close>.\<close>

theorem server_stops:
  assumes "server_state S max_channels p s w" and "Server_Stop_request s = Some s1"
    and "ca_last_id (sv_array s) < 2147483647"
  shows "\<exists>s2 w2 s3 w3. Server_run S 3 s1 w = Some (s2, w2) \<and> sv_pc s2 = S_Exit \<and>
    Server_Stop_join S s2 w2 = (s3, w3) \<and> sv_pc s3 = S_None \<and> \<not> sv_thread_ctrl s3 \<and> \<not> sv_stopping s3 \<and>
    sv_array s3 = (sv_array s2)\<lparr>ca_channels := [], ca_server_socket := -1\<rparr> \<and> sv_proto s3 = sv_proto s2 \<and>
    live_clients (w_trace w3) = [] \<and>
    closed_fds (w_trace w3) = closed_fds (w_trace w2) @
      (if 0 \<le> ca_server_socket (sv_array s2) then [ca_server_socket (sv_array s2)] else []) @
      map ch_socket (ca_channels (sv_array s2))"
proof -
  note inv = server_state_inv [OF assms(1)]
  have s1: "s1 = s\<lparr>sv_thread_ctrl := False, sv_stopping := True\<rparr>" "sv_pc s \<noteq> S_None"
    using assms(2) by (auto simp: Server_Stop_request_def split: if_splits)
  have inv1: "server_inv S (s1, w)" by (rule Server_Stop_request_inv [OF inv assms(2)])
  have room: "i32_ok (ca_last_id (sv_array s1) + 1)" using server_state_room [OF assms(1,3)] s1(1) by simp
  have rank: "pc_rank (sv_pc s1) \<le> 3" by (cases "sv_pc s1") simp_all
  obtain s2 w2 where run: "Server_run S 3 s1 w = Some (s2, w2)" "sv_pc s2 = S_Exit" "server_inv S (s2, w2)"
    "\<not> sv_thread_ctrl s2"
    using thread_finishes [OF inv1 _ _ rank room] s1 by auto
  then show ?thesis using Server_Stop_join_result [OF run(3)] by auto
qed

theorem server_stops_witness:
  "\<exists>w s2 w2 s3 w3. Server_run raw_server_env 3
       (demo_server\<lparr>sv_thread_ctrl := False, sv_stopping := True\<rparr>) w = Some (s2, w2) \<and>
     Server_Stop_join raw_server_env s2 w2 = (s3, w3) \<and> live_clients (w_trace w3) = []"
proof -
  let ?s = "demo_server"
  obtain w where w: "server_state raw_server_env 2 raw_proto ?s w"
    using demo_server_state by blast
  have "Server_Stop_request ?s = Some (?s\<lparr>sv_thread_ctrl := False, sv_stopping := True\<rparr>)"
    by (simp add: Server_Stop_request_def served_server_def)
  from server_stops [OF w this] show ?thesis by simp blast
qed

text \<open>C23: One pass of the service thread receives from at most one client, the first in the
  vector whose descriptor is ready. If that receive succeeds only that channel changes; if it
  fails, exactly that client is taken out, its descriptor is closed, the server is told, and
  every other channel is untouched.\<close>

theorem server_receives_first_ready:
  assumes "server_state S max_channels p s w" and "\<not> is_S_Drop (sv_pc s)"
  shows "\<exists>a' w'. Array_RecvData S (sv_proto s) read_fds (sv_array s) w = Some (a', w') \<and>
    live_clients (w_trace w') = map ch_id (ca_channels a') \<and>
    (case find (\<lambda>ch. ch_socket ch \<in> read_fds) (ca_channels (sv_array s)) of
       None \<Rightarrow> a' = sv_array s \<and> w' = w
     | Some ch \<Rightarrow> \<exists>r ch' w1. RecvData (se_chan S) (sv_proto s) ch w = Some (r, ch', w1) \<and>
         (if r = 0 then ca_channels a' = update_channel ch' (ca_channels (sv_array s)) \<and> w' = w1
          else ca_channels a' = filter (\<lambda>c. ch_id c \<noteq> ch_id ch) (ca_channels (sv_array s)) \<and>
            w' = GepChannel_destroy (se_chan S) ch' (DelClient S (ch_id ch) w1) \<and>
            closed_fds (w_trace w') = closed_fds (w_trace w) @ [ch_socket ch]))"
proof -
  note inv = server_invD [OF server_state_inv [OF assms(1)]]
  show ?thesis
    using Array_RecvData_result [OF inv(1) inv(2) [OF assms(2)] inv(3), of read_fds] unfolding clients_known_def by blast
qed

theorem server_receives_first_ready_witness:
  "\<exists>w a' w'. Array_RecvData raw_server_env raw_proto {5} (sv_array demo_server) w =
       Some (a', w') \<and> live_clients (w_trace w') = map ch_id (ca_channels a')"
proof -
  obtain w where w: "server_state raw_server_env 2 raw_proto demo_server w"
    using demo_server_state by blast
  show ?thesis using server_receives_first_ready [OF w, of "{5}"] by (auto simp: served_server_def)
qed

section \<open>Accepting\<close>

text \<open>With room left, an accepted connection gets the next client id, which the server is told
  of, and a channel with an empty buffer at the end of the vector; a failed accept changes nothing
  and returns -1. Nothing is closed either way.\<close>

theorem server_accepts:
  assumes "server_state S max_channels p s w" and "\<not> is_S_Drop (sv_pc s)" and "\<not> array_full (sv_array s)"
    and "ca_last_id (sv_array s) < 2147483647"
    and "Raw_Accept (e_os (se_chan S)) (ca_server_socket (sv_array s)) w = (fd, w1)"
  shows "\<exists>r a' w'. AcceptConnection S (sv_array s) w = Some (r, a', w') \<and>
    closed_fds (w_trace w') = closed_fds (w_trace w) \<and>
    (if fd = -1 then r = -1 \<and> a' = sv_array s \<and> live_clients (w_trace w') = live_clients (w_trace w)
     else r = 0 \<and> ca_last_id a' = ca_last_id (sv_array s) + 1 \<and>
       ca_channels a' = ca_channels (sv_array s) @ [GepChannel_new (se_chan S) (ca_last_id (sv_array s)) fd] \<and>
       live_clients (w_trace w') = live_clients (w_trace w) @ [ca_last_id (sv_array s)])"
proof -
  note inv = server_invD [OF server_state_inv [OF assms(1)]]
  show ?thesis
    using AcceptConnection_result [OF inv(1) inv(2) [OF assms(2)] inv(3)] server_state_room [OF assms(1,4)]
      assms(3,5) inv(3)
    by (auto simp: clients_known_def GepChannel_new_def split: if_splits)
qed

theorem server_accepts_witness:
  "\<exists>s w a' w'. server_state raw_server_env 2 raw_proto s w \<and> ca_channels (sv_array s) = [] \<and>
     AcceptConnection raw_server_env (sv_array s) w = Some (0, a', w') \<and>
     ca_channels a' = [GepChannel_new raw_env 0 5] \<and> live_clients (w_trace w') = [0]"
proof -
  let ?s = "(started_server 2)\<lparr>sv_pc := S_Accept 3 {3}\<rparr>"
  obtain w where w: "server_state raw_server_env 2 raw_proto ?s w" "sc_accept (w_os w) = [5]"
    using demo_accepting_reach [of 2 "[]" "[]"] server_state_reach by fastforce
  have "live_clients (w_trace w) = []"
    using server_state_inv [OF w(1)] by (auto simp: server_inv_def clients_known_def started_server_def GepChannelArray_new_def)
  moreover have "\<not> array_full (sv_array ?s)"
    by (simp add: array_full_def started_server_def GepChannelArray_new_def to_u64_def)
  moreover have "ca_last_id (sv_array ?s) = 0" "ca_channels (sv_array ?s) = []"
    by (simp_all add: started_server_def GepChannelArray_new_def)
  ultimately show ?thesis
    using server_accepts [OF w(1)] script_accept [OF w(2), of "ca_server_socket (sv_array ?s)"] w(1) by fastforce
qed

text \<open>C24: When the vector is full, an accepted connection is neither kept nor closed: the call
  returns 0 with the array as it was and no client announced, and its descriptor, which the
  program now owns, is in no channel.\<close>

theorem server_full_drops_descriptor:
  assumes "server_state S max_channels p s w" and "\<not> is_S_Drop (sv_pc s)" and "array_full (sv_array s)"
    and "Raw_Accept (e_os (se_chan S)) (ca_server_socket (sv_array s)) w = (fd, w1)" and "0 \<le> fd"
  shows "\<exists>w'. AcceptConnection S (sv_array s) w = Some (0, sv_array s, w') \<and>
    opened_fds (w_trace w') = opened_fds (w_trace w) @ [fd] \<and>
    closed_fds (w_trace w') = closed_fds (w_trace w) \<and>
    live_clients (w_trace w') = live_clients (w_trace w)"
proof -
  note inv = server_invD [OF server_state_inv [OF assms(1)]]
  show ?thesis
    using AcceptConnection_result [OF inv(1) inv(2) [OF assms(2)] inv(3)] assms(3-5) inv(3) by (auto simp: clients_known_def split: if_splits)
qed

theorem server_full_drops_descriptor_witness:
  "\<exists>s w w'. server_state raw_server_env 0 raw_proto s w \<and>
     AcceptConnection raw_server_env (sv_array s) w = Some (0, sv_array s, w') \<and>
     opened_fds (w_trace w') = opened_fds (w_trace w) @ [5] \<and> closed_fds (w_trace w') = closed_fds (w_trace w)"
proof -
  let ?s = "(started_server 0)\<lparr>sv_pc := S_Accept 3 {3}\<rparr>"
  obtain w where w: "server_state raw_server_env 0 raw_proto ?s w" "sc_accept (w_os w) = [5]"
    using demo_accepting_reach [of 0 "[]" "[]"] server_state_reach by fastforce
  have "array_full (sv_array ?s)"
    by (simp add: array_full_def started_server_def GepChannelArray_new_def to_u64_def)
  then show ?thesis
    using server_full_drops_descriptor [OF w(1)] script_accept [OF w(2), of "ca_server_socket (sv_array ?s)"] w(1)
    by fastforce
qed

section \<open>Sending\<close>

text \<open>C25: A broadcast sends to every client, one after the other in the order of the vector, each in
  the world the send before left, whatever that returned. The i-th client gets the first \<open>ks ! i\<close>
  bytes of the one wire form of the message, on its own descriptor and on no other; its send
  returned 0 exactly when that is all of it, and otherwise -1; and the broadcast returns 0 exactly
  when all did, otherwise -1. It opens, closes and announces nothing, even when a client's send
  fails.\<close>

theorem server_broadcast:
  assumes "server_state S max_channels p s w" and "Server_Send S msg s w = Some (r, w')"
  shows "let chs = ca_channels (sv_array s); n = length chs;
      msg_bytes = message_wire (se_chan S) (sv_proto s) msg in
    (\<exists>ks rs ws. length ks = n \<and> length rs = n \<and> length ws = Suc n \<and> ws ! 0 = w \<and> ws ! n = w' \<and>
      (\<forall>i < n. SendMessage (se_chan S) (sv_proto s) (chs ! i) msg (ws ! i) = Some (rs ! i, ws ! Suc i) \<and>
        ks ! i \<le> length msg_bytes \<and>
        (\<forall>fd. sent_on fd (w_trace (ws ! Suc i)) = sent_on fd (w_trace (ws ! i)) @
          (if fd = ch_socket (chs ! i) then take (ks ! i) msg_bytes else [])) \<and>
        rs ! i = (if Serialize (e_pb (se_chan S)) (sv_proto s) msg \<noteq> None \<and> ks ! i = length msg_bytes then 0 else -1)) \<and>
      r = (if \<forall>i < n. rs ! i = 0 then 0 else -1)) \<and>
    live_clients (w_trace w') = live_clients (w_trace w) \<and> closed_fds (w_trace w') = closed_fds (w_trace w) \<and>
    opened_fds (w_trace w') = opened_fds (w_trace w)"
proof -
  let ?E = "se_chan S" and ?p = "sv_proto s" and ?chs = "ca_channels (sv_array s)"
  let ?m = "message_wire ?E ?p msg" and ?ser = "Serialize (e_pb ?E) ?p msg \<noteq> None"
  have op: "\<forall>ch \<in> set ?chs. IsOpenSocket ch" using server_state_channels [OF assms(1)] by blast
  have env: "channel_env_ok ?E ?p"
    using server_env_okD(1) [OF server_invD(1) [OF server_state_inv [OF assms(1)]]] .
  have se: "send_each ?E ?p msg ?chs 0 w = Some (r, w')"
    using assms(2) by (simp add: Server_Send_def Array_SendMessage_def)
  from send_each_runs [OF se op] obtain rs ws where rs: "length rs = length ?chs" "length ws = Suc (length ?chs)" "ws ! 0 = w" "ws ! length ?chs = w'"
    "\<forall>i < length ?chs. SendMessage ?E ?p (?chs ! i) msg (ws ! i) = Some (rs ! i, ws ! Suc i)"
    "r = (if list_all (\<lambda>x. 0 \<le> x) rs then 0 else -1)"
    by blast
  have "\<exists>k. k \<le> length ?m \<and> sends (ch_socket (?chs ! i)) (take k ?m) (ws ! i) (ws ! Suc i) \<and>
      rs ! i = (if ?ser \<and> k = length ?m then 0 else -1)" if "i < length ?chs" for i
    using SendMessage_prefix [OF env] rs(5) that by (fastforce simp: send_post_def)
  then obtain k where k: "\<And>i. i < length ?chs \<Longrightarrow> k i \<le> length ?m \<and>
      sends (ch_socket (?chs ! i)) (take (k i) ?m) (ws ! i) (ws ! Suc i) \<and>
      rs ! i = (if ?ser \<and> k i = length ?m then 0 else -1)"
    by metis
  have on: "sent_on fd (w_trace (ws ! Suc i)) = sent_on fd (w_trace (ws ! i)) @
      (if fd = ch_socket (?chs ! i) then take (k i) ?m else [])" if "i < length ?chs" for i fd
    using k [OF that] sends_sent_on sends_sent_other by fastforce
  have "list_all (\<lambda>x. 0 \<le> x) rs \<longleftrightarrow> (\<forall>i < length ?chs. rs ! i = 0)"
    using k rs(1) by (fastforce simp: list_all_length split: if_splits)
  moreover have "steady w w'" by (rule Server_Send_steady(1) [OF server_state_inv [OF assms(1)] assms(2)])
  ultimately show ?thesis
    unfolding Let_def steady_def using rs k on
    by (intro conjI exI [of _ "map k [0..<length ?chs]"] exI [of _ rs] exI [of _ ws]) auto
qed

lemma demo_server_send:
  assumes "w_os w = quiet_script"
  shows "\<exists>w'. Server_Send raw_server_env (5, [1, 2]) demo_server w = Some (0, w')"
    and "\<exists>w'. Server_SendTo raw_server_env (5, [1, 2]) 0 demo_server w = Some (0, w')"
proof -
  have "SendMessage raw_env raw_proto ch (5, [1, 2]) w =
      Some (0, sent (ch_socket ch) [1, 2] (sent (ch_socket ch) (header_bytes kMagic 5 2) w))" for ch
    using raw_SendMessage [of w "[1, 2]" ch 5] assms by (simp add: quiet_script_def)
  then show "\<exists>w'. Server_Send raw_server_env (5, [1, 2]) demo_server w = Some (0, w')"
    "\<exists>w'. Server_SendTo raw_server_env (5, [1, 2]) 0 demo_server w = Some (0, w')"
    by (simp_all add: Server_Send_def Server_SendTo_def Array_SendMessage_def Array_SendMessageTo_def IsOpenSocket_def)
qed

theorem server_broadcast_witness:
  "\<exists>w w'. Server_Send raw_server_env (5, [1, 2]) demo_server w = Some (0, w') \<and>
     sent_on 5 (w_trace w') = sent_on 5 (w_trace w) @ message_wire raw_env raw_proto (5, [1, 2])"
proof -
  obtain w where w: "server_state raw_server_env 2 raw_proto demo_server w" "w_os w = quiet_script"
    using demo_server_state [of "[]" "[]"] by (auto simp: then_script_def quiet_script_def)
  obtain w' where w': "Server_Send raw_server_env (5, [1, 2]) demo_server w = Some (0, w')"
    using demo_server_send(1) [OF w(2)] by blast
  show ?thesis
    using server_broadcast [OF w(1) w'] w' by (auto simp: Let_def split: if_splits)
qed

text \<open>C26: A send to one client goes to the channel with that id and to no other: a prefix of the
  message's wire form, all of it exactly when 0 is returned. An id that is not connected gets
  nothing and -1.\<close>

theorem server_send_to_one:
  assumes "server_state S max_channels p s w" and "Server_SendTo S msg cid s w = Some (r, w')"
  shows "case find (\<lambda>ch. ch_id ch = cid) (ca_channels (sv_array s)) of
      None \<Rightarrow> r = -1 \<and> w' = w
    | Some ch \<Rightarrow> \<exists>k \<le> length (message_wire (se_chan S) (sv_proto s) msg).
        sent_on (ch_socket ch) (w_trace w') =
          sent_on (ch_socket ch) (w_trace w) @ take k (message_wire (se_chan S) (sv_proto s) msg) \<and>
        (\<forall>fd. fd \<noteq> ch_socket ch \<longrightarrow> sent_on fd (w_trace w') = sent_on fd (w_trace w)) \<and>
        (r = 0 \<longleftrightarrow> Serialize (e_pb (se_chan S)) (sv_proto s) msg \<noteq> None \<and>
           k = length (message_wire (se_chan S) (sv_proto s) msg)) \<and> r \<in> {0, -1}"
proof -
  let ?chs = "ca_channels (sv_array s)"
  have "find (\<lambda>ch. IsOpenSocket ch \<and> cid = ch_id ch) ?chs = find (\<lambda>ch. ch_id ch = cid) ?chs"
    using server_state_channels(3) [OF assms(1)] by (intro find_cong) auto
  moreover have env: "channel_env_ok (se_chan S) (sv_proto s)"
    using server_env_okD(1) [OF server_invD(1) [OF server_state_inv [OF assms(1)]]] .
  ultimately show ?thesis
    using chan.send_one_law [OF refl env, of msg cid ?chs w r w'] assms(2)
    by (fastforce simp: Server_SendTo_def Array_SendMessageTo_def send_post_def sends_sent_on sends_sent_other
        split: option.splits)
qed

theorem server_send_to_one_witness:
  "\<exists>w w'. Server_SendTo raw_server_env (5, [1, 2]) 0 demo_server w = Some (0, w') \<and>
     (\<forall>fd. fd \<noteq> 5 \<longrightarrow> sent_on fd (w_trace w') = sent_on fd (w_trace w))"
proof -
  obtain w where w: "server_state raw_server_env 2 raw_proto demo_server w" "w_os w = quiet_script"
    using demo_server_state [of "[]" "[]"] by (auto simp: then_script_def quiet_script_def)
  obtain w' where w': "Server_SendTo raw_server_env (5, [1, 2]) 0 demo_server w = Some (0, w')"
    using demo_server_send(2) [OF w(2)] by blast
  show ?thesis using server_send_to_one [OF w(1) w'] w' by auto
qed

section \<open>An interrupted wait\<close>

lemma RecvData_failed:
  assumes "channel_env_ok E p" and "chan_idle p ch"
    and "Raw_Recv (e_os E) (ch_socket ch) (1048576 - nat (ch_len ch)) w = (-1, [], w1)"
  shows "\<exists>ch' w'. RecvData E p ch w = Some (-1, ch', w')"
proof -
  have idle: "chan_room ch" "0 \<le> ch_socket ch" using assms(2) by (simp_all add: chan_idle_def)
  obtain ret bs w2 r ch' w' where "si_Recv (SocketInterface_of (e_os E)) (ch_socket ch) (1048576 - nat (ch_len ch)) w = (ret, bs, w2)"
    and rd: "RecvData E p ch w = Some (r, ch', w')" and post: "recv_post E p ch w ret bs r ch' w'"
    using sock.RecvData_post [OF channel_env_okD(2-4) [OF assms(1)] idle] by blast
  then have "ret = -1" using assms(3) by (simp add: SocketInterface_of_def)
  then have "r = -1" using post by (simp add: recv_post_def)
  then show ?thesis using rd by blast
qed

lemma interrupted_receive:
  assumes "server_state S max_channels p s w" and "ca_channels (sv_array s) = ch # chs"
    and "ch_socket ch \<in> fds" and "\<not> is_S_Drop (sv_pc s)"
    and "Raw_Recv (e_os (se_chan S)) (ch_socket ch) (1048576 - nat (ch_len ch)) w1 = (-1, [], w2)"
    and "steady w w1"
  shows "\<exists>a' w' ch' a1 w3. Array_RecvData S (sv_proto s) fds (sv_array s) w1 = Some (a', w') \<and>
    Array_receive S (sv_proto s) fds (sv_array s) w1 = Some (Some ch', a1, w3) \<and>
    drop_channel S ch' a1 w3 = (a', w') \<and> ca_channels a' = chs \<and>
    live_clients (w_trace w') = map ch_id chs \<and> closed_fds (w_trace w') = closed_fds (w_trace w) @ [ch_socket ch]"
proof -
  note inv = server_invD [OF server_state_inv [OF assms(1)]] and aok = server_invD(2) [OF server_state_inv [OF assms(1)] assms(4)]
  have find: "find (\<lambda>ch. ch_socket ch \<in> fds) (ca_channels (sv_array s)) = Some ch" using assms(2,3) by simp
  have "chan_idle (sv_proto s) ch" using array_okD(2) [OF aok] assms(2) by simp
  then obtain ch' w' where rd: "RecvData (se_chan S) (sv_proto s) ch w1 = Some (-1, ch', w')"
    using RecvData_failed [OF server_env_okD(1) [OF inv(1)] _ assms(5)] by blast
  have "filter (\<lambda>c. ch_id c \<noteq> ch_id ch) (ca_channels (sv_array s)) = chs"
    using aok assms(2) by (simp add: array_ok_def filter_id_absent)
  moreover obtain a1 where "Array_receive S (sv_proto s) fds (sv_array s) w1 = Some (Some ch', a1, w')"
    using rd find first_ready_find [of "ca_channels (sv_array s)" fds] array_okD [OF aok]
    by (auto simp: Array_receive_def)
  ultimately show ?thesis
    using Array_RecvData_result [OF inv(1) aok clients_known_steady [OF inv(3) assms(6)], of fds] find rd assms(6)
    by (auto simp: Array_RecvData_def clients_known_def steady_def split: prod.splits)
qed

text \<open>C27: A signal that interrupts the wait ends the service. \<open>select\<close> leaves the set as it was, so
  everything in it counts as ready: the thread receives from the first client, which sent nothing,
  drops it and closes its connection because there is nothing to read, and then accepts a
  connection although none is pending, takes the failure for a fatal one and exits, within six
  steps and with \<open>thread_ctrl_\<close> still set.\<close>

theorem interrupted_select_ends_service:
  assumes "server_state S max_channels p s w" and "sv_pc s = S_Select fd" and "sv_thread_ctrl s"
    and "ca_channels (sv_array s) = ch # chs" and "os_select_ok (e_os (se_chan S))"
    and "GetVectorReadFds (sv_array s) fd {fd} = Some (mx, fds)"
    and "Raw_Select (e_os (se_chan S)) (mx + 1) fds {} (usecs_to_timeval (pr_select_timeout_usec (sv_proto s))) w =
      (r, rd, w1)" and "r < 0" and "w_errno w1 = EINTR"
    and "Raw_Recv (e_os (se_chan S)) (ch_socket ch) (1048576 - nat (ch_len ch)) w1 = (-1, [], w2)"
    and "Array_RecvData S (sv_proto s) fds (sv_array s) w1 = Some (a, w3)"
    and "fst (Raw_Accept (e_os (se_chan S)) fd w3) = -1"
  shows "\<exists>s' w'. Server_run S 6 s w = Some (s', w') \<and> sv_pc s' = S_Exit \<and> sv_thread_ctrl s' \<and>
    ca_channels (sv_array s') = chs \<and> live_clients (w_trace w') = map ch_id chs \<and>
    closed_fds (w_trace w') = closed_fds (w_trace w) @ [ch_socket ch]"
proof -
  note inv = server_invD [OF server_state_inv [OF assms(1)]]
  have nd: "\<not> is_S_Drop (sv_pc s)" using assms(2) by simp
  note aok = inv(2) [OF nd]
  have fd: "0 \<le> fd" "fd < FD_SETSIZE" "ca_server_socket (sv_array s) = fd"
    using aok inv(4) assms(2) by (auto simp: pc_ok_def array_ok_def)
  have rd: "rd = fds"
    using assms(5,7,8) by (fastforce simp: os_select_ok_def Raw_Select_def split: prod.splits)
  have fds: "ch_socket ch \<in> fds" "fd \<in> fds"
    using collect_fds_defined [of "ca_channels (sv_array s)" fd "{fd}"] array_okD [OF aok] fd(2) assms(4,6)
    by (auto simp: GetVectorReadFds_def)
  have rv: "ca_channels a = chs" "live_clients (w_trace w3) = map ch_id chs"
    "closed_fds (w_trace w3) = closed_fds (w_trace w) @ [ch_socket ch]"
    using interrupted_receive [OF assms(1,4) fds(1) nd assms(10) Raw_Select_steady [OF assms(7)]] assms(11) by auto
  have a: "array_ok (sv_proto s) a" "clients_known a w3" "ca_server_socket a = fd"
    using Array_RecvData_result [OF inv(1) aok clients_known_steady [OF inv(3) Raw_Select_steady [OF assms(7)]], of fds]
      assms(11) fd(3) by auto
  obtain w4 where ac: "AcceptConnection S a w3 = Some (-1, a, w4)" "clients_known a w4"
    "closed_fds (w_trace w4) = closed_fds (w_trace w3)"
    using AcceptConnection_result [OF inv(1) a(1,2)] assms(12) a(3) by auto
  obtain ch' a1 v where rc: "Array_receive S (sv_proto s) fds (sv_array s) w1 = Some (Some ch', a1, v)"
    "drop_channel S ch' a1 v = (a, w3)"
    using interrupted_receive [OF assms(1,4) fds(1) nd assms(10) Raw_Select_steady [OF assms(7)]] assms(11) by auto
  have "Server_run S 6 s w = Some (s\<lparr>sv_array := a, sv_pc := S_Exit\<rparr>, w4)"
    using assms(2,3,6,7,9) rc fd(1,2) fds(2) ac(1) rd
    by (simp add: numeral_eq_Suc Server_RunThread_def Server_select_def FD_SET_def FD_ISSET_def Let_def)
  then show ?thesis using rv ac assms(3) by (simp add: clients_known_def)
qed

theorem interrupted_select_ends_service_witness:
  "\<exists>w s' w'. server_state raw_server_env 2 raw_proto (demo_server\<lparr>sv_pc := S_Select 3\<rparr>) w \<and>
     Server_run raw_server_env 6 (demo_server\<lparr>sv_pc := S_Select 3\<rparr>) w = Some (s', w') \<and>
     sv_pc s' = S_Exit \<and> ca_channels (sv_array s') = [] \<and> closed_fds (w_trace w') = closed_fds (w_trace w) @ [5]"
proof -
  let ?s = "demo_server\<lparr>sv_pc := S_Select 3\<rparr>" and ?ch = "GepChannel_new raw_env 0 5"
  obtain w where w: "server_reach raw_server_env (GepServer_new 2 raw_proto,
      raw_world (one_client_script [(-1, EINTR, {})] [Recv_failed EAGAIN])) (demo_server, w)"
    "w_os w = then_script [(-1, EINTR, {})] [Recv_failed EAGAIN]"
    using demo_server_reach [of 2] by fastforce
  have "server_step raw_server_env (demo_server, w) (?s, w)"
    by (rule server_step.thread) (simp_all add: Server_RunThread_def)
  then have st: "server_state raw_server_env 2 raw_proto ?s w"
    using server_state_reach w(1) unfolding server_reach_def by (blast intro: rtranclp.rtrancl_into_rtrancl)
  have g: "GetVectorReadFds (sv_array ?s) 3 {3} = Some (5, {5, 3})"
    by (simp add: GetVectorReadFds_def GetSocket_def FD_SET_def FD_SETSIZE_def)
  obtain w1 where w1: "Raw_Select script_os 6 {5, 3} {} (usecs_to_timeval kDefaultSelectTimeUsec) w = (-1, {5, 3}, w1)"
    "w_errno w1 = EINTR" "w_os w1 = then_script [] [Recv_failed EAGAIN]"
    using w(2) by (simp add: Raw_Select_def script_os_def then_script_def)
  obtain w2 where w2: "Raw_Recv script_os 5 1048576 w1 = (-1, [], w2)" "w_os w2 = then_script [] []"
    using w1(3) by (simp add: Raw_Recv_def script_os_def then_script_def)
  have si: "e_si raw_env = SocketInterface_of script_os" by (simp add: raw_env_def)
  have rd: "RecvData raw_env raw_proto ?ch w1 = Some (-1, ?ch, w2)"
    using w2(1) by (simp add: RecvData_def si SocketInterface_of_def to_u64_def poke_def narrow32_def)
  have update: "update_channel ?ch [?ch] = [?ch]" by (simp add: update_channel_def)
  let ?w3 = "GepChannel_destroy raw_env ?ch (DelClient raw_server_env 0 w2)"
  obtain a where rv: "Array_RecvData raw_server_env raw_proto {5, 3} (sv_array ?s) w1 = Some (a, ?w3)"
    using rd update by (simp add: Array_RecvData_def Array_receive_def GetSocket_def FD_ISSET_def FD_SETSIZE_def drop_channel_def)
  have "w_os ?w3 = then_script [] []"
    using w2(2) by (simp add: GepChannel_destroy_def Close_def os_close_def syscall_def DelClient_def) (simp add: script_os_def)
  then have ac: "fst (Raw_Accept script_os 3 ?w3) = -1"
    by (simp add: Raw_Accept_def syscall_def script_os_def then_script_def quiet_script_def)
  show ?thesis
    using interrupted_select_ends_service [OF st _ _ _ _ g, of ?ch "[]" "-1" "{5, 3}" w1 w2 a ?w3]
      w1(1,2) w2(1) rv ac script_select_ok st by simp blast
qed

end
