(* ===== verification/Client_Properties.thy ===== *)
theory Client_Properties
  imports Gep_Server_Runs
begin

text \<open>
  The properties of the client: its service thread, which reconnects by itself, and the calls
  of other threads, each with an application at a concrete run on the scripted kernel.
\<close>

section \<open>Reachable states\<close>

text \<open>A state some interleaving leads to, from a client just made in a program just started.\<close>

definition client_state :: "('w, 'm) gep_env \<Rightarrow> proto \<Rightarrow> client \<Rightarrow> ('w, 'm) world \<Rightarrow> bool" where
  "client_state E p c w \<longleftrightarrow> client_env_ok E p \<and>
     (\<exists>w0. w_trace w0 = [] \<and> client_reach E (GepClient_new E p, w0) (c, w))"

lemma client_state_inv: "client_state E p c w \<Longrightarrow> client_inv E (c, w)"
  using client_reach_inv client_inv_init by (fastforce simp: client_state_def)

lemma client_state_step:
  "client_state E p c w \<Longrightarrow> client_step E (c, w) (c', w') \<Longrightarrow> client_state E p c' w'"
  unfolding client_state_def client_reach_def by (blast intro: rtranclp.rtrancl_into_rtrancl)

text \<open>The client of the applications: connected on descriptor 3, about to look at its state.\<close>

definition demo_client :: client where
  "demo_client = \<lparr>cl_channel = GepChannel_new raw_env 0 3, cl_proto = raw_proto, cl_thread_ctrl = True,
     cl_reconnect_count = 0, cl_pc = C_Test 3, cl_stopping = False\<rparr>"

lemma demo_client_simps [simp]:
  "cl_pc demo_client = C_Test 3" "cl_channel demo_client = GepChannel_new raw_env 0 3"
  "cl_proto demo_client = raw_proto" "cl_thread_ctrl demo_client" "\<not> cl_stopping demo_client"
  by (simp_all add: demo_client_def)

lemma script_connect_ok:
  "sc_connect (w_os w) = 0 # l \<Longrightarrow>
   os_connect script_os fd prt w = (0, emit (Ev_connect fd prt 0) (w\<lparr>w_os := (w_os w)\<lparr>sc_connect := l\<rparr>\<rparr>))"
  by (cases w) (simp add: os_connect_def syscall_def script_os_def)

lemma demo_client_start:
  assumes "sc_socket s = []"
  shows "\<exists>w. Client_Start raw_env (GepClient_new raw_env raw_proto) (raw_world (s\<lparr>sc_connect := 0 # sc_connect s\<rparr>)) =
      Some (0, demo_client\<lparr>cl_pc := C_Entry\<rparr>, w) \<and> w_os w = s \<and> w_trace w = [Ev_socket 3, Ev_connect 3 3456 0]"
proof -
  have si: "e_si raw_env = SocketInterface_of script_os" by (simp add: raw_env_def)
  then show ?thesis
    using assms
    by (simp add: Client_Start_def OpenClientSocket_def si SocketInterface_of_def script_socket script_connect_ok
        raw_world_def GepClient_new_def demo_client_def GepChannel_new_def)
qed

lemma demo_client_state:
  assumes "sc_socket s = []"
  shows "\<exists>w. client_state raw_env raw_proto demo_client w \<and> w_os w = s \<and>
    w_trace w = [Ev_socket 3, Ev_connect 3 3456 0]"
proof -
  let ?c = "GepClient_new raw_env raw_proto" and ?c1 = "demo_client\<lparr>cl_pc := C_Entry\<rparr>"
  let ?w = "raw_world (s\<lparr>sc_connect := 0 # sc_connect s\<rparr>)"
  have "w_trace ?w = []" by (simp add: raw_world_def)
  then have st: "client_state raw_env raw_proto ?c ?w"
    using raw_client_env_ok unfolding client_state_def client_reach_def by blast
  obtain w1 where w1: "Client_Start raw_env ?c ?w = Some (0, ?c1, w1)" "w_os w1 = s"
    "w_trace w1 = [Ev_socket 3, Ev_connect 3 3456 0]"
    using demo_client_start [OF assms] by blast
  have "client_step raw_env (?c, ?w) (?c1, w1)"
    by (rule client_step.start [OF _ w1(1)]) (simp add: GepClient_new_def)
  moreover have "client_step raw_env (?c1, w1) (demo_client, w1)"
    by (rule client_step.thread) (simp_all add: Client_RunThread_def demo_client_def GetSocket_def)
  ultimately show ?thesis using client_state_step [OF client_state_step [OF st]] w1(2,3) by blast
qed

text \<open>The steps of the thread alone are steps of the system.\<close>

lemma Client_run_state:
  "client_state E p c w \<Longrightarrow> cl_pc c \<noteq> C_None \<Longrightarrow> Client_run E n c w = Some (c', w') \<Longrightarrow> client_state E p c' w'"
proof (induction n arbitrary: c w)
  case (Suc n)
  show ?case
  proof (cases "cl_pc c = C_Exit")
    case True
    then show ?thesis using Suc.prems by simp
  next
    case False
    then obtain c1 w1 where t: "Client_RunThread E c w = Some (c1, w1)" "Client_run E n c1 w1 = Some (c', w')"
      using Suc.prems(3) by (auto split: option.splits)
    moreover have "client_state E p c1 w1"
      using client_state_step [OF Suc.prems(1) client_step.thread [OF Suc.prems(2) t(1)]] .
    moreover have "cl_pc c1 \<noteq> C_None"
      using t(1) Suc.prems(2)
      by (cases "cl_pc c") (auto simp: Client_RunThread_def Client_select_def Let_def split: bind_splits if_splits prod.splits)
    ultimately show ?thesis using Suc.IH by blast
  qed
qed simp

text \<open>The client when a peer that says nothing more closes the connection.\<close>

definition hangup_script :: "int list \<Rightarrow> script" where
  "hangup_script l = quiet_script\<lparr>sc_select := [(1, 0, {3})], sc_connect := l\<rparr>"

lemma demo_client_ready:
  "\<exists>w. client_state raw_env raw_proto (demo_client\<lparr>cl_pc := C_Recv 3 {3}\<rparr>) w \<and>
     w_os w = quiet_script\<lparr>sc_connect := l\<rparr>"
proof -
  obtain w where w: "client_state raw_env raw_proto demo_client w" "w_os w = hangup_script l"
    using demo_client_state [of "hangup_script l"] by (auto simp: hangup_script_def quiet_script_def)
  obtain w1 where "Client_run raw_env 3 demo_client w = Some (demo_client\<lparr>cl_pc := C_Recv 3 {3}\<rparr>, w1)"
    "w_os w1 = quiet_script\<lparr>sc_connect := l\<rparr>"
    using w(2) by (simp add: numeral_3_eq_3 Client_RunThread_def Client_select_def FD_SET_def FD_SETSIZE_def
        script_select hangup_script_def quiet_script_def)
  then show ?thesis using Client_run_state [OF w(1)] by auto
qed

text \<open>C28: In every reachable state, whatever the interleaving of the service thread with starts,
  stops and sends, the descriptors the client has opened and not closed are exactly the one of
  its channel, or none when the channel is closed; a closed channel has an empty buffer, an open
  one a descriptor below \<open>FD_SETSIZE\<close> and room in its buffer, unless a receive has just failed;
  without a service thread the channel is closed.\<close>

theorem client_descriptors:
  assumes "client_state E p c w"
  shows "mset (opened_fds (w_trace w)) =
      mset (closed_fds (w_trace w)) + (if IsOpenSocket (cl_channel c) then {#ch_socket (cl_channel c)#} else {#}) \<and>
    (if IsOpenSocket (cl_channel c)
     then 0 \<le> ch_socket (cl_channel c) \<and> ch_socket (cl_channel c) < FD_SETSIZE \<and>
       (ch_len (cl_channel c) < 1048576 \<or> cl_pc c = C_Close)
     else ch_len (cl_channel c) = 0) \<and>
    (cl_pc c = C_None \<longrightarrow> \<not> IsOpenSocket (cl_channel c))"
proof (cases "IsOpenSocket (cl_channel c)")
  case True
  then have s: "ch_socket (cl_channel c) \<noteq> -1" by (simp add: IsOpenSocket_def)
  note inv = client_invD [OF client_state_inv [OF assms]]
  show ?thesis
    using inv(3,4) s client_open [OF inv(2) s]
    by (cases "cl_pc c = C_Close") (auto simp: True fds_accounted_def client_pc_ok_def chan_idle_def chan_room_def)
next
  case False
  then have s: "ch_socket (cl_channel c) = -1" by (simp add: IsOpenSocket_def)
  note inv = client_invD [OF client_state_inv [OF assms]]
  have "cl_pc c \<noteq> C_Close" using inv(4) s by (auto simp: client_pc_ok_def)
  then show ?thesis using inv(2,3) s by (simp add: False fds_accounted_def client_chan_ok_def)
qed

theorem client_descriptors_witness:
  "\<exists>w. client_state raw_env raw_proto demo_client w \<and>
     mset (opened_fds (w_trace w)) = mset (closed_fds (w_trace w)) + {#3#}"
proof -
  obtain w where w: "client_state raw_env raw_proto demo_client w"
    using demo_client_state [of quiet_script] by (auto simp: quiet_script_def)
  then show ?thesis using client_descriptors [OF w] by (auto simp: IsOpenSocket_def)
qed

section \<open>The service thread\<close>

text \<open>In every reachable state the next step of the client's thread is defined, connected or
  not, and leads to a reachable state.\<close>

theorem client_thread_safe:
  assumes "client_state E p c w" and "cl_pc c \<noteq> C_None"
  shows "\<exists>c' w'. Client_RunThread E c w = Some (c', w') \<and> client_state E p c' w'"
proof -
  obtain c' w' where t: "Client_RunThread E c w = Some (c', w')"
    using client_thread_step [OF client_state_inv [OF assms(1)] assms(2)] by blast
  then show ?thesis using client_state_step [OF assms(1) client_step.thread [OF assms(2) t]] by blast
qed

theorem client_thread_safe_witness:
  "\<exists>w c' w'. Client_RunThread raw_env demo_client w = Some (c', w') \<and> client_state raw_env raw_proto c' w'"
proof -
  obtain w where w: "client_state raw_env raw_proto demo_client w"
    using demo_client_state [of quiet_script] by (auto simp: quiet_script_def)
  then show ?thesis using client_thread_safe [OF w] by auto
qed

text \<open>C29: Once another thread has asked it to stop, the client's thread finishes within three of its
  steps, connected or not; after the join the channel is closed with an empty buffer, every
  descriptor the client ever opened has been closed, and the count of reconnections is 0.\<close>

theorem client_stops:
  assumes "client_state E p c w" and "Client_Stop_request c = Some c1"
  shows "\<exists>c2 w2 c3 w3. Client_run E 3 c1 w = Some (c2, w2) \<and> cl_pc c2 = C_Exit \<and>
    Client_Stop_join E c2 w2 = (c3, w3) \<and> cl_pc c3 = C_None \<and> \<not> cl_thread_ctrl c3 \<and>
    \<not> IsOpenSocket (cl_channel c3) \<and> ch_len (cl_channel c3) = 0 \<and> GetReconnectCount c3 = 0 \<and>
    mset (opened_fds (w_trace w3)) = mset (closed_fds (w_trace w3))"
proof -
  note inv = client_state_inv [OF assms(1)]
  have c1: "c1 = c\<lparr>cl_thread_ctrl := False, cl_stopping := True\<rparr>" "cl_pc c \<noteq> C_None"
    using assms(2) by (auto simp: Client_Stop_request_def split: if_splits)
  have inv1: "client_inv E (c1, w)" by (rule Client_Stop_request_inv [OF inv assms(2)])
  have "client_rank (cl_pc c1) \<le> 3" by (cases "cl_pc c1") simp_all
  then obtain c2 w2 where run: "Client_run E 3 c1 w = Some (c2, w2)" "cl_pc c2 = C_Exit" "client_inv E (c2, w2)"
    "\<not> cl_thread_ctrl c2"
    using client_finishes [OF inv1, of 3] c1 by auto
  note inv2 = client_invD [OF run(3)]
  obtain q ch w3 where cl: "Close E (cl_channel c2) w2 = (q, ch, w3)" by (metis surj_pair)
  note cr = Close_result [OF cl inv2(3)]
  have "ch_len ch = 0" using cr inv2(2) run(2) by (auto simp: client_chan_ok_def split: if_splits)
  then show ?thesis
    using run cl cr by (simp add: Client_Stop_join_def IsOpenSocket_def GetReconnectCount_def fds_accounted_def)
qed

theorem client_stops_witness:
  "\<exists>w c2 w2 c3 w3. Client_run raw_env 3 (demo_client\<lparr>cl_thread_ctrl := False, cl_stopping := True\<rparr>) w = Some (c2, w2) \<and>
     Client_Stop_join raw_env c2 w2 = (c3, w3) \<and> mset (opened_fds (w_trace w3)) = mset (closed_fds (w_trace w3))"
proof -
  obtain w where w: "client_state raw_env raw_proto demo_client w"
    using demo_client_state [of quiet_script] by (auto simp: quiet_script_def)
  have "Client_Stop_request demo_client = Some (demo_client\<lparr>cl_thread_ctrl := False, cl_stopping := True\<rparr>)"
    by (simp add: Client_Stop_request_def)
  from client_stops [OF w this] show ?thesis by blast
qed

text \<open>When a receive of the client's thread fails, for whatever reason (the peer closed, a
  system error, a bad header, a value that does not unpack), the thread closes the connection
  and drops what was buffered, and its next look finds it disconnected; otherwise it goes on
  with the same connection.\<close>

theorem client_receive_failure:
  assumes "client_state E p c w" and "cl_pc c = C_Recv socket read_fds" and "socket \<in> read_fds"
  shows "\<exists>r ch w1. RecvData E (cl_proto c) (cl_channel c) w = Some (r, ch, w1) \<and>
    (if r = 0 then Client_run E 1 c w = Some (c\<lparr>cl_channel := ch, cl_pc := C_Test socket\<rparr>, w1)
     else \<exists>c' w'. Client_run E 2 c w = Some (c', w') \<and> cl_pc c' = C_Test (-1) \<and>
       \<not> IsOpenSocket (cl_channel c') \<and> ch_len (cl_channel c') = 0 \<and>
       closed_fds (w_trace w') = closed_fds (w_trace w) @ [socket])"
proof -
  obtain r ch w1 where rd: "RecvData E (cl_proto c) (cl_channel c) w = Some (r, ch, w1)" "steady w w1"
    "ch_socket ch = socket"
    and st: "Client_RunThread E c w =
      Some (c\<lparr>cl_channel := ch, cl_pc := (if r = 0 then C_Test socket else C_Close)\<rparr>, w1)"
    "client_inv E (c\<lparr>cl_channel := ch, cl_pc := (if r = 0 then C_Test socket else C_Close)\<rparr>, w1)"
    using Client_recv_result [OF client_state_inv [OF assms(1)] assms(2,3)] by blast
  show ?thesis
  proof (cases "r = 0")
    case True
    then show ?thesis using rd(1) st(1) assms(2) by simp
  next
    case False
    let ?c = "c\<lparr>cl_channel := ch, cl_pc := C_Close\<rparr>"
    obtain q ch' w' where "ch_socket ch' = -1" "ch_len ch' = 0"
      "closed_fds (w_trace w') = closed_fds (w_trace w1) @ [ch_socket (cl_channel ?c)]"
      "Client_RunThread E ?c w1 = Some (?c\<lparr>cl_channel := ch', cl_pc := C_Test (-1)\<rparr>, w')"
      using Client_close_result [of E ?c w1] st(2) False by auto
    then show ?thesis
      using rd st(1) False assms(2) by (simp add: numeral_2_eq_2 IsOpenSocket_def steady_def)
  qed
qed

theorem client_receive_failure_witness:
  "\<exists>w n c' w'. client_state raw_env raw_proto (demo_client\<lparr>cl_pc := C_Recv 3 {3}\<rparr>) w \<and>
     Client_run raw_env n (demo_client\<lparr>cl_pc := C_Recv 3 {3}\<rparr>) w = Some (c', w') \<and>
     (cl_pc c' = C_Test 3 \<or> cl_pc c' = C_Test (-1) \<and> closed_fds (w_trace w') = closed_fds (w_trace w) @ [3])"
proof -
  let ?c = "demo_client\<lparr>cl_pc := C_Recv 3 {3}\<rparr>"
  obtain w where w: "client_state raw_env raw_proto ?c w" using demo_client_ready [of "[]"] by blast
  have pc: "cl_pc ?c = C_Recv 3 {3}" "3 \<in> {3 :: int}" by simp_all
  obtain r :: int and ch w1 where f: "if r = 0 then Client_run raw_env 1 ?c w = Some (?c\<lparr>cl_channel := ch, cl_pc := C_Test 3\<rparr>, w1)
     else \<exists>c' w'. Client_run raw_env 2 ?c w = Some (c', w') \<and> cl_pc c' = C_Test (-1) \<and>
       \<not> IsOpenSocket (cl_channel c') \<and> ch_len (cl_channel c') = 0 \<and>
       closed_fds (w_trace w') = closed_fds (w_trace w) @ [3]"
    using client_receive_failure [OF w pc] by blast
  show ?thesis
  proof (cases "r = 0")
    case True
    then have "Client_run raw_env 1 ?c w = Some (?c\<lparr>cl_channel := ch, cl_pc := C_Test 3\<rparr>, w1)"
      "cl_pc (?c\<lparr>cl_channel := ch, cl_pc := C_Test 3\<rparr>) = C_Test 3" using f by simp_all
    then show ?thesis using w by blast
  next
    case False
    then show ?thesis using f w unfolding if_not_P [OF False] by blast
  qed
qed

text \<open>
  The kernel lets a client in eventually: every attempt to connect that fails, with the sleep
  after it, lowers a rank.
\<close>

definition os_connects :: "'w os \<Rightarrow> ('w \<Rightarrow> nat) \<Rightarrow> bool" where
  "os_connects os rank \<longleftrightarrow> (\<forall>s fd e s1 t d s2. sys_socket os s = (fd, e, s1) \<longrightarrow>
     (fd = -1 \<longrightarrow> sys_nanosleep os kReconnectRetryDelaySecs 0 s1 = (t, d, s2) \<longrightarrow> rank s2 < rank s) \<and>
     (\<forall>prt r x s3 y z s4. sys_connect os fd prt s1 = (r, x, s3) \<longrightarrow> r < 0 \<longrightarrow>
        sys_close os fd s3 = (y, z, s4) \<longrightarrow>
        sys_nanosleep os kReconnectRetryDelaySecs 0 s4 = (t, d, s2) \<longrightarrow> rank s2 < rank s))"

lemma script_connects: "os_connects script_os (\<lambda>s. length (sc_socket s) + length (sc_connect s))"
  by (auto simp: os_connects_def script_os_def clamp_fd_def FD_SETSIZE_def split: list.splits if_splits)

lemma Reconnect_progress:
  assumes "os_connects (e_os E) rank" and "e_si E = SocketInterface_of (e_os E)" and "Reconnect E c w = (c', w')"
    and "ch_socket (cl_channel c) = -1" and "ch_socket (cl_channel c') = -1"
  shows "rank (w_os w') < rank (w_os w)"
proof -
  obtain fd e s1 where s1: "sys_socket (e_os E) (w_os w) = (fd, e, s1)" by (metis surj_pair)
  obtain r x s3 where s3: "sys_connect (e_os E) fd (word_of_int (pr_port (cl_proto c))) s1 = (r, x, s3)" by (metis surj_pair)
  obtain y z s4 where s4: "sys_close (e_os E) fd s3 = (y, z, s4)" by (metis surj_pair)
  obtain t d s2 where s2: "sys_nanosleep (e_os E) kReconnectRetryDelaySecs 0 (if fd = -1 then s1 else s4) = (t, d, s2)"
    by (metis surj_pair)
  have "fd = -1 \<or> r < 0" "w_os w' = s2"
    using assms(2-5) s1 s2 s3 s4
    by (auto simp: Reconnect_def OpenClientSocket_def SocketInterface_of_def Raw_Socket_def os_connect_def os_close_def
        syscall_def split: if_splits)
  then show ?thesis
    using assms(1) s1 s2 s3 s4 unfolding os_connects_def by (cases "fd = -1") auto
qed

lemma Reconnect_buffer: "Reconnect E c w = (c', w') \<Longrightarrow> ch_len (cl_channel c') = ch_len (cl_channel c)"
  by (auto simp: Reconnect_def OpenClientSocket_def Let_def split: prod.splits if_splits)

text \<open>C31: A disconnected client's thread connects again by itself, while nobody stops it: it reaches a
  state with an open channel and an empty buffer, where it is about to wait for data, after two steps
  for each attempt, and the success counts one reconnection. Assumed: the kernel does not refuse
  forever; \<open>rank\<close> bounds how often it still refuses a socket or a connection (\<open>os_connects\<close>).\<close>

theorem client_reconnects:
  assumes "client_state E p c w" and "cl_pc c = C_Test (-1)" and "cl_thread_ctrl c"
    and "os_connects (e_os E) rank"
  shows "\<exists>n c' w'. n \<le> 2 * (rank (w_os w) + 1) \<and> Client_run E n c w = Some (c', w') \<and>
    cl_pc c' = C_Test (ch_socket (cl_channel c')) \<and> IsOpenSocket (cl_channel c') \<and>
    ch_len (cl_channel c') = 0 \<and> content (cl_channel c') = [] \<and>
    GetReconnectCount c' = narrow32 (GetReconnectCount c + 1)"
  using assms(1-3)
proof (induction "rank (w_os w)" arbitrary: c w rule: less_induct)
  case less
  let ?c = "c\<lparr>cl_pc := C_Body (-1)\<rparr>"
  have s1: "Client_RunThread E c w = Some (?c, w)" using less.prems by (simp add: Client_RunThread_def)
  have st1: "client_state E p ?c w"
    using client_state_step [OF less.prems(1) client_step.thread [OF _ s1]] less.prems(2) by simp
  note inv = client_invD [OF client_state_inv [OF st1]]
  obtain c1 w1 where r: "Reconnect E ?c w = (c1, w1)" by fastforce
  have sock: "ch_socket (cl_channel ?c) = -1" using inv(4) by (simp add: client_pc_ok_def)
  note res = Reconnect_result [OF client_state_inv [OF st1] sock r]
  have empty: "ch_len (cl_channel c1) = 0"
    using Reconnect_buffer [OF r] inv(2) sock by (simp add: client_chan_ok_def)
  let ?c2 = "c1\<lparr>cl_pc := C_Test (ch_socket (cl_channel c1))\<rparr>"
  have s2: "Client_RunThread E ?c w = Some (?c2, w1)" using r by (simp add: Client_RunThread_def GetSocket_def)
  have st2: "client_state E p ?c2 w1"
    using client_state_step [OF st1 client_step.thread [OF _ s2]] by simp
  have run: "Client_run E (Suc (Suc n)) c w = Client_run E n ?c2 w1" for n
    using s1 s2 less.prems(2) by simp
  show ?case
  proof (cases "ch_socket (cl_channel c1) = -1")
    case False
    then show ?thesis
      using run [of 0] res empty by (intro exI [of _ 2] exI [of _ ?c2] exI [of _ w1])
        (simp add: numeral_2_eq_2 IsOpenSocket_def GetReconnectCount_def content_def)
  next
    case True
    have lt: "rank (w_os w1) < rank (w_os w)"
      using Reconnect_progress [OF assms(4) _ r sock True] inv(1) by (simp add: client_env_ok_def channel_env_ok_def)
    obtain n c' w' where n: "n \<le> 2 * (rank (w_os w1) + 1)" "Client_run E n ?c2 w1 = Some (c', w')"
      "cl_pc c' = C_Test (ch_socket (cl_channel c'))" "IsOpenSocket (cl_channel c')"
      "ch_len (cl_channel c') = 0" "content (cl_channel c') = []"
      "GetReconnectCount c' = narrow32 (GetReconnectCount ?c2 + 1)"
      using less.hyps [OF lt st2] True res less.prems(3) by auto
    have "GetReconnectCount ?c2 = GetReconnectCount c" using res True by (simp add: GetReconnectCount_def)
    then show ?thesis
      using n run [of n] lt by (intro exI [of _ "Suc (Suc n)"] exI [of _ c'] exI [of _ w']) simp
  qed
qed

lemma demo_client_lost:
  "\<exists>c w. client_state raw_env raw_proto c w \<and> cl_pc c = C_Test (-1) \<and> cl_thread_ctrl c \<and> GetReconnectCount c = 0 \<and>
     w_os w = quiet_script\<lparr>sc_connect := l\<rparr>"
proof -
  let ?c = "demo_client\<lparr>cl_pc := C_Recv 3 {3}\<rparr>"
  obtain w where w: "client_state raw_env raw_proto ?c w" "w_os w = quiet_script\<lparr>sc_connect := l\<rparr>"
    using demo_client_ready by blast
  let ?ch = "GepChannel_new raw_env 0 3"
  let ?w1 = "emit (Ev_recv 3 []) w"
  have si: "e_si raw_env = SocketInterface_of script_os" by (simp add: raw_env_def)
  have rv: "Raw_Recv script_os 3 n w = (0, [], ?w1)" for n
    using w(2) by (cases w) (simp add: Raw_Recv_def script_os_def quiet_script_def)
  have rd: "RecvData raw_env raw_proto ?ch w = Some (-2, ?ch, ?w1)"
    using rv by (simp add: RecvData_def si SocketInterface_of_def to_u64_def poke_def narrow32_def)
  let ?c1 = "demo_client\<lparr>cl_channel := ?ch\<lparr>ch_socket := -1\<rparr>, cl_pc := C_Test (-1)\<rparr>"
  have run: "Client_run raw_env 2 ?c w = Some (?c1, os_close script_os 3 ?w1)"
    using rd by (simp add: numeral_2_eq_2 Client_RunThread_def FD_ISSET_def FD_SETSIZE_def Close_def)
  have "client_state raw_env raw_proto ?c1 (os_close script_os 3 ?w1)"
    by (rule Client_run_state [OF w(1) _ run]) simp
  moreover have "w_os (os_close script_os 3 ?w1) = quiet_script\<lparr>sc_connect := l\<rparr>"
    using w(2) by (simp add: os_close_def syscall_def script_os_def)
  ultimately show ?thesis
    by (intro exI [of _ ?c1] exI [of _ "os_close script_os 3 ?w1"]) (simp add: GetReconnectCount_def demo_client_def)
qed

theorem client_reconnects_witness:
  "\<exists>c w n c' w'. client_state raw_env raw_proto c w \<and> cl_pc c = C_Test (-1) \<and> n \<le> 6 \<and>
     Client_run raw_env n c w = Some (c', w') \<and> IsOpenSocket (cl_channel c') \<and> content (cl_channel c') = [] \<and>
     GetReconnectCount c' = 1"
proof -
  obtain c w where w: "client_state raw_env raw_proto c w" "cl_pc c = C_Test (-1)" "cl_thread_ctrl c"
    "GetReconnectCount c = 0" "w_os w = quiet_script\<lparr>sc_connect := [-1, -1]\<rparr>"
    using demo_client_lost by blast
  have "os_connects (e_os raw_env) (\<lambda>s. length (sc_socket s) + length (sc_connect s))" using script_connects by simp
  from client_reconnects [OF w(1-3) this] obtain n c' w' where "n \<le> 6" "Client_run raw_env n c w = Some (c', w')"
    "IsOpenSocket (cl_channel c')" "content (cl_channel c') = []" "GetReconnectCount c' = 1"
    using w(4,5) by (auto simp: quiet_script_def narrow32_def)
  then show ?thesis using w(1,2) by blast
qed

end
