(* ===== verification/Gep_Sgp.thy ===== *)
theory Gep_Sgp
  imports Gep_Server Gep_Client
begin

text \<open>
  The example protocol: \<open>SGPProtocol\<close>, \<open>SGPClient\<close> and \<open>SGPServer\<close>
  (\<open>example/sgp_protocol.{h,cc}\<close>, \<open>example/sgp_client.{h,cc}\<close>, \<open>example/sgp_server.{h,cc}\<close>),
  the callback adapters of \<open>include/gep_utils.h\<close>, and the counting callbacks of
  \<open>example/client.cc\<close> and \<open>example/server.cc\<close>.

  The messages are those of \<open>example/sgp.proto\<close>; their encoding is protobuf's and stays a
  parameter. A \<open>dynamic_cast\<close> is the test of the constructor, and the virtual \<open>Recv\<close>
  methods of a client or server are a function over the message, one case per class.
\<close>

section \<open>Messages\<close>

datatype Command = COMMAND_40 | COMMAND_41 | COMMAND_42

text \<open>\<open>Other_message\<close> stands for a protobuf message of any other class.\<close>

datatype sgp_msg =
    is_Command1: Command1 (cmd1_a: "int option") (cmd1_b: "int option")
  | is_Command2: Command2 (cmd2_id: "int option")
  | is_Command3: Command3 (cmd3_id: "int option")
  | is_Command4: Command4 (cmd4_id: "int option") (cmd4_command: "Command option")
  | Other_message

definition same_class :: "sgp_msg \<Rightarrow> sgp_msg \<Rightarrow> bool" where
  "same_class m n \<longleftrightarrow> is_Command1 m = is_Command1 n \<and> is_Command2 m = is_Command2 n \<and>
     is_Command3 m = is_Command3 n \<and> is_Command4 m = is_Command4 n"

section \<open>SGPProtocol\<close>

definition kPort :: int where "kPort = 3456"

definition MSG_TAG_COMMAND_1 :: u32 where "MSG_TAG_COMMAND_1 = MakeTag 99 109 100 49"
definition MSG_TAG_COMMAND_2 :: u32 where "MSG_TAG_COMMAND_2 = MakeTag 99 109 100 50"
definition MSG_TAG_COMMAND_3 :: u32 where "MSG_TAG_COMMAND_3 = MakeTag 99 109 100 51"
definition MSG_TAG_COMMAND_4 :: u32 where "MSG_TAG_COMMAND_4 = MakeTag 99 109 100 52"
definition MSG_TAG_CONTROL :: u32 where "MSG_TAG_CONTROL = MakeTag 99 116 114 108"

definition SGPProtocol_new :: "sgp_msg pb \<Rightarrow> int \<Rightarrow> proto" where
  "SGPProtocol_new pb port = GepProtocol_new pb port"

definition SGP_GetTag :: "sgp_msg \<Rightarrow> u32" where
  "SGP_GetTag msg =
     (if is_Command1 msg then MSG_TAG_COMMAND_1
      else if is_Command2 msg then MSG_TAG_COMMAND_2
      else if is_Command3 msg then MSG_TAG_COMMAND_3
      else if is_Command4 msg then MSG_TAG_COMMAND_4
      else 0)"

definition SGP_GetMessage :: "u32 \<Rightarrow> sgp_msg option" where
  "SGP_GetMessage tag =
     (if tag = MSG_TAG_COMMAND_1 then Some (Command1 None None)
      else if tag = MSG_TAG_COMMAND_2 then Some (Command2 None)
      else if tag = MSG_TAG_COMMAND_3 then Some (Command3 None)
      else if tag = MSG_TAG_COMMAND_4 then Some (Command4 None None)
      else None)"

definition SGP_vt :: "sgp_msg proto_vt" where
  "SGP_vt = \<lparr>vt_GetTag = SGP_GetTag, vt_GetMessage = SGP_GetMessage\<rparr>"

section \<open>The callback adapters\<close>

text \<open>
  \<open>RecvMessage\<close> and \<open>RecvMessageId\<close> cast the message to a specific class, which throws when it
  is of another one, and call the object's method; its \<open>bool\<close> becomes the \<open>int\<close> of the callback.
\<close>

definition RecvMessage ::
  "('m \<Rightarrow> bool) \<Rightarrow> ('m \<Rightarrow> ('w, 'm) world \<Rightarrow> (bool \<times> ('w, 'm) world) option) \<Rightarrow> ('w, 'm) callback" where
  "RecvMessage specific Recv msg cid w =
     (if specific msg then map_option (\<lambda>(b, w). (if b then 1 else 0, w)) (Recv msg w) else None)"

definition RecvMessageId ::
  "('m \<Rightarrow> bool) \<Rightarrow> ('m \<Rightarrow> int \<Rightarrow> ('w, 'm) world \<Rightarrow> (bool \<times> ('w, 'm) world) option) \<Rightarrow> ('w, 'm) callback" where
  "RecvMessageId specific Recv msg cid w =
     (if specific msg then map_option (\<lambda>(b, w). (if b then 1 else 0, w)) (Recv msg cid w) else None)"

definition kSGPClientOps ::
  "(sgp_msg \<Rightarrow> ('w, sgp_msg) world \<Rightarrow> (bool \<times> ('w, sgp_msg) world) option) \<Rightarrow> u32 \<Rightarrow> ('w, sgp_msg) callback option"
where
  "kSGPClientOps Recv =
     map_of [(MSG_TAG_COMMAND_1, RecvMessage is_Command1 Recv),
             (MSG_TAG_COMMAND_2, RecvMessage is_Command2 Recv),
             (MSG_TAG_COMMAND_3, RecvMessage is_Command3 Recv),
             (MSG_TAG_COMMAND_4, RecvMessage is_Command4 Recv)]"

definition kSGPServerOps ::
  "(sgp_msg \<Rightarrow> int \<Rightarrow> ('w, sgp_msg) world \<Rightarrow> (bool \<times> ('w, sgp_msg) world) option) \<Rightarrow> u32 \<Rightarrow> ('w, sgp_msg) callback option"
where
  "kSGPServerOps Recv =
     map_of [(MSG_TAG_COMMAND_1, RecvMessageId is_Command1 Recv),
             (MSG_TAG_COMMAND_2, RecvMessageId is_Command2 Recv),
             (MSG_TAG_COMMAND_3, RecvMessageId is_Command3 Recv),
             (MSG_TAG_COMMAND_4, RecvMessageId is_Command4 Recv)]"

section \<open>The client and the server\<close>

definition SGPClient_new :: "('w, sgp_msg) gep_env \<Rightarrow> int \<Rightarrow> client" where
  "SGPClient_new E port = GepClient_new E (SGPProtocol_new (e_pb E) port)"

definition SGPServer_new :: "('w, sgp_msg) gep_env \<Rightarrow> int \<Rightarrow> int \<Rightarrow> server" where
  "SGPServer_new E max_channel_num port = GepServer_new max_channel_num (SGPProtocol_new (e_pb E) port)"

text \<open>Without a port they use the protocol's default.\<close>

definition SGPClient_default :: "('w, sgp_msg) gep_env \<Rightarrow> client" where
  "SGPClient_default E = GepClient_new E (SGPProtocol_new (e_pb E) kPort)"

definition SGPServer_default :: "('w, sgp_msg) gep_env \<Rightarrow> int \<Rightarrow> server" where
  "SGPServer_default E max_channel_num = GepServer_new max_channel_num (SGPProtocol_new (e_pb E) kPort)"

text \<open>\<open>MyClient\<close> and \<open>MyServer\<close> of the example programs count what they receive.\<close>

record my_counts =
  cnt1 :: int
  cnt2 :: int
  cnt3 :: int
  cnt4 :: int
  seen_client :: bool

definition my_counts_new :: my_counts where
  "my_counts_new = \<lparr>cnt1 = 0, cnt2 = 0, cnt3 = 0, cnt4 = 0, seen_client = False\<rparr>"

text \<open>The server's counters are plain \<open>int\<close>s; a class without a \<open>Recv\<close> method has no case.\<close>

fun MyServer_Recv :: "sgp_msg \<Rightarrow> int \<Rightarrow> my_counts \<Rightarrow> (bool \<times> my_counts) option" where
  "MyServer_Recv (Command1 a b) cid s = do {
     n \<leftarrow> chk32 (cnt1 s + 1); Some (True, s\<lparr>cnt1 := n, seen_client := True\<rparr>) }"
| "MyServer_Recv (Command2 i) cid s = do {
     n \<leftarrow> chk32 (cnt2 s + 1); Some (True, s\<lparr>cnt2 := n, seen_client := True\<rparr>) }"
| "MyServer_Recv (Command3 i) cid s = do {
     n \<leftarrow> chk32 (cnt3 s + 1); Some (True, s\<lparr>cnt3 := n, seen_client := True\<rparr>) }"
| "MyServer_Recv (Command4 i c) cid s = do {
     n \<leftarrow> chk32 (cnt4 s + 1); Some (True, s\<lparr>cnt4 := n, seen_client := True\<rparr>) }"
| "MyServer_Recv Other_message cid s = None"

text \<open>The client's counters are atomic, so they wrap.\<close>

fun MyClient_Recv :: "sgp_msg \<Rightarrow> my_counts \<Rightarrow> (bool \<times> my_counts) option" where
  "MyClient_Recv (Command1 a b) s = Some (True, s\<lparr>cnt1 := narrow32 (cnt1 s + 1)\<rparr>)"
| "MyClient_Recv (Command2 i) s = Some (True, s\<lparr>cnt2 := narrow32 (cnt2 s + 1)\<rparr>)"
| "MyClient_Recv (Command3 i) s = Some (True, s\<lparr>cnt3 := narrow32 (cnt3 s + 1)\<rparr>)"
| "MyClient_Recv (Command4 i c) s = Some (True, s\<lparr>cnt4 := narrow32 (cnt4 s + 1)\<rparr>)"
| "MyClient_Recv Other_message s = None"

text \<open>A server that receives several messages.\<close>

fun MyServer_Recv_all :: "(int \<times> sgp_msg) list \<Rightarrow> my_counts \<Rightarrow> my_counts option" where
  "MyServer_Recv_all [] s = Some s"
| "MyServer_Recv_all ((cid, m) # ms) s = do {
     (b, s) \<leftarrow> MyServer_Recv m cid s;
     MyServer_Recv_all ms s
   }"

section \<open>Lemmas\<close>

lemma tag_values:
  "MSG_TAG_COMMAND_1 = 1668113457" "MSG_TAG_COMMAND_2 = 1668113458" "MSG_TAG_COMMAND_3 = 1668113459"
  "MSG_TAG_COMMAND_4 = 1668113460" "MSG_TAG_CONTROL = 1668575852"
  by (simp_all add: MSG_TAG_COMMAND_1_def MSG_TAG_COMMAND_2_def MSG_TAG_COMMAND_3_def
      MSG_TAG_COMMAND_4_def MSG_TAG_CONTROL_def MakeTag_def push_bit_eq_mult)

lemmas sgp_tags = SGP_GetTag_def SGP_GetMessage_def tag_values

lemma SGP_GetMessage_GetTag: "m \<noteq> Other_message \<Longrightarrow> \<exists>e. SGP_GetMessage (SGP_GetTag m) = Some e \<and> same_class e m"
  by (cases m) (simp_all add: sgp_tags same_class_def)

lemma SGP_GetTag_GetMessage: "SGP_GetMessage tag = Some e \<Longrightarrow> SGP_GetTag e = tag \<and> e \<noteq> Other_message"
  by (auto simp: sgp_tags split: if_splits)

text \<open>What protobuf promises about an object that is parsed into: it keeps its class, and all
  the fields of the protocol are optional, so that the empty text is a message.\<close>

definition sgp_pb_ok :: "sgp_msg pb \<Rightarrow> bool" where
  "sgp_pb_ok pb \<longleftrightarrow>
     (\<forall>s m m'. pb_parse_text pb s m = Some m' \<longrightarrow> same_class m' m) \<and>
     (\<forall>s m m'. pb_parse pb s m = Some m' \<longrightarrow> same_class m' m) \<and>
     (\<forall>m. same_class (pb_clear pb m) m) \<and>
     (\<forall>m. pb_parse_text pb [] m \<noteq> None)"

lemma same_class_trans: "same_class a b \<Longrightarrow> same_class b c \<Longrightarrow> same_class a c"
  by (simp add: same_class_def)

lemma sgp_pb_okD:
  assumes "sgp_pb_ok pb"
  shows "pb_parse_text pb s m = Some m' \<Longrightarrow> same_class m' m"
    and "pb_parse pb s m = Some m' \<Longrightarrow> same_class m' m"
    and "same_class (pb_clear pb m) m" and "pb_parse_text pb [] m \<noteq> None"
  using assms unfolding sgp_pb_ok_def by blast+

lemma sgp_Unserialize_class:
  assumes "sgp_pb_ok pb"
  shows "Unserialize pb p s e = Some m \<Longrightarrow> same_class m e" and "Unserialize pb p [] e \<noteq> None"
  using sgp_pb_okD(1,3,4) [OF assms] same_class_trans [OF sgp_pb_okD(2,3) [OF assms]]
  by (auto simp: Unserialize_def Let_def split: if_splits)

text \<open>The table of a client or server has a callback for each message of the protocol.\<close>

lemma kSGPServerOps_cases:
  "kSGPServerOps Recv tag = Some cb \<Longrightarrow>
     \<exists>e specific. SGP_GetMessage tag = Some e \<and> cb = RecvMessageId specific Recv \<and>
       (\<forall>m. same_class m e \<longrightarrow> specific m \<and> m \<noteq> Other_message)"
  by (auto simp: kSGPServerOps_def SGP_GetMessage_def same_class_def split: if_splits)

lemma kSGPClientOps_cases:
  "kSGPClientOps Recv tag = Some cb \<Longrightarrow>
     \<exists>e specific. SGP_GetMessage tag = Some e \<and> cb = RecvMessage specific Recv \<and>
       (\<forall>m. same_class m e \<longrightarrow> specific m \<and> m \<noteq> Other_message)"
  by (auto simp: kSGPClientOps_def SGP_GetMessage_def same_class_def split: if_splits)

lemma sgp_ops_ok:
  assumes "sgp_pb_ok (e_pb E)" and "e_vt E = SGP_vt" and "e_ops E = kSGPServerOps Recv"
    and "\<And>m cid w. m \<noteq> Other_message \<Longrightarrow> Recv m cid w \<noteq> None"
  shows "ops_ok E p"
  unfolding ops_ok_def
proof (intro allI impI)
  fix tag cb assume "e_ops E tag = Some cb"
  then obtain e sp where e: "SGP_GetMessage tag = Some e" "cb = RecvMessageId sp Recv"
    "\<And>m. same_class m e \<Longrightarrow> sp m \<and> m \<noteq> Other_message"
    using kSGPServerOps_cases [of Recv tag cb] assms(3) by auto
  have "cb m cid w \<noteq> None" if "Unserialize (e_pb E) p v e = Some m" for v m cid w
    using e(2) e(3) [OF sgp_Unserialize_class(1) [OF assms(1) that]] assms(4) by (simp add: RecvMessageId_def)
  then show "\<exists>e. vt_GetMessage (e_vt E) tag = Some e \<and> Unserialize (e_pb E) p [] e \<noteq> None \<and>
      (\<forall>v m cid w. Unserialize (e_pb E) p v e = Some m \<longrightarrow> cb m cid w \<noteq> None)"
    using e(1) assms(2) sgp_Unserialize_class(2) [OF assms(1)] by (intro exI [of _ e]) (simp add: SGP_vt_def)
qed

lemma sgp_client_ops_ok:
  assumes "sgp_pb_ok (e_pb E)" and "e_vt E = SGP_vt" and "e_ops E = kSGPClientOps Recv"
    and "\<And>m w. m \<noteq> Other_message \<Longrightarrow> Recv m w \<noteq> None"
  shows "ops_ok E p"
  unfolding ops_ok_def
proof (intro allI impI)
  fix tag cb assume "e_ops E tag = Some cb"
  then obtain e sp where e: "SGP_GetMessage tag = Some e" "cb = RecvMessage sp Recv"
    "\<And>m. same_class m e \<Longrightarrow> sp m \<and> m \<noteq> Other_message"
    using kSGPClientOps_cases [of Recv tag cb] assms(3) by auto
  have "cb m cid w \<noteq> None" if "Unserialize (e_pb E) p v e = Some m" for v m cid w
    using e(2) e(3) [OF sgp_Unserialize_class(1) [OF assms(1) that]] assms(4) by (simp add: RecvMessage_def)
  then show "\<exists>e. vt_GetMessage (e_vt E) tag = Some e \<and> Unserialize (e_pb E) p [] e \<noteq> None \<and>
      (\<forall>v m cid w. Unserialize (e_pb E) p v e = Some m \<longrightarrow> cb m cid w \<noteq> None)"
    using e(1) assms(2) sgp_Unserialize_class(2) [OF assms(1)] by (intro exI [of _ e]) (simp add: SGP_vt_def)
qed

lemma MyServer_counts:
  assumes "MyServer_Recv_all ms s = Some s'"
  shows "cnt1 s' = cnt1 s + int (length (filter (\<lambda>(cid, m). is_Command1 m) ms)) \<and>
    cnt2 s' = cnt2 s + int (length (filter (\<lambda>(cid, m). is_Command2 m) ms)) \<and>
    cnt3 s' = cnt3 s + int (length (filter (\<lambda>(cid, m). is_Command3 m) ms)) \<and>
    cnt4 s' = cnt4 s + int (length (filter (\<lambda>(cid, m). is_Command4 m) ms)) \<and>
    (seen_client s' \<longleftrightarrow> seen_client s \<or> ms \<noteq> [])"
  using assms
proof (induction ms arbitrary: s)
  case (Cons x ms)
  obtain cid m where x: "x = (cid, m)" by fastforce
  then obtain b s1 where "MyServer_Recv m cid s = Some (b, s1)" "MyServer_Recv_all ms s1 = Some s'"
    using Cons.prems by (auto split: bind_splits)
  then show ?case using Cons.IH [of s1] x by (cases m) (auto split: bind_splits)
qed simp

end
