(* ===== verification/Utils_Properties.thy ===== *)
theory Utils_Properties
  imports Gep_Sgp Gep_Script
begin

text \<open>
  The properties of the utilities and of the example protocol, each with an application at a
  concrete input where it has a hypothesis.
\<close>

section \<open>Bytes and time\<close>

text \<open>The big-endian stores and loads are inverse: a 32-bit or 64-bit word that is stored and
  loaded again is unchanged, four bytes that are loaded and stored again are unchanged, and a
  16-bit store keeps the low 16 bits.\<close>

theorem big_endian_round_trip:
  "UINT32 (SET_UINT32 y) = y \<and> UINT64 (SET_UINT64 z) = z \<and> UINT16 (SET_UINT16 z) = ucast (z AND 65535) \<and>
   SET_UINT32 (UINT32 [a, b, c, d]) = [a, b, c, d]"
  using UINT16_SET_UINT16 SET_UINT32_UINT32 [of "[a, b, c, d]"] by simp

text \<open>A number of microseconds survives the way through a \<open>timeval\<close> without overflow; the
  \<open>timeval\<close> is normalised (its microseconds are below a second and, for a number that is not
  negative, not negative), but a negative number gives negative microseconds.\<close>

theorem timeval_round_trip:
  assumes "i64_ok usecs"
  shows "timeval_to_usecs (usecs_to_timeval usecs) = Some usecs \<and>
    \<bar>tv_usec (usecs_to_timeval usecs)\<bar> < kUsecsPerSec \<and>
    (0 \<le> usecs \<longleftrightarrow> 0 \<le> tv_sec (usecs_to_timeval usecs) \<and> 0 \<le> tv_usec (usecs_to_timeval usecs))"
proof -
  note d = sdiv_smod_numeral [of 1000000 usecs]
  have pos: "0 \<le> usecs sdiv 1000000" if "0 \<le> usecs"
  proof -
    have "usecs sdiv 1000000 = usecs div 1000000"
      using that by (simp add: signed_divide_int_def sgn_if)
    then show ?thesis using that by (simp add: pos_imp_zdiv_nonneg_iff)
  qed
  have ok: "i64_ok (usecs sdiv 1000000 * 1000000)"
  proof (cases "usecs = - 9223372036854775808")
    case True
    then show ?thesis by (simp add: signed_divide_int_def i64_ok_def)
  next
    case False
    then have "\<bar>usecs\<bar> < 9223372036854775808" using assms by (auto simp: i64_ok_def)
    then have "\<bar>usecs sdiv 1000000 * 1000000\<bar> < 9223372036854775808" using d(2) by linarith
    then show ?thesis unfolding i64_ok_def by (simp del: mult_less_cancel_right) linarith
  qed
  have "timeval_to_usecs (usecs_to_timeval usecs) = Some usecs"
    using ok d(1) assms
    by (simp add: timeval_to_usecs_def usecs_to_timeval_def secs_to_usecs_def time_consts chk64_def)
  moreover have "usecs < 0 \<longrightarrow> usecs sdiv 1000000 < 0 \<or> usecs smod 1000000 < 0"
    using d(1) by (auto simp: not_less)
  ultimately show ?thesis
    using d pos by (auto simp: usecs_to_timeval_def time_consts not_less)
qed

theorem timeval_round_trip_witness:
  "timeval_to_usecs (usecs_to_timeval (-1500000)) = Some (-1500000) \<and>
   tv_sec (usecs_to_timeval (-1500000)) = -1 \<and> tv_usec (usecs_to_timeval (-1500000)) = -500000"
  using timeval_round_trip [of "-1500000"]
  by (simp add: i64_ok_def usecs_to_timeval_def time_consts signed_divide_int_def signed_modulo_int_def)

text \<open>What the clock reads, in milliseconds.\<close>

definition clock_ms :: "'w os \<Rightarrow> ('w, 'm) world \<Rightarrow> nat" where
  "clock_ms os w = (case fst (sys_clock os (w_os w)) of (sec, nsec) \<Rightarrow> nat (sec * 1000 + nsec div 1000000))"

lemma get_now_ns_value:
  assumes "os_clock_ok os" and "fst (sys_clock os (w_os w)) = (sec, nsec)"
  shows "get_now_ns os w = Some (to_u64 (sec * 1000000000 + nsec), w\<lparr>w_os := snd (sys_clock os (w_os w))\<rparr>)"
    and "0 \<le> sec * 1000000000 + nsec" and "sec * 1000000000 + nsec < 9223372036000000000"
proof -
  obtain s where c: "sys_clock os (w_os w) = ((sec, nsec), s)" using assms(2) by (metis fst_conv surj_pair)
  then have b: "0 \<le> sec" "sec < 9223372036" "0 \<le> nsec" "nsec < 1000000000"
    using assms(1) by (auto simp: os_clock_ok_def)
  then show "0 \<le> sec * 1000000000 + nsec" "sec * 1000000000 + nsec < 9223372036000000000" by linarith+
  then show "get_now_ns os w = Some (to_u64 (sec * 1000000000 + nsec), w\<lparr>w_os := snd (sys_clock os (w_os w))\<rparr>)"
    using b c by (simp add: get_now_ns_def chk64_def i64_ok_def kNsecsPerSec_def)
qed

text \<open>The elapsed time is the difference of two readings of the clock in milliseconds, rounded
  down, without wrap-around, for a start that was itself read as the time elapsed since 0.\<close>

theorem elapsed_is_difference:
  fixes w v :: "('w, 'm) world"
  assumes "os_clock_ok os" and "ms_elapse os 0 w = Some (start, w1)" and "clock_ms os w \<le> clock_ms os v"
  shows "\<exists>e v'. ms_elapse os start v = Some (e, v') \<and> unat start = clock_ms os w \<and>
    unat e = clock_ms os v - clock_ms os w"
proof -
  have ms: "unat ((to_u64 ns - to_u64 (int k * 1000000)) div 1000000) = nat (ns div 1000000) - k"
    if "0 \<le> ns" "ns < 9223372036000000000" "k \<le> nat (ns div 1000000)" for ns k
  proof -
    have le: "int k * 1000000 \<le> ns" using that by linarith
    then have "to_u64 ns - to_u64 (int k * 1000000) = to_u64 (ns - int k * 1000000)" by (simp add: to_u64_def)
    moreover have "unat (to_u64 (ns - int k * 1000000)) = nat (ns - int k * 1000000)"
      using that le by (intro unat_to_u64) auto
    ultimately have "unat ((to_u64 ns - to_u64 (int k * 1000000)) div 1000000) = nat (ns - int k * 1000000) div 1000000"
      by (simp add: unat_div)
    also have "\<dots> = nat ((ns - int k * 1000000) div 1000000)"
      using le by (simp add: nat_div_distrib)
    also have "(ns - int k * 1000000) div 1000000 = ns div 1000000 - int k"
      using div_mult_self1 [of 1000000 ns "- int k"] by simp
    finally show ?thesis using that by (simp add: nat_diff_distrib)
  qed
  have el: "ms_elapse os t x = Some ((to_u64 (fst c * 1000000000 + snd c) - t * 1000000) div 1000000, x\<lparr>w_os := s\<rparr>)"
    if "sys_clock os (w_os x) = (c, s)" for t c s and x :: "('w, 'm) world"
    using get_now_ns_value(1) [OF assms(1), of x "fst c" "snd c"] that
    by (simp add: ms_elapse_def kNsecsPerMsec_def to_u64_def)
  have cl: "clock_ms os x = nat ((fst c * 1000000000 + snd c) div 1000000) \<and> 0 \<le> fst c * 1000000000 + snd c \<and>
      fst c * 1000000000 + snd c < 9223372036000000000"
    if "sys_clock os (w_os x) = (c, s)" for c s and x :: "('w, 'm) world"
  proof -
    have "(fst c * 1000000000 + snd c) div 1000000 = fst c * 1000 + snd c div 1000000"
      using div_mult_self3 [of 1000000 "fst c * 1000" "snd c"] by simp
    then show ?thesis
      using get_now_ns_value(2,3) [OF assms(1), of x "fst c" "snd c"] that
      by (simp add: clock_ms_def case_prod_unfold)
  qed
  have zero: "to_u64 0 = 0" by (simp add: to_u64_def)
  obtain c s where c: "sys_clock os (w_os w) = (c, s)" by fastforce
  obtain d u where d: "sys_clock os (w_os v) = (d, u)" by fastforce
  have start: "unat start = clock_ms os w" using el [OF c, of 0] cl [OF c] ms [of "fst c * 1000000000 + snd c" 0] assms(2) zero by auto
  have "start * 1000000 = to_u64 (int (clock_ms os w) * 1000000)"
    unfolding start [symmetric] by (simp add: to_u64_def)
  then show ?thesis
    using el [OF d, of start] cl [OF d] ms [of _ "clock_ms os w"] assms(3) start by simp
qed

theorem elapsed_is_difference_witness:
  "\<exists>start w1 e v'. ms_elapse script_os 0 (raw_world (quiet_script\<lparr>sc_clock_ms := [1500]\<rparr>)) = Some (start, w1) \<and>
     ms_elapse script_os start (raw_world (quiet_script\<lparr>sc_clock_ms := [4250]\<rparr>)) = Some (e, v') \<and> unat e = 2750"
proof -
  let ?w = "raw_world (quiet_script\<lparr>sc_clock_ms := [1500]\<rparr>)" and ?v = "raw_world (quiet_script\<lparr>sc_clock_ms := [4250]\<rparr>)"
  have c: "clock_ms script_os ?w = 1500" "clock_ms script_os ?v = 4250"
    by (simp_all add: clock_ms_def raw_world_def script_os_def)
  obtain start w1 where s: "ms_elapse script_os 0 ?w = Some (start, w1)"
    using ms_elapse_defined [OF script_clock_ok] by blast
  show ?thesis using elapsed_is_difference [OF script_clock_ok s, of ?v] s c by auto
qed

section \<open>Printing\<close>

text \<open>C39: Printing bytes into a buffer is safe for every buffer of at least one byte: it leaves the
  text, cut to one byte less than the buffer, and a terminator. What it returns is the length of
  the text, or the size of the buffer (one more than the characters in it) when it was cut.\<close>

theorem printable_text:
  assumes "0 < bufsize" and "bufsize \<le> int cap" and "nat len \<le> length data"
  shows "\<exists>n m'. snprintf_printable cap buf bufsize data len = Some (n, m') \<and>
    n = min (nat bufsize) (length (concat (map fmt_printable (take (nat len) data)))) \<and>
    bytes_at m' 0 (min (nat bufsize - 1) n) = take (nat bufsize - 1) (concat (map fmt_printable (take (nat len) data))) \<and>
    m' (min (nat bufsize - 1) n) = 0 \<and>
    list_all isprint (bytes_at m' 0 (min (nat bufsize - 1) n))"
proof -
  let ?out = "concat (map fmt_printable (take (nat len) data))"
  have hex: "isprint (hex_digit x)" if "x < 16" for x
  proof -
    have x: "unat x < 16" using that by (simp add: word_less_nat_alt)
    then have "unat (48 + x) = 48 + unat x" "unat (87 + x) = 87 + unat x"
      by (simp_all add: unat_word_ariths)
    then show ?thesis
      using x by (auto simp: isprint_def hex_digit_def word_le_nat_alt word_less_nat_alt)
  qed
  have nibble: "drop_bit 4 d < 16" "d AND 15 < 16" for d :: u8
  proof -
    have "unat d < 256" using unsigned_less [of d, where ?'a = nat] by simp
    then have "unat d div 16 < 16" by simp
    then show "drop_bit 4 d < 16" by (simp add: word_less_nat_alt drop_bit_eq_div unat_div)
    have "d AND 15 \<le> 15" by (rule word_and_le1)
    then show "d AND 15 < 16" by (rule order_le_less_trans) simp
  qed
  have "list_all isprint (fmt_printable d)" for d
    using hex [OF nibble(1)] hex [OF nibble(2)] by (auto simp: fmt_printable_def fmt_hex_def) (simp_all add: isprint_def)
  then have "list_all isprint ?out" by (simp add: list_all_iff)
  then have pr: "list_all isprint (take (nat bufsize - 1) ?out)" by (metis in_set_takeD list_all_iff)
  obtain m0 m' where "poke cap buf 0 [0] = Some m0"
    "snprintf_loop fmt_printable cap bufsize data len 0 0 m0 = Some (min (nat bufsize) (length ?out), m')"
    "bytes_at m' 0 (min (nat bufsize - 1) (length ?out)) = take (nat bufsize - 1) ?out"
    "m' (min (nat bufsize - 1) (length ?out)) = 0"
    using snprintf_text [OF assms(2,1,3), of buf fmt_printable] by blast
  moreover have "min (nat bufsize - 1) (min (nat bufsize) (length ?out)) = min (nat bufsize - 1) (length ?out)"
    by (auto simp: min_def)
  ultimately show ?thesis using pr by (simp add: snprintf_printable_def)
qed

theorem printable_text_witness:
  "\<exists>m'. snprintf_printable 6 (\<lambda>_. 0) 6 [97, 10, 98] 3 = Some (6, m') \<and>
     bytes_at m' 0 5 = [97, 92, 120, 48, 97]"
proof -
  have out: "concat (map fmt_printable (take (nat 3) [97, 10, 98])) = [97, 92, 120, 48, 97, 98]"
    by (simp add: fmt_printable_def fmt_hex_def isprint_def hex_digit_def drop_bit_eq_div)
  obtain n m' where "snprintf_printable 6 (\<lambda>_. 0) 6 [97, 10, 98] 3 = Some (n, m')" "n = 6"
    "bytes_at m' 0 (min 5 n) = [97, 92, 120, 48, 97]"
    using printable_text [of 6 6 3 "[97, 10, 98]" "\<lambda>_. 0"] unfolding out by (auto simp: numeral_eq_Suc)
  then show ?thesis by simp
qed

text \<open>The text of a tag made of four printable characters is those characters.\<close>

theorem tag_text:
  assumes "isprint a" and "isprint b" and "isprint c" and "isprint d"
  shows "\<exists>m'. TagString kMaxTagString buf (MakeTag a b c d) (int kMaxTagString) = Some (4, m') \<and>
    bytes_at m' 0 4 = [a, b, c, d] \<and> m' 4 = 0"
proof -
  have cast: "scast x = (ucast x :: u32)" if "isprint x" for x
  proof -
    have "unat x \<le> 126" using that by (simp add: isprint_def word_le_nat_alt)
    moreover have "uint x = int (unat x)" by simp
    ultimately have "uint x < 128" "- 128 \<le> uint x" by linarith+
    then have "signed_take_bit 7 (uint x) = uint x" by (intro signed_take_bit_int_eq_self) simp_all
    then have "sint x = uint x" unfolding sint_uint by simp
    then show ?thesis unfolding scast_eq ucast_eq by simp
  qed
  have "MakeTag a b c d = UINT32 [a, b, c, d]"
    using cast assms by (simp add: MakeTag_def UINT32_def)
  then have bytes: "SET_UINT32 (MakeTag a b c d) = [a, b, c, d]" by (simp add: SET_UINT32_UINT32)
  have chars: "concat (map fmt_printable (take (nat 4) [a, b, c, d])) = [a, b, c, d]"
    using assms by (simp add: fmt_printable_def)
  obtain m0 m' where "poke kMaxTagString buf 0 [0] = Some m0"
    "snprintf_loop fmt_printable kMaxTagString (int kMaxTagString) [a, b, c, d] 4 0 0 m0 = Some (4, m')"
    "bytes_at m' 0 4 = [a, b, c, d]" "m' 4 = 0"
    using snprintf_text [of "int kMaxTagString" kMaxTagString 4 "[a, b, c, d]" buf fmt_printable]
    unfolding chars by (auto simp: kMaxTagString_def numeral_eq_Suc)
  then show ?thesis by (simp add: TagString_def snprintf_printable_def bytes)
qed

theorem tag_text_witness:
  "\<exists>m'. TagString kMaxTagString (\<lambda>_. 0) (MakeTag 99 109 100 49) (int kMaxTagString) = Some (4, m') \<and>
     bytes_at m' 0 4 = [99, 109, 100, 49]"
  using tag_text [of 99 109 100 49 "\<lambda>_. 0"] by (auto simp: isprint_def)

section \<open>The example protocol\<close>

text \<open>Tags and messages of the example protocol correspond: the object made for the tag of a
  message is of the message's class, and the tag of the object made for a tag is that tag.\<close>

theorem sgp_tags_inverse:
  "(m \<noteq> Other_message \<longrightarrow> (\<exists>e. SGP_GetMessage (SGP_GetTag m) = Some e \<and> same_class e m)) \<and>
   (\<forall>e. SGP_GetMessage tag = Some e \<longrightarrow> SGP_GetTag e = tag \<and> e \<noteq> Other_message)"
  using SGP_GetMessage_GetTag SGP_GetTag_GetMessage by blast

theorem sgp_tags_inverse_witness:
  "\<exists>e. SGP_GetMessage (SGP_GetTag (Command2 (Some 7))) = Some e \<and> same_class e (Command2 (Some 7))"
  using sgp_tags_inverse [of "Command2 (Some 7)" 0] by simp

text \<open>C40: The callback table of the example server fits its protocol, over any protobuf that keeps an
  object's class and reads the empty text: every tag with a callback has a message, and the
  callback's cast never fails on a message received under that tag, so it returns; and every
  message of the protocol has a callback, which hands it to the server unchanged.\<close>

theorem sgp_server_table:
  assumes "sgp_pb_ok (e_pb E)" and "e_vt E = SGP_vt" and "e_ops E = kSGPServerOps Recv"
    and "\<forall>m cid w. m \<noteq> Other_message \<longrightarrow> Recv m cid w \<noteq> None"
  shows "ops_ok E p \<and> (m \<noteq> Other_message \<longrightarrow> (\<exists>cb. e_ops E (SGP_GetTag m) = Some cb \<and>
    cb m cid w = map_option (\<lambda>(b, w'). (if b then 1 else 0, w')) (Recv m cid w)))"
proof
  show "ops_ok E p" using assms(4) by (intro sgp_ops_ok [OF assms(1-3)]) blast
  show "m \<noteq> Other_message \<longrightarrow> (\<exists>cb. e_ops E (SGP_GetTag m) = Some cb \<and>
      cb m cid w = map_option (\<lambda>(b, w'). (if b then 1 else 0, w')) (Recv m cid w))"
    by (cases m) (simp_all add: assms(3) kSGPServerOps_def sgp_tags RecvMessageId_def)
qed

text \<open>Any protobuf will do to see it at work: here one that never fails and changes nothing.\<close>

definition still_pb :: "sgp_msg pb" where
  "still_pb = \<lparr>pb_lite = False, pb_print_text = (\<lambda>m. Some []), pb_parse_text = (\<lambda>s m. Some m),
     pb_serialize = (\<lambda>m. Some []), pb_clear = (\<lambda>m. m), pb_parse = (\<lambda>s m. Some m)\<rparr>"

definition still_env :: "(script, sgp_msg) gep_env" where
  "still_env = \<lparr>e_os = script_os, e_pb = still_pb, e_vt = SGP_vt, e_si = SocketInterface_of script_os,
     e_ops = kSGPServerOps (\<lambda>m cid w. Some (True, w)), e_uninit = (\<lambda>_. 0)\<rparr>"

theorem sgp_server_table_witness:
  "ops_ok still_env (SGPProtocol_new still_pb kPort) \<and>
   (\<forall>w. \<exists>cb. e_ops still_env MSG_TAG_COMMAND_3 = Some cb \<and> cb (Command3 None) 4 w = Some (1, w))"
proof -
  have "sgp_pb_ok (e_pb still_env)" by (simp add: still_env_def still_pb_def sgp_pb_ok_def same_class_def)
  moreover have "e_ops still_env = kSGPServerOps (\<lambda>m cid w. Some (True, w))" "e_vt still_env = SGP_vt"
    by (simp_all add: still_env_def)
  ultimately show ?thesis
    using sgp_server_table [of still_env "\<lambda>m cid w. Some (True, w)" "SGPProtocol_new still_pb kPort" "Command3 None" 4]
    by (simp add: SGP_GetTag_def)
qed

end
