(* ===== verification/Gep_Stdlib.thy ===== *)
theory Gep_Stdlib
  imports Gep_Utils
begin

text \<open>
  What the example programs use of the C library on text: \<open>strtol\<close> with base 0, the format
  \<open>%i\<close>, C strings in memory and \<open>getopt_long\<close> with an empty string of short options.
\<close>

section \<open>Text\<close>

definition ascii :: "string \<Rightarrow> u8 list" where
  "ascii = map of_char"

text \<open>The C string at the start of a memory: \<open>None\<close> when it is not terminated in bounds.\<close>

definition cstring :: "nat \<Rightarrow> mem \<Rightarrow> u8 list option" where
  "cstring cap m =
     (let bs = takeWhile (\<lambda>c. c \<noteq> 0) (bytes_at m 0 cap)
      in if length bs < cap then Some bs else None)"

section \<open>strtol\<close>

definition isspace :: "u8 \<Rightarrow> bool" where
  "isspace c \<longleftrightarrow> c = 32 \<or> 9 \<le> c \<and> c \<le> 13"

definition digit_val :: "u8 \<Rightarrow> nat" where
  "digit_val c =
     (if 48 \<le> c \<and> c \<le> 57 then unat (c - 48)
      else if 97 \<le> c \<and> c \<le> 122 then unat (c - 87)
      else if 65 \<le> c \<and> c \<le> 90 then unat (c - 55)
      else 99)"

definition number :: "nat \<Rightarrow> u8 list \<Rightarrow> nat" where
  "number base ds = foldl (\<lambda>a d. a * base + digit_val d) 0 ds"

text \<open>Base 0: hexadecimal after 0x, octal after 0, else decimal.\<close>

definition detect_base :: "u8 list \<Rightarrow> nat \<times> u8 list" where
  "detect_base s =
     (case s of
        a # x # d # rest \<Rightarrow>
          if a = 48 \<and> (x = 120 \<or> x = 88) \<and> digit_val d < 16 then (16, d # rest)
          else if a = 48 then (8, s) else (10, s)
      | a # rest \<Rightarrow> if a = 48 then (8, s) else (10, s)
      | [] \<Rightarrow> (10, s))"

definition long_clamp :: "int \<Rightarrow> int" where
  "long_clamp x = max (- (2 ^ 63)) (min (2 ^ 63 - 1) x)"

text \<open>The value and what follows it; without digits, 0 and the whole text.\<close>

definition strtol :: "u8 list \<Rightarrow> int \<times> u8 list" where
  "strtol s =
     (let t = dropWhile isspace s;
          (neg, t) = (case t of c # t' \<Rightarrow> if c = 45 then (True, t') else if c = 43 then (False, t') else (False, t)
                              | [] \<Rightarrow> (False, t));
          (base, t) = detect_base t;
          ds = takeWhile (\<lambda>c. digit_val c < base) t
      in if ds = [] then (0, s)
         else (long_clamp (if neg then - int (number base ds) else int (number base ds)), drop (length ds) t))"

section \<open>The format %i\<close>

fun dec_digits :: "nat \<Rightarrow> u8 list" where
  "dec_digits n = (if n < 10 then [48 + of_nat n] else dec_digits (n div 10) @ [48 + of_nat (n mod 10)])"

declare dec_digits.simps [simp del]

definition fmt_int :: "int \<Rightarrow> u8 list" where
  "fmt_int x = (if x < 0 then 45 # dec_digits (nat (- x)) else dec_digits (nat x))"

section \<open>getopt_long\<close>

text \<open>A long option: its name, whether it takes an argument, and the value that stands for it.\<close>

type_synonym longopt = "u8 list \<times> bool \<times> int"

definition opt_error :: int where "opt_error = 63"

text \<open>
  The option an argument names: the one with that very name, or the only one that starts with
  it (or several that are the same but for the name).
\<close>

definition find_opt :: "longopt list \<Rightarrow> u8 list \<Rightarrow> longopt option" where
  "find_opt opts nm =
     (case find (\<lambda>(n, arg, val). n = nm) opts of
        Some op \<Rightarrow> Some op
      | None \<Rightarrow> (case filter (\<lambda>(n, arg, val). take (length nm) n = nm) opts of
          [] \<Rightarrow> None
        | op # ops \<Rightarrow> if list_all (\<lambda>op'. snd op' = snd op) ops then Some op else None))"

text \<open>
  One call: the option's value (\<open>'?'\<close> for an error), its argument and the arguments still to
  look at; or the end, with the arguments that are no options. Those are moved behind the
  options as they are met. There are no short options, so every argument that starts with a
  single dash and goes on is an error.
\<close>

datatype opt_result = Opt int "u8 list option" "u8 list list" "u8 list list" | Opt_end "u8 list list"

fun getopt_long :: "longopt list \<Rightarrow> u8 list list \<Rightarrow> u8 list list \<Rightarrow> opt_result" where
  "getopt_long opts [] nonopts = Opt_end nonopts"
| "getopt_long opts (a # args) nonopts =
     (if a = [45, 45] then Opt_end (nonopts @ args)
      else if take 2 a = [45, 45] then
        (let nm = takeWhile (\<lambda>c. c \<noteq> 61) (drop 2 a);
             eq = drop (length nm) (drop 2 a) in
         case find_opt opts nm of
           None \<Rightarrow> Opt opt_error None args nonopts
         | Some (n, False, val) \<Rightarrow>
             if eq = [] then Opt val None args nonopts else Opt opt_error None args nonopts
         | Some (n, True, val) \<Rightarrow>
             if eq \<noteq> [] then Opt val (Some (drop 1 eq)) args nonopts
             else (case args of
                 [] \<Rightarrow> Opt opt_error None args nonopts
               | x # xs \<Rightarrow> Opt val (Some x) xs nonopts))
      else if take 1 a = [45] \<and> length a > 1 then Opt opt_error None args nonopts
      else getopt_long opts args (nonopts @ [a]))"

lemma getopt_long_shorter:
  "getopt_long opts args nonopts = Opt c optarg rest nonopts' \<Longrightarrow> length rest < length args"
  by (induction opts args nonopts rule: getopt_long.induct)
     (auto simp: Let_def less_Suc_eq split: if_splits option.splits bool.splits list.splits)

section \<open>Lemmas: numbers\<close>

lemma digit_val_dec [simp]: "d < 10 \<Longrightarrow> digit_val (48 + of_nat d) = d"
proof -
  assume d: "d < 10"
  then have "unat (of_nat d :: u8) = d" by (simp add: unat_of_nat)
  moreover have "unat (48 + of_nat d :: u8) = 48 + d" using d by (simp add: unat_word_ariths unat_of_nat)
  ultimately show ?thesis using d by (simp add: digit_val_def word_le_nat_alt)
qed

lemma number_snoc: "number base (ds @ [d]) = number base ds * base + digit_val d"
  by (simp add: number_def)

lemma dec_digits_number: "number 10 (dec_digits n) = n"
  by (induction n rule: dec_digits.induct) (subst dec_digits.simps, auto simp: number_snoc number_def)

lemma dec_digits_range: "c \<in> set (dec_digits n) \<Longrightarrow> digit_val c < 10 \<and> 48 \<le> c \<and> c \<le> 57"
proof (induction n rule: dec_digits.induct)
  case (1 n)
  have r: "digit_val (48 + of_nat d) < 10 \<and> (48 :: u8) \<le> 48 + of_nat d \<and> (48 + of_nat d :: u8) \<le> 57" if "d < 10" for d
    using that by (simp add: word_le_nat_alt unat_word_ariths unat_of_nat)
  show ?case
    using 1 r [of n] r [of "n mod 10"] by (subst (asm) (2) dec_digits.simps) (auto split: if_splits)
qed

lemma dec_digits_first: "n \<noteq> 0 \<Longrightarrow> \<exists>c cs. dec_digits n = c # cs \<and> c \<noteq> 48 \<and> 48 \<le> c \<and> c \<le> 57"
proof (induction n rule: dec_digits.induct)
  case (1 n)
  show ?case
  proof (cases "n < 10")
    case True
    have "unat (of_nat n :: u8) = n" using True by (simp add: unat_of_nat)
    then have "(48 + of_nat n :: u8) \<noteq> 48" using 1(2) by auto
    then show ?thesis using True dec_digits_range [of "48 + of_nat n" n] by (subst dec_digits.simps) (simp add: dec_digits.simps)
  next
    case False
    then have "n div 10 \<noteq> 0" by (simp add: div_eq_0_iff)
    then obtain c cs where "dec_digits (n div 10) = c # cs" "c \<noteq> 48" "48 \<le> c" "c \<le> 57"
      using 1(1) [OF False] by blast
    then show ?thesis using False by (subst dec_digits.simps) simp
  qed
qed

lemma detect_base_dec:
  assumes "n \<noteq> 0"
  shows "detect_base (dec_digits n) = (10, dec_digits n)"
proof -
  obtain c cs where "dec_digits n = c # cs" "c \<noteq> 48" using dec_digits_first [OF assms] by blast
  then show ?thesis by (auto simp: detect_base_def split: list.split)
qed

lemma takeWhile_dec: "takeWhile (\<lambda>c. digit_val c < 10) (dec_digits n) = dec_digits n"
  using dec_digits_range by (auto simp: takeWhile_eq_all_conv)

lemma not_space: "48 \<le> c \<Longrightarrow> c \<le> 57 \<Longrightarrow> \<not> isspace c \<and> c \<noteq> 45 \<and> c \<noteq> 43"
  by (auto simp: isspace_def word_le_nat_alt)

lemma long_clamp_id: "i64_ok x \<Longrightarrow> long_clamp x = x"
  by (simp add: long_clamp_def i64_ok_def)

text \<open>Reading back a printed number.\<close>

lemma strtol_fmt_int:
  assumes "i64_ok x"
  shows "strtol (fmt_int x) = (x, [])"
proof (cases "x = 0")
  case True
  have "isspace 48 = False" "digit_val 48 = 0" by (simp_all add: isspace_def digit_val_def)
  then show ?thesis
    using True by (simp add: fmt_int_def dec_digits.simps strtol_def detect_base_def number_def long_clamp_def)
next
  case False
  then have n: "nat \<bar>x\<bar> \<noteq> 0" by simp
  obtain c cs where c: "dec_digits (nat \<bar>x\<bar>) = c # cs" "48 \<le> c" "c \<le> 57" using dec_digits_first [OF n] by blast
  note ns = not_space [OF c(2,3)]
  have b: "detect_base (c # cs) = (10, c # cs)" "takeWhile (\<lambda>c. digit_val c < 10) (c # cs) = c # cs"
    "number 10 (c # cs) = nat \<bar>x\<bar>"
    using detect_base_dec [OF n] takeWhile_dec [of "nat \<bar>x\<bar>"] dec_digits_number [of "nat \<bar>x\<bar>"] unfolding c(1) by simp_all
  have core: "(let ds = takeWhile (\<lambda>c. digit_val c < 10) (c # cs)
       in if ds = [] then (0, t) else (long_clamp (if neg then - int (number 10 ds) else int (number 10 ds)),
         drop (length ds) (c # cs))) = (x, [])" if "neg \<longleftrightarrow> x < 0" for neg t
    unfolding b(2) using b(3) that long_clamp_id [OF assms] by (simp add: Let_def)
  show ?thesis
  proof (cases "x < 0")
    case True
    have "isspace 45 = False" by (simp add: isspace_def)
    moreover have "fmt_int x = 45 # c # cs" using True c(1) by (simp add: fmt_int_def)
    ultimately have "strtol (fmt_int x) = (let ds = takeWhile (\<lambda>c. digit_val c < 10) (c # cs)
       in if ds = [] then (0, 45 # c # cs) else (long_clamp (if True then - int (number 10 ds) else int (number 10 ds)),
         drop (length ds) (c # cs)))"
      using b(1) by (simp add: strtol_def Let_def del: takeWhile.simps)
    then show ?thesis using core True by simp
  next
    case False
    then have "fmt_int x = c # cs" using c(1) by (simp add: fmt_int_def)
    then have "strtol (fmt_int x) = (let ds = takeWhile (\<lambda>c. digit_val c < 10) (c # cs)
       in if ds = [] then (0, c # cs) else (long_clamp (if False then - int (number 10 ds) else int (number 10 ds)),
         drop (length ds) (c # cs)))"
      using b(1) ns by (simp add: strtol_def Let_def del: takeWhile.simps)
    then show ?thesis using core False by simp
  qed
qed

lemma length_dec_digits: "n < 10 ^ k \<Longrightarrow> 0 < k \<Longrightarrow> length (dec_digits n) \<le> k"
proof (induction k arbitrary: n)
  case (Suc k)
  show ?case
  proof (cases "n < 10")
    case False
    then have "k \<noteq> 0" using Suc.prems by (cases k) auto
    moreover have "n div 10 < 10 ^ k" using Suc.prems by (simp add: less_mult_imp_div_less mult.commute)
    ultimately show ?thesis using Suc.IH [of "n div 10"] False by (subst dec_digits.simps) simp
  qed (simp add: dec_digits.simps)
qed simp

lemma dec_digits_nonzero: "c \<in> set (fmt_int x) \<Longrightarrow> c \<noteq> 0"
  using dec_digits_range [of c] by (auto simp: fmt_int_def word_le_nat_alt split: if_splits)

text \<open>A C string that was stored with its terminator.\<close>

lemma cstring_poke:
  assumes "poke cap m 0 (s @ [0]) = Some m'" and "0 \<notin> set s"
  shows "cstring cap m' = Some s"
proof -
  have le: "length s < cap" using assms(1) by (auto simp: poke_def split: if_splits)
  have "bytes_at m' 0 cap = bytes_at m' 0 (length s) @ m' (length s) # bytes_at m' (Suc (length s)) (cap - Suc (length s))"
    using le bytes_at_split [of "length s" cap m' 0] bytes_at_split [of 1 "cap - length s" m' "length s"]
    by (simp add: bytes_at_def)
  moreover have "bytes_at m' 0 (length s) = s" "m' (length s) = 0" using poke_text [OF assms(1)] by simp_all
  ultimately have "takeWhile (\<lambda>c. c \<noteq> 0) (bytes_at m' 0 cap) = s"
    using assms(2) by (auto simp: takeWhile_append)
  then show ?thesis using le by (simp add: cstring_def)
qed

end
