(* ===== verification/Gep_Calendar.thy ===== *)
theory Gep_Calendar
  imports Gep_Stdlib
begin

text \<open>
  What \<open>snprintf_date\<close> uses of the C library: the broken-down time of \<open>gmtime_r\<close> and the
  formats of \<open>strftime\<close>, with the calendar they stand for. The reference is the Gregorian
  calendar by the lengths of its years and months; \<open>gmtime_r\<close> is computed from the cycles
  of 400, 100, 4 and 1 years that begin in March.
\<close>

section \<open>The Gregorian calendar\<close>

definition leap :: "int \<Rightarrow> bool" where
  "leap y \<longleftrightarrow> 4 dvd y \<and> (100 dvd y \<longrightarrow> 400 dvd y)"

definition month_days :: "int \<Rightarrow> int \<Rightarrow> int" where
  "month_days y m = (if m = 2 then (if leap y then 29 else 28) else if m \<in> {4, 6, 9, 11} then 30 else 31)"

text \<open>Days from 1 January of the year 1 to the first of a year, and from there to a month.\<close>

definition days_before_year :: "int \<Rightarrow> int" where
  "days_before_year y = 365 * (y - 1) + (y - 1) div 4 - (y - 1) div 100 + (y - 1) div 400"

definition days_before_month :: "int \<Rightarrow> int \<Rightarrow> int" where
  "days_before_month y m = sum_list (map (month_days y) [1..m - 1])"

definition valid_date :: "int \<Rightarrow> int \<Rightarrow> int \<Rightarrow> bool" where
  "valid_date y m d \<longleftrightarrow> 1 \<le> m \<and> m \<le> 12 \<and> 1 \<le> d \<and> d \<le> month_days y m"

text \<open>Days since 1 January 1970.\<close>

definition day_number :: "int \<Rightarrow> int \<Rightarrow> int \<Rightarrow> int" where
  "day_number y m d = days_before_year y + days_before_month y m + (d - 1) - 719162"

lemma div_pred:
  assumes "0 < k"
  shows "(y - 1) div k = y div k - (if k dvd y then 1 else (0 :: int))"
proof (cases "k dvd y")
  case True
  then have "y mod k = 0" by simp
  then have "y - 1 = k * (y div k - 1) + (k - 1)"
    using mult_div_mod_eq [of k y] by (simp add: right_diff_distrib)
  then have "(y - 1) div k = y div k - 1" by (rule int_div_pos_eq) (use assms in simp_all)
  then show ?thesis using True by simp
next
  case False
  then have "0 < y mod k" using assms by (simp add: dvd_eq_mod_eq_0 order_less_le)
  moreover have "y - 1 = k * (y div k) + (y mod k - 1)" using mult_div_mod_eq [of k y] by simp
  ultimately have "(y - 1) div k = y div k"
    using pos_mod_bound [OF assms, of y] by (intro int_div_pos_eq [of "y - 1" k _ "y mod k - 1"]) simp_all
  then show ?thesis using False by simp
qed

lemma days_before_year_Suc: "days_before_year (y + 1) = days_before_year y + (if leap y then 366 else 365)"
proof -
  have "(4 :: int) dvd 100" "(100 :: int) dvd 400" by simp_all
  then have dvd: "100 dvd y \<longrightarrow> 4 dvd y" "400 dvd y \<longrightarrow> 100 dvd y" using dvd_trans by blast+
  have "365 * y + a - b + c = 365 * (y - 1) + (a - (if p then 1 else 0)) - (b - (if q then 1 else 0)) +
      (c - (if r then 1 else 0)) + (if p \<and> (q \<longrightarrow> r) then 366 else 365)"
    if "q \<longrightarrow> p" "r \<longrightarrow> q" for a b c p q r
    using that by auto
  note sum = this [OF dvd, of "y div 4" "y div 100" "y div 400"]
  show ?thesis
    unfolding days_before_year_def leap_def div_pred [of 4, simplified] div_pred [of 100, simplified]
      div_pred [of 400, simplified] add_diff_cancel_right' by (rule sum)
qed

lemma days_before_month_table:
  "days_before_month y 1 = 0"
  "days_before_month y 2 = 31"
  "days_before_month y 3 = 59 + (if leap y then 1 else 0)"
  "days_before_month y 4 = 90 + (if leap y then 1 else 0)"
  "days_before_month y 5 = 120 + (if leap y then 1 else 0)"
  "days_before_month y 6 = 151 + (if leap y then 1 else 0)"
  "days_before_month y 7 = 181 + (if leap y then 1 else 0)"
  "days_before_month y 8 = 212 + (if leap y then 1 else 0)"
  "days_before_month y 9 = 243 + (if leap y then 1 else 0)"
  "days_before_month y 10 = 273 + (if leap y then 1 else 0)"
  "days_before_month y 11 = 304 + (if leap y then 1 else 0)"
  "days_before_month y 12 = 334 + (if leap y then 1 else 0)"
  by (simp_all add: days_before_month_def month_days_def upto.simps [of 1])

section \<open>gmtime\_r\<close>

record tm =
  tm_year :: int
  tm_mon :: int
  tm_mday :: int
  tm_hour :: int
  tm_min :: int
  tm_sec :: int
  tm_gmtoff :: int

text \<open>Year, month and day of a day number.\<close>

definition civil :: "int \<Rightarrow> int \<times> int \<times> int" where
  "civil days =
     (let z = days + 719468; era = z div 146097; doe = z mod 146097;
          n100 = min 3 (doe div 36524); r100 = doe - 36524 * n100;
          n4 = r100 div 1461; r4 = r100 mod 1461;
          n1 = min 3 (r4 div 365); doy = r4 - 365 * n1;
          mp = (5 * doy + 2) div 153;
          d = doy - (153 * mp + 2) div 5 + 1;
          m = (if mp < 10 then mp + 3 else mp - 9);
          y = 400 * era + 100 * n100 + 4 * n4 + n1
      in (if m \<le> 2 then y + 1 else y, m, d))"

text \<open>The year must fit the \<open>int\<close> of \<open>tm_year\<close>; otherwise there is no broken-down time.\<close>

definition gmtime_r :: "int \<Rightarrow> tm option" where
  "gmtime_r secs =
     (case civil (secs div 86400) of (y, m, d) \<Rightarrow> do {
        y' \<leftarrow> chk32 (y - 1900);
        let s = secs mod 86400;
        Some \<lparr>tm_year = y', tm_mon = m - 1, tm_mday = d, tm_hour = s div 3600,
          tm_min = s mod 3600 div 60, tm_sec = s mod 60, tm_gmtoff = 0\<rparr>
      })"

section \<open>strftime\<close>

text \<open>A decimal number in at least so many digits, filled with zeros.\<close>

definition pad_dec :: "nat \<Rightarrow> nat \<Rightarrow> u8 list" where
  "pad_dec width n = replicate (width - length (dec_digits n)) 48 @ dec_digits n"

text \<open>The formats \<open>%F\<close>, \<open>%d\<close>, \<open>%T\<close> and \<open>%z\<close>, and \<open>%03d\<close> of \<open>printf\<close>.\<close>

definition fmt_F :: "tm \<Rightarrow> u8 list" where
  "fmt_F t = fmt_int (tm_year t + 1900) @ [45] @ pad_dec 2 (nat (tm_mon t + 1)) @ [45] @ pad_dec 2 (nat (tm_mday t))"

definition fmt_d :: "tm \<Rightarrow> u8 list" where
  "fmt_d t = pad_dec 2 (nat (tm_mday t))"

definition fmt_T :: "tm \<Rightarrow> u8 list" where
  "fmt_T t = pad_dec 2 (nat (tm_hour t)) @ [58] @ pad_dec 2 (nat (tm_min t)) @ [58] @ pad_dec 2 (nat (tm_sec t))"

definition fmt_z :: "tm \<Rightarrow> u8 list" where
  "fmt_z t =
     (let minutes = nat (\<bar>tm_gmtoff t\<bar> div 60)
      in (if tm_gmtoff t < 0 then 45 else 43) # pad_dec 2 (minutes div 60) @ pad_dec 2 (minutes mod 60))"

definition fmt_03d :: "int \<Rightarrow> u8 list" where
  "fmt_03d x = (if x < 0 then 45 # pad_dec 2 (nat (- x)) else pad_dec 3 (nat x))"

text \<open>
  \<open>strftime\<close> at an offset of a buffer, for a format whose text is \<open>out\<close>: the text with its
  terminator when both fit into \<open>sz\<close> bytes; otherwise 0, and the contents of these bytes are
  not specified (\<open>junk\<close>).
\<close>

definition strftime :: "mem \<Rightarrow> nat \<Rightarrow> mem \<Rightarrow> nat \<Rightarrow> nat \<Rightarrow> u8 list \<Rightarrow> (nat \<times> mem) option" where
  "strftime junk cap m off sz out =
     (if length out < sz then do {
        m' \<leftarrow> poke cap m off (out @ [0]);
        Some (length out, m')
      } else Some (0, \<lambda>i. if off \<le> i \<and> i < off + sz then junk i else m i))"

section \<open>Lemmas: the date is right\<close>

text \<open>From March to the end of the next February: month, day and position in the year.\<close>

lemma march_months:
  assumes "0 \<le> doy" and "doy \<le> 365" and "mp = (5 * doy + 2) div 153" and "d = doy - (153 * mp + 2) div 5 + 1"
  shows "mp \<in> {0..11}" and "1 \<le> d" and "d \<le> [31,30,31,30,31,31,30,31,30,31,31,29] ! nat mp"
    and "doy = [0,31,61,92,122,153,184,214,245,275,306,337] ! nat mp + (d - 1)"
proof -
  have b: "153 * mp \<le> 5 * doy + 2" "5 * doy + 2 < 153 * mp + 153" using assms(3) by simp_all
  then have "mp \<in> {0..11}" using assms(1,2) by simp
  then have m: "mp \<in> {0,1,2,3,4,5,6,7,8,9,10,11}" unfolding insert_iff atLeastAtMost_iff empty_iff by presburger
  show "mp \<in> {0..11}" by fact
  show "1 \<le> d" using m b assms(4) by (elim insertE) simp_all
  show "d \<le> [31,30,31,30,31,31,30,31,30,31,31,29] ! nat mp" using m b assms(2,4) by (elim insertE) simp_all
  show "doy = [0,31,61,92,122,153,184,214,245,275,306,337] ! nat mp + (d - 1)" using m assms(4) by (elim insertE) simp_all
qed

text \<open>The cycles of a day number: \<open>y\<close> is the year that begins on its 1 March.\<close>

lemma day_cycles:
  assumes "era = z div 146097" and "doe = z mod 146097" and "n100 = min 3 (doe div 36524)"
    and "r100 = doe - 36524 * n100" and "n4 = r100 div 1461" and "r4 = r100 mod 1461"
    and "n1 = min 3 (r4 div 365)" and "doy = r4 - 365 * n1" and "y = 400 * era + 100 * n100 + 4 * n4 + n1"
  shows "z = 365 * y + y div 4 - y div 100 + y div 400 + doy" and "0 \<le> doy" and "doy \<le> 365"
    and "doy = 365 \<Longrightarrow> leap (y + 1)"
proof -
  have doe: "0 \<le> doe" "doe < 146097" and z: "z = 146097 * era + doe" using assms(1,2) by simp_all
  have n100: "0 \<le> n100" "n100 \<le> 3" "0 \<le> r100" "r100 \<le> 36524" "r100 = 36524 \<Longrightarrow> n100 = 3"
    using doe assms(3,4) by linarith+
  have r100: "r100 = 1461 * n4 + r4" "0 \<le> r4" "r4 < 1461" using assms(5,6) by simp_all
  then have n4: "0 \<le> n4" "n4 \<le> 24" "n4 = 24 \<Longrightarrow> r4 = 1460 \<Longrightarrow> n100 = 3" using n100 by linarith+
  have n1: "0 \<le> n1" "n1 \<le> 3" and doy: "0 \<le> doy" "doy \<le> 365" "doy = 365 \<Longrightarrow> n1 = 3 \<and> r4 = 1460"
    using r100(2,3) assms(7,8) by linarith+
  have y: "y div 4 = 100 * era + 25 * n100 + n4" "y div 100 = 4 * era + n100" "y div 400 = era"
    using n100(1,2) n4(1,2) n1 assms(9) by linarith+
  show "z = 365 * y + y div 4 - y div 100 + y div 400 + doy"
    using z y r100(1) assms(4,8,9) by linarith
  show "0 \<le> doy" "doy \<le> 365" using doy(1,2) .
  show "leap (y + 1)" if "doy = 365"
  proof -
    have e: "n1 = 3" "r4 = 1460" using doy(3) [OF that] by simp_all
    then have y1: "y + 1 = 4 * (100 * era + 25 * n100 + n4 + 1)" using assms(9) by simp
    then have "4 dvd y + 1" by simp
    moreover have "400 dvd y + 1" if "100 dvd y + 1"
    proof -
      obtain c where "y + 1 = 100 * c" using \<open>100 dvd y + 1\<close> by blast
      then have "n4 + 1 = 25 * (c - 4 * era - n100)" using y1 by simp
      then have "25 dvd n4 + 1" by simp
      then have "25 \<le> n4 + 1" using n4(1) by (intro zdvd_imp_le) simp_all
      then have "n4 = 24" using n4(2) by simp
      then have "n100 = 3" using n4(3) e(2) by simp
      then have "y + 1 = 400 * (era + 1)" using y1 \<open>n4 = 24\<close> by simp
      then show ?thesis by simp
    qed
    ultimately show ?thesis unfolding leap_def by blast
  qed
qed

lemma march_month_valid:
  assumes "mp \<in> {0,1,2,3,4,5,6,7,8,9,10,11}" and "1 \<le> d"
    and "d \<le> [31,30,31,30,31,31,30,31,30,31,31,29] ! nat mp" and "mp = 11 \<and> d = 29 \<longrightarrow> leap (y0 + 1)"
    and "m = (if mp < 10 then mp + 3 else mp - 9)" and "y = (if m \<le> 2 then y0 + 1 else y0)"
  shows "valid_date y m d"
proof (cases "mp = 11")
  case True
  then show ?thesis using assms(2-6) by (simp add: valid_date_def month_days_def) linarith
next
  case False
  then show ?thesis
    using assms(1-3) unfolding assms(5,6)
    by (elim insertE) (simp_all add: valid_date_def month_days_def)
qed

text \<open>March is day 59 or 60 of its year, and January and February are the end of the year before.\<close>

lemma march_month_number:
  assumes "mp \<in> {0,1,2,3,4,5,6,7,8,9,10,11}"
    and "n = days_before_year (y0 + 1) + [0,31,61,92,122,153,184,214,245,275,306,337] ! nat mp + (d - 1)"
    and "m = (if mp < 10 then mp + 3 else mp - 9)" and "y = (if m \<le> 2 then y0 + 1 else y0)"
  shows "days_before_year y + days_before_month y m + (d - 1) = n - 306"
proof -
  obtain l where l: "l = (if leap y0 then 1 else (0 :: int))" by simp
  have "days_before_year (y0 + 1) = days_before_year y0 + 365 + l" unfolding days_before_year_Suc l by simp
  then show ?thesis
    using assms(1) unfolding assms(2-4)
    by (elim insertE) (simp_all add: days_before_month_table l [symmetric])
qed

lemma civil_correct:
  assumes "civil days = (y, m, d)"
  shows "valid_date y m d" and "day_number y m d = days"
proof -
  define z where "z = days + 719468"
  define n100 where "n100 = min 3 (z mod 146097 div 36524)"
  define r100 where "r100 = z mod 146097 - 36524 * n100"
  define n1 where "n1 = min 3 (r100 mod 1461 div 365)"
  define doy where "doy = r100 mod 1461 - 365 * n1"
  define mp where "mp = (5 * doy + 2) div 153"
  define y0 where "y0 = 400 * (z div 146097) + 100 * n100 + 4 * (r100 div 1461) + n1"
  have cyc: "z = 365 * y0 + y0 div 4 - y0 div 100 + y0 div 400 + doy" "0 \<le> doy" "doy \<le> 365"
    "doy = 365 \<Longrightarrow> leap (y0 + 1)"
    using day_cycles [OF refl refl n100_def r100_def refl refl n1_def doy_def y0_def] by blast+
  have m: "m = (if mp < 10 then mp + 3 else mp - 9)" and d: "d = doy - (153 * mp + 2) div 5 + 1"
    and y: "y = (if m \<le> 2 then y0 + 1 else y0)"
    using assms [unfolded civil_def Let_def, folded z_def, folded n100_def, folded r100_def, folded n1_def,
      folded doy_def, folded mp_def, folded y0_def] unfolding prod.inject by (elim conjE, simp only:)+
  note mar = march_months [OF cyc(2,3) mp_def d]
  have n: "z = days_before_year (y0 + 1) + doy" using cyc(1) by (simp add: days_before_year_def)
  have mp: "mp \<in> {0,1,2,3,4,5,6,7,8,9,10,11}"
    using mar(1) unfolding insert_iff atLeastAtMost_iff empty_iff by presburger
  have "days_before_year y + days_before_month y m + (d - 1) = z - 306"
    by (rule march_month_number [OF mp _ m y]) (simp add: n mar(4))
  then show "day_number y m d = days" by (simp add: z_def day_number_def)
  have "mp = 11 \<and> d = 29 \<longrightarrow> leap (y0 + 1)" using mar(4) cyc(4) by auto
  then show "valid_date y m d" by (rule march_month_valid [OF mp mar(2,3) _ m y])
qed

lemma gmtime_r_correct:
  assumes "gmtime_r secs = Some t"
  shows "valid_date (tm_year t + 1900) (tm_mon t + 1) (tm_mday t)"
    and "tm_hour t \<in> {0..23}" and "tm_min t \<in> {0..59}" and "tm_sec t \<in> {0..59}" and "tm_gmtoff t = 0"
    and "86400 * day_number (tm_year t + 1900) (tm_mon t + 1) (tm_mday t) +
      3600 * tm_hour t + 60 * tm_min t + tm_sec t = secs"
proof -
  obtain y m d where c: "civil (secs div 86400) = (y, m, d)" using prod_cases3 by blast
  define s where "s = secs mod 86400"
  have t: "tm_year t = y - 1900" "tm_mon t = m - 1" "tm_mday t = d" "tm_gmtoff t = 0"
    and hms: "tm_hour t = s div 3600" "tm_min t = s mod 3600 div 60" "tm_sec t = s mod 60"
    using assms by (auto simp: gmtime_r_def c s_def Let_def split: bind_splits)
  have s: "0 \<le> s" "s < 86400" by (simp_all add: s_def)
  show "valid_date (tm_year t + 1900) (tm_mon t + 1) (tm_mday t)" "tm_gmtoff t = 0"
    using civil_correct(1) [OF c] t by simp_all
  have h: "3600 * (s div 3600) + s mod 3600 = s" and m: "60 * (s mod 3600 div 60) + s mod 3600 mod 60 = s mod 3600"
    and e: "s mod 3600 mod 60 = s mod 60"
    by (simp_all only: mult_div_mod_eq) (simp add: mod_mod_cancel)
  have "0 \<le> s div 3600" "s div 3600 < 24" using s by (simp_all only: pos_imp_zdiv_nonneg_iff div_less_iff_less_mult)
  moreover have "0 \<le> s mod 3600 div 60" "s mod 3600 div 60 < 60"
    using pos_mod_bound [of 3600 s] by (simp_all add: pos_imp_zdiv_nonneg_iff div_less_iff_less_mult)
  ultimately show "tm_hour t \<in> {0..23}" "tm_min t \<in> {0..59}" "tm_sec t \<in> {0..59}"
    unfolding hms using pos_mod_bound [of 60 s] by auto
  have "s = 3600 * tm_hour t + 60 * tm_min t + tm_sec t" unfolding hms by (simp only: add.assoc m [unfolded e] h)
  then show "86400 * day_number (tm_year t + 1900) (tm_mon t + 1) (tm_mday t) +
      3600 * tm_hour t + 60 * tm_min t + tm_sec t = secs"
    using civil_correct(2) [OF c] t mult_div_mod_eq [of 86400 secs] by (simp add: s_def)
qed

lemma length_pad_dec [simp]: "n < 10 ^ k \<Longrightarrow> 0 < k \<Longrightarrow> length (pad_dec k n) = k"
  using length_dec_digits [of n k] by (simp add: pad_dec_def)

section \<open>Lemmas: a day has one date\<close>

lemma days_before_year_mono:
  assumes "y \<le> y'"
  shows "days_before_year y \<le> days_before_year y'"
proof -
  have "days_before_year y \<le> days_before_year (y + int k)" for k
  proof (induction k)
    case (Suc k)
    have "days_before_year (y + int (Suc k)) = days_before_year (y + int k + 1)" by (simp add: algebra_simps)
    then show ?case using Suc days_before_year_Suc [of "y + int k"] by (simp split: if_splits)
  qed simp
  from this [of "nat (y' - y)"] show ?thesis using assms by simp
qed

lemma days_before_month_Suc: "1 \<le> m \<Longrightarrow> days_before_month y (m + 1) = days_before_month y m + month_days y m"
  by (simp add: days_before_month_def upto_rec2)

lemma days_before_month_mono:
  assumes "1 \<le> m" and "m \<le> m'"
  shows "days_before_month y m \<le> days_before_month y m'"
proof -
  have "days_before_month y m \<le> days_before_month y (m + int k)" for k
  proof (induction k)
    case (Suc k)
    have "days_before_month y (m + int (Suc k)) = days_before_month y (m + int k + 1)" by (simp add: algebra_simps)
    also have "\<dots> = days_before_month y (m + int k) + month_days y (m + int k)"
      using assms(1) by (intro days_before_month_Suc) simp
    finally show ?case using Suc by (simp add: month_days_def split: if_splits)
  qed simp
  from this [of "nat (m' - m)"] show ?thesis using assms by simp
qed

lemma days_before_month_13: "days_before_month y 13 = (if leap y then 366 else 365)"
  using days_before_month_Suc [of 12 y] by (simp add: days_before_month_table month_days_def)

lemma day_in_month:
  assumes "valid_date y m d"
  shows "0 \<le> days_before_month y m" and "days_before_month y m + d \<le> days_before_month y (m + 1)"
    and "days_before_month y (m + 1) \<le> (if leap y then 366 else 365)"
proof -
  have v: "1 \<le> m" "m \<le> 12" "d \<le> month_days y m" using assms by (simp_all add: valid_date_def)
  show "0 \<le> days_before_month y m"
    using days_before_month_mono [of 1 m y] v(1) by (simp add: days_before_month_table)
  show "days_before_month y m + d \<le> days_before_month y (m + 1)"
    using days_before_month_Suc [of m y] v by simp
  show "days_before_month y (m + 1) \<le> (if leap y then 366 else 365)"
    using days_before_month_mono [of "m + 1" 13 y] v(1,2) unfolding days_before_month_13 by simp
qed

lemma day_number_unique:
  assumes "valid_date y m d" and "valid_date y' m' d'" and "day_number y m d = day_number y' m' d'"
  shows "(y, m, d) = (y', m', d')"
proof -
  have yb: "days_before_year y \<le> day_number y m d + 719162 \<and> day_number y m d + 719162 < days_before_year (y + 1)"
    if "valid_date y m d" for y m d
    using day_in_month [OF that] that days_before_year_Suc [of y] unfolding day_number_def valid_date_def by linarith
  have y: "y = y'"
    using yb [OF assms(1)] yb [OF assms(2)] assms(3) days_before_year_mono [of "y + 1" y']
      days_before_year_mono [of "y' + 1" y]
    by (cases y y' rule: linorder_cases) auto
  have e: "days_before_month y m + d = days_before_month y m' + d'"
    using assms(3) y by (simp add: day_number_def)
  have m: "m = m'"
  proof (cases m m' rule: linorder_cases)
    case less
    then show ?thesis
      using e day_in_month(2) [OF assms(1)] days_before_month_mono [of "m + 1" m' y] assms(1,2) by (simp add: valid_date_def)
  next
    case greater
    then show ?thesis
      using e day_in_month(2) [OF assms(2)] days_before_month_mono [of "m' + 1" m y] assms(1,2) y by (simp add: valid_date_def)
  qed
  then show ?thesis using y e by simp
qed

text \<open>The broken-down time of a date and a time of day is that date and time.\<close>

lemma gmtime_r_of_date:
  assumes "valid_date y m d" and "h \<in> {0..23}" and "mi \<in> {0..59}" and "s \<in> {0..59}" and "i32_ok (y - 1900)"
  shows "gmtime_r (86400 * day_number y m d + 3600 * h + 60 * mi + s) =
    Some \<lparr>tm_year = y - 1900, tm_mon = m - 1, tm_mday = d, tm_hour = h, tm_min = mi, tm_sec = s, tm_gmtoff = 0\<rparr>"
proof -
  define q where "q = 3600 * h + 60 * mi + s"
  have q: "0 \<le> q" "q < 86400" using assms(2-4) unfolding q_def by simp_all
  let ?n = "86400 * day_number y m d + q"
  have div: "?n div 86400 = day_number y m d" "?n mod 86400 = q" using q by simp_all
  have hms: "q div 3600 = h" "q mod 3600 = 60 * mi + s" "q mod 60 = s" "(60 * mi + s) div 60 = mi"
  proof -
    show "q div 3600 = h" unfolding q_def using assms(3,4) by (intro int_div_pos_eq [where r = "60 * mi + s"]) auto
    show "q mod 3600 = 60 * mi + s" unfolding q_def using assms(3,4) by (intro int_mod_pos_eq [where q = h]) auto
    show "q mod 60 = s" unfolding q_def using assms(4) by (intro int_mod_pos_eq [where q = "60 * h + mi"]) auto
    show "(60 * mi + s) div 60 = mi" using assms(4) by (intro int_div_pos_eq [where r = s]) auto
  qed
  obtain y' m' d' where c: "civil (day_number y m d) = (y', m', d')" using prod_cases3 by blast
  have "(y', m', d') = (y, m, d)" using day_number_unique [OF civil_correct(1) [OF c] assms(1) civil_correct(2) [OF c]] .
  then have "civil (day_number y m d) = (y, m, d)" using c by simp
  then have "gmtime_r ?n = Some \<lparr>tm_year = y - 1900, tm_mon = m - 1, tm_mday = d, tm_hour = h, tm_min = mi,
      tm_sec = s, tm_gmtoff = 0\<rparr>"
    unfolding gmtime_r_def div using assms(5) by (simp add: Let_def hms chk32_def)
  then show ?thesis by (simp add: q_def add.assoc)
qed

end
