(* ===== verification/Gep_Date.thy ===== *)
theory Gep_Date
  imports Gep_Calendar Gep_Protocol
begin

text \<open>
  The rest of \<open>src/utils.cc\<close>: the time stamp \<open>snprintf_date\<close>, the lines that \<open>gep_log\<close> and
  \<open>gep_perror\<close> print, the time of day and the comparison of messages.

  Parameters are what the system says: the time of day, whether daylight saving time is in
  force in the local zone at a time (\<open>tm_isdst\<close> of \<open>localtime_r\<close>), the text of an error number.
\<close>

section \<open>Time stamps\<close>

definition kDateStringLen :: int where "kDateStringLen = 64"

definition snprintf_date ::
  "(int \<Rightarrow> int) \<Rightarrow> timeval \<Rightarrow> mem \<Rightarrow> nat \<Rightarrow> mem \<Rightarrow> int \<Rightarrow> timeval option \<Rightarrow> bool \<Rightarrow> (int \<times> mem) option"
where
  "snprintf_date isdst now junk cap buf bufsize tvin full =
     (let bi = 0;
          tv = (case tvin of None \<Rightarrow> now | Some tvin \<Rightarrow> \<lparr>tv_sec = tv_sec tvin, tv_usec = tv_usec tvin\<rparr>);
          is_dst = isdst (tv_sec tv) > 0 in do {
        secs \<leftarrow> (if is_dst then chk64 (tv_sec tv - 3600 * 7) else chk64 (tv_sec tv - 3600 * 8));
        ltm \<leftarrow> gmtime_r secs;
        let ltm = (if is_dst then ltm\<lparr>tm_gmtoff := tm_gmtoff ltm - 3600 * 7\<rparr>
                   else ltm\<lparr>tm_gmtoff := tm_gmtoff ltm - 3600 * 8\<rparr>);
        (ret, buf) \<leftarrow>
          (if full then strftime junk cap buf bi (unat (to_u64 (bufsize - int bi))) (fmt_F ltm @ [84] @ fmt_T ltm)
           else strftime junk cap buf bi (unat (to_u64 (bufsize - int bi))) (fmt_d ltm @ [44] @ fmt_T ltm));
        if ret \<le> 0 then do {
          buf \<leftarrow> poke cap buf bi [0];
          Some (int bi, buf)
        } else do {
          let bi = bi + ret;
          (n, buf) \<leftarrow> nice_snprintf cap buf bi (unat (to_u64 (bufsize - int bi)))
            ([46] @ fmt_03d (narrow32 (tv_usec tv sdiv 1000)));
          let bi = bi + n;
          if full then do {
            (ret, buf) \<leftarrow> strftime junk cap buf bi (unat (to_u64 (bufsize - int bi))) (fmt_z ltm);
            if ret \<le> 0 then do {
              buf \<leftarrow> poke cap buf bi [0];
              Some (int bi, buf)
            } else Some (int (bi + ret), buf)
          } else Some (int bi, buf)
        }
      })"

section \<open>Log lines\<close>

text \<open>
  What is written to stdout, where \<open>msg\<close> is the text of the format call. The time stamp is
  printed as the C string in \<open>date_str\<close>.
\<close>

definition date_text :: "(int \<Rightarrow> int) \<Rightarrow> timeval \<Rightarrow> mem \<Rightarrow> u8 list option" where
  "date_text isdst now date_str = do {
     (r, date_str) \<leftarrow> snprintf_date isdst now date_str (nat kDateStringLen) date_str kDateStringLen None False;
     cstring (nat kDateStringLen) date_str
   }"

definition gep_log :: "(int \<Rightarrow> int) \<Rightarrow> timeval \<Rightarrow> mem \<Rightarrow> LogLevel \<Rightarrow> LogLevel \<Rightarrow> u8 list \<Rightarrow> u8 list option" where
  "gep_log isdst now date_str gep_log_level level msg =
     (if level > gep_log_level then Some []
      else do {
        date \<leftarrow> date_text isdst now date_str;
        Some (date @ [32] @ msg @ [10])
      })"

definition gep_perror ::
  "(int \<Rightarrow> int) \<Rightarrow> timeval \<Rightarrow> mem \<Rightarrow> (int \<Rightarrow> u8 list) \<Rightarrow> int \<Rightarrow> u8 list \<Rightarrow> u8 list option" where
  "gep_perror isdst now date_str strerror err msg = do {
     date \<leftarrow> date_text isdst now date_str;
     Some (date @ [32] @ msg @ [32, 39] @ strerror err @ [39, 91] @ fmt_int err @ [93] @ [10])
   }"

section \<open>Time of day and messages\<close>

definition GetUnixTimeUsec :: "timeval \<Rightarrow> int option" where
  "GetUnixTimeUsec tv = do {
     s \<leftarrow> chk64 (tv_sec tv * kUsecsPerSec);
     chk64 (s + tv_usec tv)
   }"

text \<open>\<open>str\<close> is what \<open>SerializeToString\<close> leaves in its string, which it starts by clearing.\<close>

definition ProtobufEqual :: "('m \<Rightarrow> u8 list) \<Rightarrow> 'm \<Rightarrow> 'm \<Rightarrow> bool" where
  "ProtobufEqual str msg1 msg2 \<longleftrightarrow> str msg1 = str msg2"

section \<open>Lemmas\<close>

lemma fmt_gmtoff [simp]:
  "fmt_F (t\<lparr>tm_gmtoff := x\<rparr>) = fmt_F t" "fmt_d (t\<lparr>tm_gmtoff := x\<rparr>) = fmt_d t" "fmt_T (t\<lparr>tm_gmtoff := x\<rparr>) = fmt_T t"
  by (simp_all add: fmt_F_def fmt_d_def fmt_T_def)

text \<open>The Pacific offset of a time, in seconds west of Greenwich.\<close>

definition pacific :: "(int \<Rightarrow> int) \<Rightarrow> int \<Rightarrow> int" where
  "pacific isdst secs = (if isdst secs > 0 then 25200 else 28800)"

lemma fmt_zone: "fmt_z \<lparr>tm_year = y, tm_mon = m, tm_mday = d, tm_hour = h, tm_min = mi, tm_sec = s,
    tm_gmtoff = - pacific isdst secs\<rparr> = (if isdst secs > 0 then ascii ''-0700'' else ascii ''-0800'')"
  by (simp add: fmt_z_def pacific_def Let_def pad_dec_def dec_digits.simps ascii_def)

text \<open>The body with its local variables resolved.\<close>

lemma snprintf_date_eq:
  assumes "gmtime_r (tv_sec tv - pacific isdst (tv_sec tv)) = Some t" and "i64_ok (tv_sec tv - pacific isdst (tv_sec tv))"
    and "tm_gmtoff t = 0" and "0 \<le> bufsize" and "bufsize < 2 ^ 31" and "0 \<le> tv_usec tv" and "tv_usec tv < 1000000"
  shows "snprintf_date isdst now junk cap buf bufsize (Some tv) full =
    (let date = (if full then fmt_F t @ [84] @ fmt_T t else fmt_d t @ [44] @ fmt_T t);
         ms = [46] @ pad_dec 3 (nat (tv_usec tv div 1000)) in do {
      (ret, buf) \<leftarrow> strftime junk cap buf 0 (nat bufsize) date;
      if ret = 0 then do {
        buf \<leftarrow> poke cap buf 0 [0];
        Some (0, buf)
      } else do {
        (n, buf) \<leftarrow> nice_snprintf cap buf ret (unat (to_u64 (bufsize - int ret))) ms;
        if full then do {
          (ret', buf) \<leftarrow> strftime junk cap buf (ret + n) (unat (to_u64 (bufsize - int (ret + n))))
            (fmt_z (t\<lparr>tm_gmtoff := - pacific isdst (tv_sec tv)\<rparr>));
          if ret' = 0 then do {
            buf \<leftarrow> poke cap buf (ret + n) [0];
            Some (int (ret + n), buf)
          } else Some (int (ret + n + ret'), buf)
        } else Some (int (ret + n), buf)
      }
    })"
proof -
  have "tv_usec tv sdiv 1000 = tv_usec tv div 1000" using assms(6) by (simp add: signed_divide_int_def sgn_if)
  moreover have "0 \<le> tv_usec tv div 1000" "tv_usec tv div 1000 < 1000"
    using assms(6,7) by (simp_all add: pos_imp_zdiv_nonneg_iff div_less_iff_less_mult)
  ultimately have ms: "fmt_03d (narrow32 (tv_usec tv sdiv 1000)) = pad_dec 3 (nat (tv_usec tv div 1000))"
    by (simp add: narrow32_id i32_ok_def fmt_03d_def)
  have b: "unat (to_u64 bufsize) = nat bufsize" using assms(4,5) by (simp add: unat_to_u64)
  have tv: "\<lparr>tv_sec = tv_sec tv, tv_usec = tv_usec tv\<rparr> = tv" by simp
  show ?thesis
    using assms(1-3)
    by (cases "isdst (tv_sec tv) > 0"; cases full)
       (simp_all add: snprintf_date_def Let_def pacific_def tv b ms chk64_def cong del: if_weak_cong)
qed

lemma length_dec_digits_4: "1000 \<le> n \<Longrightarrow> n < 10000 \<Longrightarrow> length (dec_digits n) = 4"
proof -
  assume n: "1000 \<le> n" "n < 10000"
  have "\<not> n < 10" "\<not> n div 10 < 10" "\<not> n div 10 div 10 < 10" "n div 10 div 10 div 10 < 10"
    using n by (simp_all add: div_mult2_eq [symmetric] div_less_iff_less_mult not_less less_eq_div_iff_mult_less_eq)
  then show ?thesis by (simp add: dec_digits.simps)
qed

lemma length_fields:
  assumes "valid_date y m d" and "1000 \<le> y" and "y \<le> 9999" and "h \<in> {0..23}" and "mi \<in> {0..59}" and "s \<in> {0..59}"
    and "t = \<lparr>tm_year = y - 1900, tm_mon = m - 1, tm_mday = d, tm_hour = h, tm_min = mi, tm_sec = s, tm_gmtoff = g\<rparr>"
  shows "length (fmt_F t) = 10" and "length (fmt_d t) = 2" and "length (fmt_T t) = 8"
proof -
  have "m \<le> 12" "d \<le> 31" "h \<le> 23" "mi \<le> 59" "s \<le> 59"
    using assms(1,4-6) by (auto simp: valid_date_def month_days_def split: if_splits)
  then show "length (fmt_F t) = 10" "length (fmt_d t) = 2" "length (fmt_T t) = 8"
    using assms(2,3,7) by (simp_all add: fmt_F_def fmt_d_def fmt_T_def fmt_int_def length_dec_digits_4)
qed

lemma strftime_fits:
  assumes "length out < sz" and "off + sz \<le> cap"
  obtains m' where "strftime junk cap m off sz out = Some (length out, m')" and "poke cap m off (out @ [0]) = Some m'"
  using assms by (auto simp: strftime_def poke_def)

text \<open>The days of the years of four digits.\<close>

lemma day_number_range:
  assumes "valid_date y m d" and "1000 \<le> y" and "y \<le> 9999"
  shows "-355000 < day_number y m d" and "day_number y m d < 2940000"
  using day_in_month [OF assms(1)] assms days_before_year_mono [of 1000 y] days_before_year_mono [of y 9999]
  by (auto simp: day_number_def valid_date_def days_before_year_def [of 1000] days_before_year_def [of 9999]
      split: if_splits)

lemma date_gmtime:
  assumes "valid_date y m d" and "1000 \<le> y" and "y \<le> 9999" and "h \<in> {0..23}" and "mi \<in> {0..59}" and "s \<in> {0..59}"
    and "secs - pacific isdst secs = 86400 * day_number y m d + 3600 * h + 60 * mi + s"
  shows "gmtime_r (secs - pacific isdst secs) = Some \<lparr>tm_year = y - 1900, tm_mon = m - 1, tm_mday = d,
      tm_hour = h, tm_min = mi, tm_sec = s, tm_gmtoff = 0\<rparr>"
    and "i64_ok (secs - pacific isdst secs)"
proof -
  have "i32_ok (y - 1900)" using assms(2,3) by (simp add: i32_ok_def)
  then show "gmtime_r (secs - pacific isdst secs) = Some \<lparr>tm_year = y - 1900, tm_mon = m - 1, tm_mday = d,
      tm_hour = h, tm_min = mi, tm_sec = s, tm_gmtoff = 0\<rparr>"
    unfolding assms(7) using assms by (intro gmtime_r_of_date) simp_all
  show "i64_ok (secs - pacific isdst secs)"
    using day_number_range [OF assms(1-3)] assms(4-7) by (simp add: i64_ok_def)
qed

lemma nice_snprintf_eq:
  "0 < sz \<Longrightarrow> off + sz \<le> cap \<Longrightarrow> \<exists>m'. nice_snprintf cap m off sz out = Some (min sz (length out), m') \<and>
     poke cap m off (take (sz - 1) out @ [0]) = Some m'"
  by (cases "sz \<le> length out"; cases out) (auto simp: nice_snprintf_def poke_def min_def Let_def)

text \<open>Room for everything: each piece is appended to what is there.\<close>

lemma snprintf_date_text:
  assumes "gmtime_r (tv_sec tv - pacific isdst (tv_sec tv)) = Some t" and "i64_ok (tv_sec tv - pacific isdst (tv_sec tv))"
    and "tm_gmtoff t = 0" and "bufsize < 2 ^ 31" and "0 \<le> tv_usec tv" and "tv_usec tv < 1000000" and "bufsize \<le> int cap"
    and "date = (if full then fmt_F t @ [84] @ fmt_T t else fmt_d t @ [44] @ fmt_T t)"
    and "zone = (if full then fmt_z (t\<lparr>tm_gmtoff := - pacific isdst (tv_sec tv)\<rparr>) else [])"
    and "txt = date @ [46] @ pad_dec 3 (nat (tv_usec tv div 1000)) @ zone" and "int (length txt) < bufsize"
  shows "\<exists>m'. snprintf_date isdst now junk cap buf bufsize (Some tv) full = Some (int (length txt), m') \<and>
    bytes_at m' 0 (length txt) = txt \<and> m' (length txt) = 0"
proof -
  define ms where "ms = [46] @ pad_dec 3 (nat (tv_usec tv div 1000))"
  have eqs: "txt = date @ ms @ zone" by (simp add: assms(10) ms_def)
  then have len: "length txt = length date + length ms + length zone" by simp
  have b: "unat (to_u64 (bufsize - int k)) = nat bufsize - k" if "k \<le> length txt" for k
    using that assms(4,11) by (simp add: unat_to_u64 nat_diff_distrib)
  obtain m1 where m1: "strftime junk cap buf 0 (nat bufsize) date = Some (length date, m1)"
    "poke cap buf 0 (date @ [0]) = Some m1"
    using assms(7,11) len by (elim strftime_fits [of date "nat bufsize" 0 cap, rotated 2]) auto
  have room: "0 < nat bufsize - length date" "length date + (nat bufsize - length date) \<le> cap"
    using assms(7,11) len by linarith+
  obtain m2 where m2: "nice_snprintf cap m1 (length date) (nat bufsize - length date) ms =
      Some (min (nat bufsize - length date) (length ms), m2)"
    "poke cap m1 (length date) (take (nat bufsize - length date - 1) ms @ [0]) = Some m2"
    using nice_snprintf_eq [of "nat bufsize - length date" "length date" cap m1 ms] room by auto
  have fit: "min (nat bufsize - length date) (length ms) = length ms" "take (nat bufsize - length date - 1) ms = ms"
    using assms(11) len by auto
  have t2: "bytes_at m2 0 (length (date @ ms)) = date @ ms" "m2 (length (date @ ms)) = 0"
    using poke_text [OF m2(2) [unfolded fit]] poke_text [OF m1(2)] by simp_all
  have pos: "date \<noteq> []" using assms(8) by simp
  note eq = snprintf_date_eq [OF assms(1-3) _ assms(4-6), of now junk cap buf full, folded ms_def]
  show ?thesis
  proof (cases full)
    case False
    then show ?thesis
      using eq t2 assms(11) pos b [of "length date"] len assms(8,9) eqs m1(1) m2(1) fit(1) by (simp add: Let_def)
  next
    case True
    obtain m3 where m3: "strftime junk cap m2 (length date + length ms) (nat bufsize - (length date + length ms)) zone =
        Some (length zone, m3)" "poke cap m2 (length date + length ms) (zone @ [0]) = Some m3"
      using assms(7,11) len by (elim strftime_fits [of zone _ _ cap, rotated 2]) auto
    have "zone \<noteq> []" using True assms(9) by (simp add: fmt_z_def Let_def)
    moreover have "bytes_at m3 0 (length txt) = txt" "m3 (length txt) = 0"
      using poke_text [OF m3(2)] t2 by (simp_all add: eqs add.assoc)
    ultimately show ?thesis
      using eq True assms(11) pos b [of "length date"] b [of "length date + length ms"] len assms(8,9) eqs m1(1) m2(1) m3(1) fit(1)
      by (simp add: Let_def)
  qed
qed

text \<open>A buffer of its stated size: when the result is not defined.\<close>

lemma length_ms:
  assumes "0 \<le> usec" and "usec < 1000000"
  shows "length ([46] @ pad_dec 3 (nat (usec div 1000))) = 4"
proof -
  have "usec div 1000 < 1000" "0 \<le> usec div 1000"
    using assms by (simp_all add: pos_imp_zdiv_nonneg_iff div_less_iff_less_mult)
  then have "length (pad_dec 3 (nat (usec div 1000))) = 3" by simp
  then show ?thesis by simp
qed

lemma unat_room: "bufsize < 2 ^ 31 \<Longrightarrow> int k \<le> bufsize \<Longrightarrow> unat (to_u64 (bufsize - int k)) = nat bufsize - k"
  by (simp add: unat_to_u64 nat_diff_distrib)

lemma snprintf_date_short_undefined:
  assumes "gmtime_r (tv_sec tv - pacific isdst (tv_sec tv)) = Some t" and "i64_ok (tv_sec tv - pacific isdst (tv_sec tv))"
    and "tm_gmtoff t = 0" and "0 \<le> bufsize" and "bufsize < 2 ^ 31" and "0 \<le> tv_usec tv" and "tv_usec tv < 1000000"
    and "length (fmt_d t) = 2" and "length (fmt_T t) = 8"
  shows "snprintf_date isdst now junk (nat bufsize) buf bufsize (Some tv) False = None \<longleftrightarrow> nat bufsize = 0"
proof -
  let ?N = "nat bufsize"
  obtain day where day: "fmt_d t @ [44] @ fmt_T t = day" "length day = 11" using assms(8,9) by simp
  obtain ms where ms: "[46] @ pad_dec 3 (nat (tv_usec tv div 1000)) = ms" "length ms = 4"
    using length_ms [OF assms(6,7)] by simp
  note eq = snprintf_date_eq [OF assms(1-7), of now junk ?N buf False]
  show ?thesis
  proof (cases "11 < ?N")
    case False
    then show ?thesis using eq day by (auto simp: Let_def strftime_def poke_def)
  next
    case True
    obtain m1 where m1: "strftime junk ?N buf 0 ?N day = Some (11, m1)"
      using True day(2) strftime_fits [of day ?N 0 ?N junk buf] by auto
    obtain m2 where "nice_snprintf ?N m1 11 (?N - 11) ms = Some (min (?N - 11) 4, m2)"
      using True ms(2) nice_snprintf_eq [of "?N - 11" 11 ?N m1 ms] by auto
    then show ?thesis using eq True day m1 ms unat_room [OF assms(5), of 11] by (simp add: Let_def)
  qed
qed

lemma snprintf_date_full_undefined:
  assumes "gmtime_r (tv_sec tv - pacific isdst (tv_sec tv)) = Some t" and "i64_ok (tv_sec tv - pacific isdst (tv_sec tv))"
    and "tm_gmtoff t = 0" and "0 \<le> bufsize" and "bufsize < 2 ^ 31" and "0 \<le> tv_usec tv" and "tv_usec tv < 1000000"
    and "length (fmt_F t) = 10" and "length (fmt_T t) = 8"
    and "length (fmt_z (t\<lparr>tm_gmtoff := - pacific isdst (tv_sec tv)\<rparr>)) = 5"
  shows "snprintf_date isdst now junk (nat bufsize) buf bufsize (Some tv) True = None \<longleftrightarrow> nat bufsize \<in> {0, 20, 21, 22, 23}"
proof -
  let ?N = "nat bufsize" and ?run = "snprintf_date isdst now junk (nat bufsize) buf bufsize (Some tv) True"
  obtain date where date: "fmt_F t @ [84] @ fmt_T t = date" "length date = 19" using assms(8,9) by simp
  obtain ms where ms: "[46] @ pad_dec 3 (nat (tv_usec tv div 1000)) = ms" "length ms = 4"
    using length_ms [OF assms(6,7)] by simp
  obtain z where z: "fmt_z (t\<lparr>tm_gmtoff := - pacific isdst (tv_sec tv)\<rparr>) = z" "length z = 5" using assms(10) by simp
  note eq = snprintf_date_eq [OF assms(1-7), of now junk ?N buf True]
  show ?thesis
  proof (cases "19 < ?N")
    case False
    then have "?run = None \<longleftrightarrow> ?N = 0" using eq date by (auto simp: Let_def strftime_def poke_def)
    then show ?thesis using False by auto
  next
    case big: True
    define n where "n = 19 + min (?N - 19) 4"
    obtain m1 where m1: "strftime junk ?N buf 0 ?N date = Some (19, m1)"
      using big date(2) strftime_fits [of date ?N 0 ?N junk buf] by auto
    obtain m2 where m2: "nice_snprintf ?N m1 19 (?N - 19) ms = Some (min (?N - 19) 4, m2)"
      using big ms(2) nice_snprintf_eq [of "?N - 19" 19 ?N m1 ms] by auto
    have le: "int n \<le> bufsize" using big unfolding n_def by linarith
    have run: "?run = do { (ret', buf) \<leftarrow> strftime junk ?N m2 n (?N - n) z;
        if ret' = 0 then do { buf \<leftarrow> poke ?N buf n [0]; Some (int n, buf) } else Some (int (n + ret'), buf) }"
      unfolding n_def
      using eq big date m1 ms m2 z unat_room [OF assms(5), of 19] unat_room [OF assms(5) le [unfolded n_def]]
      by (simp add: Let_def)
    show ?thesis
    proof (cases "23 < ?N")
      case True
      then have "n = 23" by (simp add: n_def)
      then show ?thesis unfolding run using True z(2) by (auto simp: strftime_def poke_def)
    next
      case False
      then have "n = ?N" using big by (simp add: n_def)
      then have "?run = None" unfolding run by (simp add: strftime_def poke_def)
      moreover have "?N \<in> {20, 21, 22, 23}" using big False by auto
      ultimately show ?thesis by blast
    qed
  qed
qed

end
