(* ===== verification/Date_Properties.thy ===== *)
theory Date_Properties
  imports Gep_Date
begin

text \<open>
  The properties of the time stamp in front of every log line: what it says, and the sizes of
  buffer for which printing it is undefined.
\<close>

text \<open>C37: With room for it, \<open>snprintf_date\<close> prints the date and the time of day, in Pacific time by
  the local zone's daylight saving flag, of the time it is given: for every valid date of a year
  with four digits and every time of day, the time that lies that many days, hours, minutes and
  seconds after 1970 plus the offset is printed with these numbers, its milliseconds and the
  offset (the short form has the day, the time and the milliseconds). The result is the number of
  characters.\<close>

theorem date_prints_the_time:
  assumes "valid_date y m d" and "1000 \<le> y" and "y \<le> 9999" and "h \<in> {0..23}" and "mi \<in> {0..59}" and "s \<in> {0..59}"
    and "secs = 86400 * day_number y m d + 3600 * h + 60 * mi + s + (if isdst secs > 0 then 7 * 3600 else 8 * 3600)"
    and "0 \<le> usec" and "usec < 1000000" and "28 < bufsize" and "bufsize \<le> int cap" and "bufsize < 2 ^ 31"
  shows "let time = pad_dec 2 (nat h) @ ascii '':'' @ pad_dec 2 (nat mi) @ ascii '':'' @ pad_dec 2 (nat s) @
           ascii ''.'' @ pad_dec 3 (nat (usec div 1000));
         day = pad_dec 2 (nat d);
         long = dec_digits (nat y) @ ascii ''-'' @ pad_dec 2 (nat m) @ ascii ''-'' @ day @ ascii ''T'' @ time @
           (if isdst secs > 0 then ascii ''-0700'' else ascii ''-0800'');
         short = day @ ascii '','' @ time
    in (\<exists>m'. snprintf_date isdst now junk cap buf bufsize (Some \<lparr>tv_sec = secs, tv_usec = usec\<rparr>) True = Some (28, m') \<and>
          bytes_at m' 0 28 = long \<and> m' 28 = 0) \<and>
       (\<exists>m'. snprintf_date isdst now junk cap buf bufsize (Some \<lparr>tv_sec = secs, tv_usec = usec\<rparr>) False = Some (15, m') \<and>
          bytes_at m' 0 15 = short \<and> m' 15 = 0)"
proof -
  let ?t = "\<lparr>tm_year = y - 1900, tm_mon = m - 1, tm_mday = d, tm_hour = h, tm_min = mi, tm_sec = s, tm_gmtoff = 0\<rparr>"
  let ?tv = "\<lparr>tv_sec = secs, tv_usec = usec\<rparr>"
  have off: "secs - pacific isdst secs = 86400 * day_number y m d + 3600 * h + 60 * mi + s"
    using assms(7) by (simp add: pacific_def split: if_splits)
  have g: "gmtime_r (tv_sec ?tv - pacific isdst (tv_sec ?tv)) = Some ?t" "i64_ok (tv_sec ?tv - pacific isdst (tv_sec ?tv))"
    "tm_gmtoff ?t = 0"
    using date_gmtime [OF assms(1-6) off] by simp_all
  note len = length_fields [OF assms(1-6) refl, of 0]
  have "usec div 1000 < 1000" "0 \<le> usec div 1000"
    using assms(8,9) by (simp_all add: pos_imp_zdiv_nonneg_iff div_less_iff_less_mult)
  then have us: "length (pad_dec 3 (nat (usec div 1000))) = 3" by simp
  have zone: "fmt_z (?t\<lparr>tm_gmtoff := - pacific isdst secs\<rparr>) = (if isdst secs > 0 then ascii ''-0700'' else ascii ''-0800'')"
    by (simp add: fmt_zone)
  have a: "ascii '':'' = [58]" "ascii ''.'' = [46]" "ascii ''-'' = [45]" "ascii ''T'' = [84]" "ascii '','' = [44]"
    "length (ascii ''-0700'') = 5" "length (ascii ''-0800'') = 5"
    by (simp_all add: ascii_def)
  have y: "fmt_int y = dec_digits (nat y)" using assms(2) by (simp add: fmt_int_def)
  define time where "time = pad_dec 2 (nat h) @ ascii '':'' @ pad_dec 2 (nat mi) @ ascii '':'' @ pad_dec 2 (nat s) @
    ascii ''.'' @ pad_dec 3 (nat (usec div 1000))"
  define long where "long = dec_digits (nat y) @ ascii ''-'' @ pad_dec 2 (nat m) @ ascii ''-'' @ pad_dec 2 (nat d) @
    ascii ''T'' @ time @ (if isdst secs > 0 then ascii ''-0700'' else ascii ''-0800'')"
  define short where "short = pad_dec 2 (nat d) @ ascii '','' @ time"
  have long: "long = (fmt_F ?t @ [84] @ fmt_T ?t) @ [46] @ pad_dec 3 (nat (usec div 1000)) @
      fmt_z (?t\<lparr>tm_gmtoff := - pacific isdst secs\<rparr>)"
    unfolding zone long_def time_def a by (simp add: fmt_F_def fmt_T_def y)
  have short: "short = (fmt_d ?t @ [44] @ fmt_T ?t) @ [46] @ pad_dec 3 (nat (usec div 1000)) @ []"
    unfolding short_def time_def a by (simp add: fmt_d_def fmt_T_def)
  have n: "length long = 28" "length short = 15"
    unfolding long short zone length_append len us by (simp_all add: a)
  have "\<exists>m'. snprintf_date isdst now junk cap buf bufsize (Some ?tv) True = Some (int (length long), m') \<and>
      bytes_at m' 0 (length long) = long \<and> m' (length long) = 0"
    by (rule snprintf_date_text [OF g assms(12) _ _ assms(11) refl refl]) (use assms(8-10) n long in simp_all)
  moreover have "\<exists>m'. snprintf_date isdst now junk cap buf bufsize (Some ?tv) False = Some (int (length short), m') \<and>
      bytes_at m' 0 (length short) = short \<and> m' (length short) = 0"
    by (rule snprintf_date_text [OF g assms(12) _ _ assms(11) refl refl]) (use assms(8-10) n short in simp_all)
  ultimately show ?thesis unfolding n Let_def by (simp only: time_def long_def short_def append_assoc) simp
qed

theorem date_prints_the_time_witness:
  "\<exists>m'. snprintf_date (\<lambda>_. 1) \<lparr>tv_sec = 0, tv_usec = 0\<rparr> (\<lambda>_. 0) 1024 (\<lambda>_. 0) 1024
       (Some \<lparr>tv_sec = 1425808800, tv_usec = 0\<rparr>) True = Some (28, m') \<and>
     bytes_at m' 0 28 = ascii ''2015-03-08T03:00:00.000-0700'' \<and> m' 28 = 0"
proof -
  have v: "valid_date 2015 3 8" by (simp add: valid_date_def month_days_def)
  have n: "1425808800 = 86400 * day_number 2015 3 8 + 3600 * 3 + 60 * 0 + 0 + (if (1 :: int) > 0 then 7 * 3600 else 8 * 3600)"
    by (simp add: day_number_def days_before_year_def days_before_month_table leap_def)
  have stamp: "dec_digits (nat 2015) @ ascii ''-'' @ pad_dec 2 (nat 3) @ ascii ''-'' @ pad_dec 2 (nat 8) @ ascii ''T'' @
      (pad_dec 2 (nat 3) @ ascii '':'' @ pad_dec 2 (nat 0) @ ascii '':'' @ pad_dec 2 (nat 0) @ ascii ''.'' @
       pad_dec 3 (nat (0 div 1000))) @ (if (1 :: int) > 0 then ascii ''-0700'' else ascii ''-0800'') =
      ascii ''2015-03-08T03:00:00.000-0700''"
    by (simp add: pad_dec_def dec_digits.simps ascii_def numeral_2_eq_2)
  have "\<exists>m'. snprintf_date (\<lambda>_. 1) \<lparr>tv_sec = 0, tv_usec = 0\<rparr> (\<lambda>_. 0) (nat 1024) (\<lambda>_. 0) 1024
       (Some \<lparr>tv_sec = 1425808800, tv_usec = 0\<rparr>) True = Some (28, m') \<and>
     bytes_at m' 0 28 = ascii ''2015-03-08T03:00:00.000-0700'' \<and> m' 28 = 0"
    unfolding stamp [symmetric]
    by (rule date_prints_the_time [OF v _ _ _ _ _ n, unfolded Let_def, THEN conjunct1]) simp_all
  then show ?thesis by simp
qed

text \<open>C38: Which sizes of buffer are safe: \<open>snprintf_date\<close> in its full form, for a time in a year
  with four digits, has no defined result exactly when the buffer is empty or has 20 to 23 bytes.
  There the milliseconds are cut, nothing is left for the offset, and the terminator is written
  one past the end. In its short form only the empty buffer is not safe.\<close>

theorem date_undefined_iff:
  assumes "valid_date y m d" and "1000 \<le> y" and "y \<le> 9999" and "h \<in> {0..23}" and "mi \<in> {0..59}" and "s \<in> {0..59}"
    and "secs = 86400 * day_number y m d + 3600 * h + 60 * mi + s + (if isdst secs > 0 then 7 * 3600 else 8 * 3600)"
    and "0 \<le> usec" and "usec < 1000000" and "0 \<le> bufsize" and "bufsize < 2 ^ 31"
  shows "(snprintf_date isdst now junk (nat bufsize) buf bufsize (Some \<lparr>tv_sec = secs, tv_usec = usec\<rparr>) True = None \<longleftrightarrow>
      bufsize \<in> {0, 20, 21, 22, 23}) \<and>
    (snprintf_date isdst now junk (nat bufsize) buf bufsize (Some \<lparr>tv_sec = secs, tv_usec = usec\<rparr>) False = None \<longleftrightarrow>
      bufsize = 0)"
proof -
  let ?t = "\<lparr>tm_year = y - 1900, tm_mon = m - 1, tm_mday = d, tm_hour = h, tm_min = mi, tm_sec = s, tm_gmtoff = 0\<rparr>"
  let ?tv = "\<lparr>tv_sec = secs, tv_usec = usec\<rparr>"
  have off: "secs - pacific isdst secs = 86400 * day_number y m d + 3600 * h + 60 * mi + s"
    using assms(7) by (simp add: pacific_def split: if_splits)
  have g: "gmtime_r (tv_sec ?tv - pacific isdst (tv_sec ?tv)) = Some ?t" "i64_ok (tv_sec ?tv - pacific isdst (tv_sec ?tv))"
    "tm_gmtoff ?t = 0"
    using date_gmtime [OF assms(1-6) off] by simp_all
  have us: "0 \<le> tv_usec ?tv" "tv_usec ?tv < 1000000" using assms(8,9) by simp_all
  have zone: "length (fmt_z (?t\<lparr>tm_gmtoff := - pacific isdst (tv_sec ?tv)\<rparr>)) = 5" by (simp add: fmt_zone ascii_def)
  note len = length_fields [OF assms(1-6) refl, of 0]
  show ?thesis
    using snprintf_date_full_undefined [OF g assms(10,11) us len(1,3) zone, of now junk buf]
      snprintf_date_short_undefined [OF g assms(10,11) us len(2,3), of now junk buf] assms(10)
    by auto
qed

theorem date_undefined_iff_witness:
  "snprintf_date (\<lambda>_. 1) \<lparr>tv_sec = 0, tv_usec = 0\<rparr> (\<lambda>_. 0) 20 (\<lambda>_. 0) 20
     (Some \<lparr>tv_sec = 1425808800, tv_usec = 0\<rparr>) True = None"
proof -
  have v: "valid_date 2015 3 8" by (simp add: valid_date_def month_days_def)
  have n: "1425808800 = 86400 * day_number 2015 3 8 + 3600 * 3 + 60 * 0 + 0 + (if (1 :: int) > 0 then 7 * 3600 else 8 * 3600)"
    by (simp add: day_number_def days_before_year_def days_before_month_table leap_def)
  have "snprintf_date (\<lambda>_. 1) \<lparr>tv_sec = 0, tv_usec = 0\<rparr> (\<lambda>_. 0) (nat 20) (\<lambda>_. 0) 20
     (Some \<lparr>tv_sec = 1425808800, tv_usec = 0\<rparr>) True = None \<longleftrightarrow> (20 :: int) \<in> {0, 20, 21, 22, 23}"
    by (rule date_undefined_iff [OF v _ _ _ _ _ n, THEN conjunct1]) simp_all
  then show ?thesis by simp
qed

end
