(* ===== verification/Gep_Example.thy ===== *)
theory Gep_Example
  imports Gep_Stdlib Gep_Sgp
begin

text \<open>
  The example programs \<open>example/client.cc\<close> and \<open>example/server.cc\<close>: the parsing of the command
  line, which both files define alike, the port number that the server writes to the fifo and
  the client reads, and the \<open>main\<close> functions as step relations in which the main thread's calls
  interleave with the steps of the service thread.

  What \<open>printf\<close> writes for the user is left out. Opening and reading the fifo are a
  parameter: what \<open>read\<close> returned and stored. The example messages are default objects.
\<close>

section \<open>The command line\<close>

record arg_values =
  av_fifo :: "u8 list option"
  av_cnt1 :: int
  av_cnt2 :: int
  av_cnt3 :: int
  av_cnt4 :: int
  av_rem :: "u8 list list"

definition DEFAULT_CNT1 :: int where "DEFAULT_CNT1 = 1"
definition DEFAULT_CNT2 :: int where "DEFAULT_CNT2 = 2"
definition DEFAULT_CNT3 :: int where "DEFAULT_CNT3 = 3"
definition DEFAULT_CNT4 :: int where "DEFAULT_CNT4 = 4"

definition CNT1OPTION :: int where "CNT1OPTION = 127 + 1"
definition CNT2OPTION :: int where "CNT2OPTION = CNT1OPTION + 1"
definition CNT3OPTION :: int where "CNT3OPTION = CNT2OPTION + 1"
definition CNT4OPTION :: int where "CNT4OPTION = CNT3OPTION + 1"

definition longopts :: "longopt list" where
  "longopts =
     [(ascii ''help'', False, 104),
      (ascii ''fifo'', True, 102),
      (ascii ''cnt1'', True, CNT1OPTION),
      (ascii ''cnt2'', True, CNT2OPTION),
      (ascii ''cnt3'', True, CNT3OPTION),
      (ascii ''cnt4'', True, CNT4OPTION)]"

text \<open>The program goes on with the values, or exits with a status.\<close>

datatype parse_result = Parsed arg_values | Exit int

text \<open>A count must be a number to its end; \<open>long\<close> is narrowed to \<open>int\<close>.\<close>

definition parse_count :: "u8 list option \<Rightarrow> int option" where
  "parse_count optarg = do {
     s \<leftarrow> optarg;
     let (n, endptr) = strtol s;
     if endptr \<noteq> [] then None else Some (narrow32 n)
   }"

function parse_loop :: "u8 list list \<Rightarrow> u8 list list \<Rightarrow> arg_values \<Rightarrow> parse_result" where
  "parse_loop args nonopts v =
     (case getopt_long longopts args nonopts of
        Opt_end rem \<Rightarrow> Parsed (v\<lparr>av_rem := rem\<rparr>)
      | Opt c optarg args' nonopts' \<Rightarrow>
          if c = 102 then parse_loop args' nonopts' (v\<lparr>av_fifo := optarg\<rparr>)
          else if c = CNT1OPTION then
            (case parse_count optarg of
               None \<Rightarrow> Exit (-1) | Some n \<Rightarrow> parse_loop args' nonopts' (v\<lparr>av_cnt1 := n\<rparr>))
          else if c = CNT2OPTION then
            (case parse_count optarg of
               None \<Rightarrow> Exit (-1) | Some n \<Rightarrow> parse_loop args' nonopts' (v\<lparr>av_cnt2 := n\<rparr>))
          else if c = CNT3OPTION then
            (case parse_count optarg of
               None \<Rightarrow> Exit (-1) | Some n \<Rightarrow> parse_loop args' nonopts' (v\<lparr>av_cnt3 := n\<rparr>))
          else if c = CNT4OPTION then
            (case parse_count optarg of
               None \<Rightarrow> Exit (-1) | Some n \<Rightarrow> parse_loop args' nonopts' (v\<lparr>av_cnt4 := n\<rparr>))
          else if c = opt_error \<or> c = 104 then Exit 0
          else parse_loop args' nonopts' v)"
  by pat_completeness auto
termination
  by (relation "measure (\<lambda>(args, nonopts, v). length args)") (auto dest: getopt_long_shorter)

declare parse_loop.simps [simp del]

definition default_values :: arg_values where
  "default_values = \<lparr>av_fifo = None, av_cnt1 = DEFAULT_CNT1, av_cnt2 = DEFAULT_CNT2,
     av_cnt3 = DEFAULT_CNT3, av_cnt4 = DEFAULT_CNT4, av_rem = []\<rparr>"

text \<open>The arguments without the program's name.\<close>

definition parse_args :: "u8 list list \<Rightarrow> parse_result" where
  "parse_args args = parse_loop args [] default_values"

text \<open>
  What \<open>usage\<close> prints to stderr. The short option \<open>-h\<close> that it lists is none: there are no short
  options, so \<open>-h\<close> is an error, which also prints the usage and exits with 0.
\<close>

definition usage :: "u8 list \<Rightarrow> u8 list" where
  "usage name =
     ascii ''usage: '' @ name @ ascii '' [options]'' @ [10] @
     ascii ''where options are:'' @ [10] @
     [9] @ ascii ''--fifo <fifo>:'' @ [9] @ ascii ''Use <fifo> for client-server communications'' @ [10] @
     [9] @ ascii ''--cnt1 <cnt>:'' @ [9] @ ascii ''Send <cnt> Command1 messages ['' @ fmt_int DEFAULT_CNT1 @ [93, 10] @
     [9] @ ascii ''--cnt2 <cnt>:'' @ [9] @ ascii ''Send <cnt> Command2 messages ['' @ fmt_int DEFAULT_CNT2 @ [93, 10] @
     [9] @ ascii ''--cnt3 <cnt>:'' @ [9] @ ascii ''Send <cnt> Command3 messages ['' @ fmt_int DEFAULT_CNT3 @ [93, 10] @
     [9] @ ascii ''--cnt4 <cnt>:'' @ [9] @ ascii ''Send <cnt> Command4 messages ['' @ fmt_int DEFAULT_CNT4 @ [93, 10] @
     [9] @ ascii ''-h:'' @ [9, 9] @ ascii ''Help'' @ [10]"

section \<open>The copy in server.cc\<close>

text \<open>
  \<open>server.cc\<close> repeats these definitions word for word, and the loops that send the messages.
\<close>

definition server_arg_defaults :: arg_values where
  "server_arg_defaults = default_values"

definition server_usage :: "u8 list \<Rightarrow> u8 list" where
  "server_usage = usage"

definition server_parse_args :: "u8 list list \<Rightarrow> parse_result" where
  "server_parse_args args = parse_loop args [] server_arg_defaults"

section \<open>The port number\<close>

definition MAX_BUF :: nat where "MAX_BUF = 1024"

text \<open>\<open>sprintf\<close> into the server's buffer, of which the text is written to the fifo.\<close>

definition server_port_text :: "mem \<Rightarrow> int \<Rightarrow> u8 list option" where
  "server_port_text wbuf port = do {
     wbuf \<leftarrow> poke MAX_BUF wbuf 0 (fmt_int port @ [0]);
     cstring MAX_BUF wbuf
   }"

text \<open>
  What the client makes of its read, which returned \<open>len\<close> and stored \<open>data\<close>: undefined, no
  port, or a port.
\<close>

definition client_port :: "mem \<Rightarrow> int \<Rightarrow> u8 list \<Rightarrow> int option option" where
  "client_port rbuf len data = do {
     rbuf \<leftarrow> poke MAX_BUF rbuf 0 data;
     rbuf \<leftarrow> (if len < 0 then None else poke MAX_BUF rbuf (nat len) [0]);
     s \<leftarrow> cstring MAX_BUF rbuf;
     let (port, endptr) = strtol s;
     Some (if endptr \<noteq> [] then None else Some (narrow32 port))
   }"

section \<open>The example client and server\<close>

text \<open>\<open>MyClient\<close> and \<open>MyServer\<close>: the library object and the counters of the callbacks.\<close>

definition MyClient_new :: "('w, sgp_msg) gep_env \<Rightarrow> int \<Rightarrow> client \<times> my_counts" where
  "MyClient_new E port = (SGPClient_new E port, my_counts_new)"

definition GetCnt1 :: "client \<times> my_counts \<Rightarrow> int" where "GetCnt1 c = cnt1 (snd c)"
definition GetCnt2 :: "client \<times> my_counts \<Rightarrow> int" where "GetCnt2 c = cnt2 (snd c)"
definition GetCnt3 :: "client \<times> my_counts \<Rightarrow> int" where "GetCnt3 c = cnt3 (snd c)"
definition GetCnt4 :: "client \<times> my_counts \<Rightarrow> int" where "GetCnt4 c = cnt4 (snd c)"

definition MyServer_new :: "('w, sgp_msg) gep_env \<Rightarrow> int \<Rightarrow> server \<times> my_counts" where
  "MyServer_new E port = (SGPServer_new E 16 port, my_counts_new)"

text \<open>
  The main functions up to the start: an exit status, or the values of the command line and the
  object made. A \<open>fifo\<close> that was not given is a null pointer, which \<open>open\<close> refuses, so that
  \<open>read\<close> returns -1.
\<close>

definition client_init ::
  "('w, sgp_msg) gep_env \<Rightarrow> u8 list list \<Rightarrow> mem \<Rightarrow> int \<Rightarrow> u8 list \<Rightarrow>
     (int + arg_values \<times> client \<times> my_counts) option"
where
  "client_init E args rbuf len data =
     (case parse_args args of
        Exit status \<Rightarrow> Some (Inl status)
      | Parsed v \<Rightarrow> do {
          port \<leftarrow> client_port rbuf (if av_fifo v = None then -1 else len) data;
          Some (case port of None \<Rightarrow> Inl (-1) | Some port \<Rightarrow> Inr (v, MyClient_new E port))
        })"

definition server_init ::
  "('w, sgp_msg) gep_env \<Rightarrow> u8 list list \<Rightarrow> int + arg_values \<times> server \<times> my_counts"
where
  "server_init E args =
     (case server_parse_args args of
        Exit status \<Rightarrow> Inl status
      | Parsed v \<Rightarrow> Inr (v, MyServer_new E 0))"

section \<open>The main functions\<close>

definition main_messages :: "arg_values \<Rightarrow> sgp_msg list" where
  "main_messages v =
     replicate (nat (av_cnt1 v)) (Command1 None None) @ replicate (nat (av_cnt2 v)) (Command2 None) @
     replicate (nat (av_cnt3 v)) (Command3 None) @ replicate (nat (av_cnt4 v)) (Command4 None None)"

text \<open>
  Where the main thread is: starting after so many failed tries, waiting for a client's message
  (the server only), sending, sleeping, stopping, or returned with a status.
\<close>

datatype main_pc =
    M_Start int
  | M_Wait
  | M_Send "sgp_msg list"
  | M_Sleep
  | M_Stop
  | M_Return int

definition sleep_secs :: "'w os \<Rightarrow> int \<Rightarrow> ('w, 'm) world \<Rightarrow> ('w, 'm) world" where
  "sleep_secs os secs w = snd (syscall (sys_nanosleep os secs 0) (\<lambda>_. Ev_sleep secs 0) w)"

text \<open>One call of the client's main thread.\<close>

definition client_main ::
  "('w, sgp_msg) gep_env \<Rightarrow> arg_values \<Rightarrow> main_pc \<Rightarrow> client \<Rightarrow> ('w, sgp_msg) world \<Rightarrow>
     (main_pc \<times> client \<times> ('w, sgp_msg) world) option"
where
  "client_main E v pc c w =
     (case pc of
        M_Start tries \<Rightarrow> do {
          (r, c, w) \<leftarrow> Client_Start E c w;
          if r < 0 then
            (if tries + 1 > 3 then Some (M_Return (-1), c, w)
             else Some (M_Start (tries + 1), c, sleep_secs (e_os E) 1 w))
          else Some (M_Send (main_messages v), c, w)
        }
      | M_Wait \<Rightarrow> Some (M_Send (main_messages v), c, w)
      | M_Send [] \<Rightarrow> Some (M_Sleep, c, w)
      | M_Send (msg # msgs) \<Rightarrow> do {
          (r, w) \<leftarrow> Client_Send E msg c w;
          Some (M_Send msgs, c, w)
        }
      | M_Sleep \<Rightarrow> do {
          c \<leftarrow> Client_Stop_request c;
          Some (M_Stop, c, sleep_secs (e_os E) 3 w)
        }
      | M_Stop \<Rightarrow>
          (let (c, w) = Client_Stop_join E c w in Some (M_Return 0, c, w))
      | M_Return r \<Rightarrow> Some (M_Return r, c, w))"

text \<open>Joining waits for the service thread.\<close>

inductive client_program ::
  "('w, sgp_msg) gep_env \<Rightarrow> arg_values \<Rightarrow> main_pc \<times> client \<times> ('w, sgp_msg) world \<Rightarrow>
     main_pc \<times> client \<times> ('w, sgp_msg) world \<Rightarrow> bool"
  for E v where
  thread: "cl_pc c \<noteq> C_None \<Longrightarrow> Client_RunThread E c w = Some (c', w') \<Longrightarrow>
    client_program E v (pc, c, w) (pc, c', w')"
| main: "(pc = M_Stop \<longrightarrow> cl_pc c = C_Exit) \<Longrightarrow> client_main E v pc c w = Some (pc', c', w') \<Longrightarrow>
    client_program E v (pc, c, w) (pc', c', w')"

text \<open>
  The counters of the example server, as its callbacks have left them, and the flag main waits
  for.
\<close>

definition MyServer_state :: "('w, sgp_msg) world \<Rightarrow> my_counts option" where
  "MyServer_state w = MyServer_Recv_all (map (\<lambda>(cid, tag, msg). (cid, msg)) (dispatched (w_trace w))) my_counts_new"

definition server_main ::
  "('w, sgp_msg) server_env \<Rightarrow> arg_values \<Rightarrow> main_pc \<Rightarrow> server \<Rightarrow> ('w, sgp_msg) world \<Rightarrow>
     (main_pc \<times> server \<times> ('w, sgp_msg) world) option"
where
  "server_main S v pc s w =
     (case pc of
        M_Start tries \<Rightarrow> do {
          (r, s, w) \<leftarrow> Server_Start S s w;
          if r < 0 then Some (M_Return (-1), s, w)
          else do {
            txt \<leftarrow> server_port_text (e_uninit (se_chan S)) (Server_GetPort s);
            Some (M_Wait, s, w)
          }
        }
      | M_Wait \<Rightarrow> do {
          cnts \<leftarrow> MyServer_state w;
          Some (if \<not> seen_client cnts then M_Wait else M_Send (main_messages v), s, w)
        }
      | M_Send [] \<Rightarrow> Some (M_Sleep, s, w)
      | M_Send (msg # msgs) \<Rightarrow> do {
          (r, w) \<leftarrow> Server_Send S msg s w;
          Some (M_Send msgs, s, w)
        }
      | M_Sleep \<Rightarrow> do {
          s \<leftarrow> Server_Stop_request s;
          Some (M_Stop, s, sleep_secs (e_os (se_chan S)) 3 w)
        }
      | M_Stop \<Rightarrow>
          (let (s, w) = Server_Stop_join S s w in Some (M_Return 0, s, w))
      | M_Return r \<Rightarrow> Some (M_Return r, s, w))"

inductive server_program ::
  "('w, sgp_msg) server_env \<Rightarrow> arg_values \<Rightarrow> main_pc \<times> server \<times> ('w, sgp_msg) world \<Rightarrow>
     main_pc \<times> server \<times> ('w, sgp_msg) world \<Rightarrow> bool"
  for S v where
  thread: "sv_pc s \<noteq> S_None \<Longrightarrow> Server_RunThread S s w = Some (s', w') \<Longrightarrow>
    server_program S v (pc, s, w) (pc, s', w')"
| main: "(pc = M_Stop \<longrightarrow> sv_pc s = S_Exit) \<Longrightarrow> server_main S v pc s w = Some (pc', s', w') \<Longrightarrow>
    server_program S v (pc, s, w) (pc', s', w')"

end
