(* ===== verification/Example_Properties.thy ===== *)
theory Example_Properties
  imports Gep_Example Gep_Server_Runs
begin

text \<open>
  The properties of the example programs: their command line, the way the port number gets from
  the server to the client, and what the programs leave behind and print at the end.
\<close>

section \<open>The command line\<close>

text \<open>
  What a command line is made of: settings, each given as one argument \<open>--name=value\<close> (joined) or as
  two, and arguments that are no options. A count is written in decimal.
\<close>

datatype arg_item =
    Set_fifo "u8 list" | Set_cnt1 int | Set_cnt2 int | Set_cnt3 int | Set_cnt4 int | Plain_arg "u8 list"

definition option_args :: "string \<Rightarrow> bool \<Rightarrow> u8 list \<Rightarrow> u8 list list" where
  "option_args nm joined val =
     (if joined then [ascii ''--'' @ ascii nm @ [61] @ val] else [ascii ''--'' @ ascii nm, val])"

fun render_item :: "arg_item \<times> bool \<Rightarrow> u8 list list" where
  "render_item (Set_fifo f, joined) = option_args ''fifo'' joined f"
| "render_item (Set_cnt1 n, joined) = option_args ''cnt1'' joined (fmt_int n)"
| "render_item (Set_cnt2 n, joined) = option_args ''cnt2'' joined (fmt_int n)"
| "render_item (Set_cnt3 n, joined) = option_args ''cnt3'' joined (fmt_int n)"
| "render_item (Set_cnt4 n, joined) = option_args ''cnt4'' joined (fmt_int n)"
| "render_item (Plain_arg a, joined) = [a]"

text \<open>What an item means: a setting replaces an earlier one, a plain argument is kept in order.\<close>

fun apply_item :: "arg_item \<times> bool \<Rightarrow> arg_values \<Rightarrow> arg_values" where
  "apply_item (Set_fifo f, joined) v = v\<lparr>av_fifo := Some f\<rparr>"
| "apply_item (Set_cnt1 n, joined) v = v\<lparr>av_cnt1 := n\<rparr>"
| "apply_item (Set_cnt2 n, joined) v = v\<lparr>av_cnt2 := n\<rparr>"
| "apply_item (Set_cnt3 n, joined) v = v\<lparr>av_cnt3 := n\<rparr>"
| "apply_item (Set_cnt4 n, joined) v = v\<lparr>av_cnt4 := n\<rparr>"
| "apply_item (Plain_arg a, joined) v = v\<lparr>av_rem := av_rem v @ [a]\<rparr>"

text \<open>A count fits an \<open>int\<close>; a plain argument does not start with a dash, or is a single one.\<close>

fun item_ok :: "arg_item \<times> bool \<Rightarrow> bool" where
  "item_ok (Set_fifo f, joined) = True"
| "item_ok (Set_cnt1 n, joined) = i32_ok n"
| "item_ok (Set_cnt2 n, joined) = i32_ok n"
| "item_ok (Set_cnt3 n, joined) = i32_ok n"
| "item_ok (Set_cnt4 n, joined) = i32_ok n"
| "item_ok (Plain_arg a, joined) = (take 1 a \<noteq> [45] \<or> a = [45])"

lemma parse_count_fmt: "i32_ok n \<Longrightarrow> parse_count (Some (fmt_int n)) = Some n"
  using strtol_fmt_int [of n] by (simp add: parse_count_def i32_ok_def i64_ok_def narrow32_id)

lemma ascii_options:
  "ascii ''--'' = [45, 45]" "ascii ''fifo'' = [102, 105, 102, 111]" "ascii ''cnt1'' = [99, 110, 116, 49]"
  "ascii ''cnt2'' = [99, 110, 116, 50]" "ascii ''cnt3'' = [99, 110, 116, 51]" "ascii ''cnt4'' = [99, 110, 116, 52]"
  by (simp_all add: ascii_def)

lemma longopts_val:
  "longopts = [([104, 101, 108, 112], False, 104), ([102, 105, 102, 111], True, 102), ([99, 110, 116, 49], True, 128),
     ([99, 110, 116, 50], True, 129), ([99, 110, 116, 51], True, 130), ([99, 110, 116, 52], True, 131)]"
  by (simp add: longopts_def ascii_def CNT1OPTION_def CNT2OPTION_def CNT3OPTION_def CNT4OPTION_def)

lemma getopt_options:
  "getopt_long longopts (option_args ''fifo'' joined x @ args) no = Opt 102 (Some x) args no"
  "getopt_long longopts (option_args ''cnt1'' joined x @ args) no = Opt 128 (Some x) args no"
  "getopt_long longopts (option_args ''cnt2'' joined x @ args) no = Opt 129 (Some x) args no"
  "getopt_long longopts (option_args ''cnt3'' joined x @ args) no = Opt 130 (Some x) args no"
  "getopt_long longopts (option_args ''cnt4'' joined x @ args) no = Opt 131 (Some x) args no"
  by (cases joined; simp add: option_args_def ascii_options longopts_val find_opt_def)+

lemma getopt_plain:
  assumes "take 1 a \<noteq> [45] \<or> a = [45]"
  shows "getopt_long opts (a # args) no = getopt_long opts args (no @ [a])"
proof -
  have "take 2 a \<noteq> [45, 45]" "a \<noteq> [45, 45]" using assms by (cases a; auto simp: numeral_2_eq_2)+
  then show ?thesis using assms by auto
qed

lemma parse_loop_plain:
  "take 1 a \<noteq> [45] \<or> a = [45] \<Longrightarrow> parse_loop (a # args) no v = parse_loop args (no @ [a]) v"
  by (simp only: parse_loop.simps [of "a # args"] parse_loop.simps [of args] getopt_plain)

lemma rem_last:
  "v\<lparr>av_rem := x, av_fifo := f\<rparr> = v\<lparr>av_fifo := f, av_rem := x\<rparr>"
  "v\<lparr>av_rem := x, av_cnt1 := n\<rparr> = v\<lparr>av_cnt1 := n, av_rem := x\<rparr>"
  "v\<lparr>av_rem := x, av_cnt2 := n\<rparr> = v\<lparr>av_cnt2 := n, av_rem := x\<rparr>"
  "v\<lparr>av_rem := x, av_cnt3 := n\<rparr> = v\<lparr>av_cnt3 := n, av_rem := x\<rparr>"
  "v\<lparr>av_rem := x, av_cnt4 := n\<rparr> = v\<lparr>av_cnt4 := n, av_rem := x\<rparr>"
  by simp_all

lemma parse_loop_item:
  assumes "item_ok i"
  shows "parse_loop (render_item i @ args) no (v\<lparr>av_rem := x\<rparr>) =
    (let v' = apply_item i (v\<lparr>av_rem := no\<rparr>) in parse_loop args (av_rem v') (v'\<lparr>av_rem := x\<rparr>))"
proof (cases i)
  case (Pair it joined)
  note codes = CNT1OPTION_def CNT2OPTION_def CNT3OPTION_def CNT4OPTION_def
  show ?thesis
  proof (cases it)
    case (Plain_arg a)
    then show ?thesis
      using assms Pair parse_loop_plain [of a] by (simp add: Let_def)
  qed (use assms Pair in \<open>(subst parse_loop.simps, simp add: getopt_options parse_count_fmt codes
      rem_last del: getopt_long.simps)\<close>)+
qed

lemma parse_loop_items:
  assumes "list_all item_ok items"
  shows "parse_loop (concat (map render_item items) @ args) no (v\<lparr>av_rem := x\<rparr>) =
    (let v' = fold apply_item items (v\<lparr>av_rem := no\<rparr>) in parse_loop args (av_rem v') (v'\<lparr>av_rem := x\<rparr>))"
  using assms
proof (induction items arbitrary: v no)
  case (Cons i items)
  let ?v = "apply_item i (v\<lparr>av_rem := no\<rparr>)"
  have "parse_loop (concat (map render_item (i # items)) @ args) no (v\<lparr>av_rem := x\<rparr>) =
      parse_loop (concat (map render_item items) @ args) (av_rem ?v) (?v\<lparr>av_rem := x\<rparr>)"
    using parse_loop_item [of i "concat (map render_item items) @ args" no x v] Cons.prems by (simp add: Let_def)
  also have "\<dots> = (let v' = fold apply_item items (?v\<lparr>av_rem := av_rem ?v\<rparr>) in
      parse_loop args (av_rem v') (v'\<lparr>av_rem := x\<rparr>))"
    using Cons.prems by (intro Cons.IH) simp
  finally show ?case by simp
qed simp

lemma parse_args_items:
  assumes "list_all item_ok items"
  shows "parse_args (concat (map render_item items) @ args) =
    (let v = fold apply_item items default_values in parse_loop args (av_rem v) (v\<lparr>av_rem := []\<rparr>))"
proof -
  have "default_values\<lparr>av_rem := []\<rparr> = default_values" by (simp add: default_values_def)
  then show ?thesis
    using parse_loop_items [OF assms, of args "[]" "[]" default_values] by (simp add: parse_args_def)
qed

lemma parse_loop_end:
  "parse_loop [] no v = Parsed (v\<lparr>av_rem := no\<rparr>)"
  "parse_loop (ascii ''--'' # rest) no v = Parsed (v\<lparr>av_rem := no @ rest\<rparr>)"
  by (simp_all add: parse_loop.simps ascii_options)

text \<open>C36: The command line round-trips, in the client and in the server. Any sequence of settings,
  in any order and number, each as one argument (\<open>--cnt1=5\<close>) or as two (\<open>--cnt1 5\<close>), mixed with
  arguments that are no options, parses to the values those settings give, starting from the
  defaults, the last setting of each winning, with the plain arguments in their order. After \<open>--\<close>
  everything is a plain argument. Assumed: the names are written out, the counts are in decimal and
  fit an \<open>int\<close> (they may be negative), and a plain argument does not start with a dash.\<close>

theorem parse_args_round_trip:
  assumes "list_all item_ok items"
  shows "let line = concat (map render_item items); v = fold apply_item items default_values in
    parse_args line = Parsed v \<and> server_parse_args line = Parsed v \<and>
    parse_args (line @ ascii ''--'' # rest) = Parsed (v\<lparr>av_rem := av_rem v @ rest\<rparr>) \<and>
    server_parse_args (line @ ascii ''--'' # rest) = Parsed (v\<lparr>av_rem := av_rem v @ rest\<rparr>)"
proof -
  have "server_parse_args args = parse_args args" for args
    by (simp add: server_parse_args_def parse_args_def server_arg_defaults_def)
  then show ?thesis
    using parse_args_items [OF assms, of "[]"] parse_args_items [OF assms, of "ascii ''--'' # rest"]
    by (simp add: Let_def parse_loop_end)
qed

theorem parse_args_round_trip_witness:
  "parse_args [ascii ''x'', ascii ''--cnt1'' @ [61] @ fmt_int 10, ascii ''--cnt3'', fmt_int (-3), ascii ''--fifo'', ascii ''/tmp/f'',
      ascii ''--cnt1'', fmt_int 4] =
    Parsed \<lparr>av_fifo = Some (ascii ''/tmp/f''), av_cnt1 = 4, av_cnt2 = 2, av_cnt3 = -3, av_cnt4 = 4, av_rem = [ascii ''x'']\<rparr>"
  using parse_args_round_trip [of "[(Plain_arg (ascii ''x''), False), (Set_cnt1 10, True), (Set_cnt3 (-3), False),
      (Set_fifo (ascii ''/tmp/f''), False), (Set_cnt1 4, False)]"]
  by (simp add: Let_def option_args_def ascii_def i32_ok_def default_values_def DEFAULT_CNT2_def DEFAULT_CNT4_def)

section \<open>The port number\<close>

lemma port_text_read:
  assumes "i32_ok port"
  shows "\<exists>t. server_port_text wbuf port = Some t \<and> client_port rbuf (int (length t)) t = Some (Some port)"
proof -
  let ?t = "fmt_int port"
  have len: "length ?t + 1 \<le> MAX_BUF"
  proof -
    have "nat \<bar>port\<bar> < 10 ^ 10" using assms by (auto simp: i32_ok_def)
    then have "length (dec_digits (nat \<bar>port\<bar>)) \<le> 10" by (rule length_dec_digits) simp
    then have "length ?t \<le> 11" by (cases "port < 0") (auto simp: fmt_int_def)
    then show ?thesis by (simp add: MAX_BUF_def)
  qed
  have nz: "0 \<notin> set ?t" using dec_digits_nonzero by blast
  obtain m where "poke MAX_BUF wbuf 0 (?t @ [0]) = Some m" using len poke_Some_iff [of MAX_BUF wbuf 0 "?t @ [0]"] by auto
  then have "server_port_text wbuf port = Some ?t" using cstring_poke [OF _ nz] by (simp add: server_port_text_def)
  moreover have "client_port rbuf (int (length ?t)) ?t = Some (Some port)"
  proof -
    obtain m1 where m1: "poke MAX_BUF rbuf 0 ?t = Some m1" using len poke_Some_iff [of MAX_BUF rbuf 0 ?t] by auto
    obtain m2 where m2: "poke MAX_BUF m1 (length ?t) [0] = Some m2"
      using len poke_Some_iff [of MAX_BUF m1 "length ?t" "[0]"] by auto
    obtain m3 where m3: "poke MAX_BUF rbuf 0 (?t @ [0]) = Some m3"
      using len poke_Some_iff [of MAX_BUF rbuf 0 "?t @ [0]"] by auto
    have "m2 = m3"
    proof
      fix i show "m2 i = m3 i"
        using m1 m2 m3 by (auto simp: poke_def nth_append split: if_splits)
    qed
    then have "cstring MAX_BUF m2 = Some ?t" using cstring_poke [OF m3 nz] by simp
    moreover have "strtol ?t = (port, [])" using assms by (intro strtol_fmt_int) (simp add: i32_ok_def i64_ok_def)
    ultimately show ?thesis using m1 m2 assms by (simp add: client_port_def narrow32_id)
  qed
  ultimately show ?thesis by blast
qed

text \<open>C35: The port number the server prints into its buffer and writes to the fifo is the one the
  client uses: when one read of the fifo that both were given returns that text, whatever the
  client's buffer held before, the client is made with exactly the server's port.\<close>

theorem port_handoff:
  assumes "i32_ok port" and "parse_args args = Parsed v" and "av_fifo v = Some fifo"
  shows "\<exists>t c. server_port_text wbuf port = Some t \<and>
    client_init E args rbuf (int (length t)) t = Some (Inr (v, c)) \<and> pr_port (cl_proto (fst c)) = port"
  using port_text_read [OF assms(1), of wbuf rbuf] assms(2,3)
  by (auto simp: client_init_def MyClient_new_def SGPClient_new_def GepClient_new_def SGPProtocol_new_def GepProtocol_new_def)

lemma fifo_args: "parse_args [ascii ''--fifo'', ascii ''/tmp/f''] = Parsed (default_values\<lparr>av_fifo := Some (ascii ''/tmp/f'')\<rparr>)"
  using parse_args_items [of "[(Set_fifo (ascii ''/tmp/f''), False)]" "[]"]
  by (simp add: parse_loop_end option_args_def ascii_def default_values_def)

theorem port_handoff_witness:
  "\<forall>E :: (script, sgp_msg) gep_env. \<exists>t c. server_port_text (\<lambda>_. 7) 34567 = Some t \<and>
     client_init E [ascii ''--fifo'', ascii ''/tmp/f''] (\<lambda>_. 9) (int (length t)) t =
       Some (Inr (default_values\<lparr>av_fifo := Some (ascii ''/tmp/f'')\<rparr>, c)) \<and> pr_port (cl_proto (fst c)) = 34567"
  by (rule allI, rule port_handoff [OF _ fifo_args]) (simp_all add: i32_ok_def)

text \<open>The client's read of the port is undefined behaviour when the client is run without a
  fifo or the read fails (\<open>rbuf[-1]\<close> is written), and when the read fills the whole buffer
  (\<open>rbuf[1024]\<close> is written).\<close>

theorem client_port_undefined:
  assumes "parse_args args = Parsed v" and "av_fifo v = None \<or> len = -1 \<or> len = int MAX_BUF"
  shows "client_init E args rbuf len data = None"
  using assms by (auto simp: client_init_def client_port_def poke_def MAX_BUF_def)

theorem client_port_undefined_witness:
  "\<forall>E :: (script, sgp_msg) gep_env. client_init E [] (\<lambda>_. 0) 5 (ascii ''34567'') = None"
  by (rule allI, rule client_port_undefined [where v = default_values])
    (simp_all add: parse_args_def parse_loop_end default_values_def)

section \<open>The programs\<close>

lemma sleep_steady: "steady w (sleep_secs os secs w)"
  unfolding sleep_secs_def by (rule syscall_steady [where r = "fst _"], rule prod.collapse [symmetric]) simp

text \<open>What the main thread's place says about the service thread.\<close>

definition client_main_ok :: "main_pc \<Rightarrow> client \<Rightarrow> bool" where
  "client_main_ok pc c \<longleftrightarrow>
     (case pc of
        M_Start tries \<Rightarrow> cl_pc c = C_None \<and> 0 \<le> tries \<and> tries \<le> 3
      | M_Stop \<Rightarrow> cl_pc c \<noteq> C_None \<and> cl_stopping c
      | M_Return r \<Rightarrow> cl_pc c = C_None \<and> r \<in> {0, -1}
      | _ \<Rightarrow> cl_pc c \<noteq> C_None \<and> \<not> cl_stopping c)"

lemma client_thread_keeps:
  "Client_RunThread E c w = Some (c', w') \<Longrightarrow> cl_pc c \<noteq> C_None \<Longrightarrow>
     cl_pc c' \<noteq> C_None \<and> cl_stopping c' = cl_stopping c"
  by (cases "cl_pc c")
     (auto simp: Client_RunThread_def Client_select_def Reconnect_def Let_def split: bind_splits if_splits prod.splits)

lemma client_program_step:
  assumes "client_program E v (pc, c, w) (pc', c', w')" and "client_inv E (c, w)" and "client_main_ok pc c"
  shows "client_inv E (c', w') \<and> client_main_ok pc' c'"
  using assms(1)
proof cases
  case thread
  then show ?thesis
    using client_step_inv [OF assms(2) client_step.thread] client_thread_keeps assms(3)
    by (fastforce simp: client_main_ok_def split: main_pc.splits)
next
  case main
  note step = client_step_inv [OF assms(2)]
  have sl: "client_inv E (c1, w1) \<Longrightarrow> client_inv E (c1, sleep_secs os n w1)" for c1 w1 n and os :: "'a os"
    using client_inv_world sleep_steady by blast
  show ?thesis
  proof (cases pc)
    case (M_Start tries)
    then have none: "cl_pc c = C_None" using assms(3) by (simp add: client_main_ok_def)
    obtain r c1 w1 where st: "Client_Start E c w = Some (r, c1, w1)"
      using main(2) M_Start by (auto simp: client_main_def split: bind_splits)
    then have "client_inv E (c1, w1)" using step [OF client_step.start [OF none st]] by simp
    moreover have "if r < 0 then cl_pc c1 = C_None else cl_pc c1 \<noteq> C_None \<and> \<not> cl_stopping c1"
      using st none client_invD(4) [OF assms(2)]
      by (auto simp: Client_Start_def client_pc_ok_def Let_def split: if_splits prod.splits)
    ultimately show ?thesis
      using main(2) M_Start st sl assms(3) by (auto simp: client_main_def client_main_ok_def split: if_splits)
  next
    case (M_Send msgs)
    then show ?thesis
      using main(2) assms(2,3) step [OF client_step.send]
      by (cases msgs) (auto simp: client_main_def client_main_ok_def split: bind_splits)
  next
    case M_Sleep
    then obtain c1 where "Client_Stop_request c = Some c1" "c' = c1" "pc' = M_Stop" "w' = sleep_secs (e_os E) 3 w"
      using main(2) by (auto simp: client_main_def split: bind_splits)
    then show ?thesis
      using step [OF client_step.stop] assms(3) M_Sleep sl
      by (auto simp: client_main_ok_def Client_Stop_request_def split: if_splits)
  next
    case M_Stop
    obtain c1 w1 where j: "Client_Stop_join E c w = (c1, w1)" by fastforce
    have "client_inv E (c1, w1)"
      using step [OF client_step.join [OF _ _ j]] main(1) M_Stop assms(3) by (simp add: client_main_ok_def)
    moreover have "cl_pc c1 = C_None" using j by (auto simp: Client_Stop_join_def split: prod.splits)
    ultimately show ?thesis
      using main(2) M_Stop j by (auto simp: client_main_def client_main_ok_def)
  qed (use main(2) assms(2,3) in \<open>auto simp: client_main_def client_main_ok_def\<close>)
qed

text \<open>
  How often the program has asked for a socket. While main starts, that is how often it has tried,
  because there is no service thread yet.
\<close>

definition socket_calls :: "'m event list \<Rightarrow> nat" where
  "socket_calls tr = length (filter (\<lambda>e. case e of Ev_socket fd \<Rightarrow> True | _ \<Rightarrow> False) tr)"

definition client_tries :: "main_pc \<Rightarrow> ('w, 'm) world \<Rightarrow> bool" where
  "client_tries pc w \<longleftrightarrow>
     (case pc of
        M_Start tries \<Rightarrow> int (socket_calls (w_trace w)) = tries
      | M_Return r \<Rightarrow> r = -1 \<longrightarrow> socket_calls (w_trace w) = 4
      | _ \<Rightarrow> True)"

lemma Client_Start_tries:
  assumes "Client_Start E c w = Some (r, c', w')" and "e_si E = SocketInterface_of (e_os E)"
  shows "socket_calls (w_trace w') = Suc (socket_calls (w_trace w))"
  using assms
  by (auto simp: Client_Start_def OpenClientSocket_def SocketInterface_of_def Raw_Socket_def os_connect_def
      os_close_def syscall_def socket_calls_def Let_def split: prod.splits if_splits)

lemma sleep_tries: "socket_calls (w_trace (sleep_secs os n w)) = socket_calls (w_trace w)"
  by (simp add: sleep_secs_def syscall_def socket_calls_def split: prod.split)

lemma client_program_tries:
  assumes "client_program E v (pc, c, w) (pc', c', w')" and "client_inv E (c, w)" and "client_main_ok pc c"
    and "client_tries pc w"
  shows "client_tries pc' w'"
  using assms(1)
proof cases
  case thread
  then show ?thesis using assms(3) by (auto simp: client_tries_def client_main_ok_def split: main_pc.splits)
next
  case main
  have si: "e_si E = SocketInterface_of (e_os E)"
    using client_invD(1) [OF assms(2)] by (simp add: client_env_ok_def channel_env_ok_def)
  show ?thesis
  proof (cases pc)
    case (M_Start tries)
    then obtain r c1 w1 where st: "Client_Start E c w = Some (r, c1, w1)"
      using main(2) by (auto simp: client_main_def split: bind_splits)
    show ?thesis
      using main(2) M_Start st Client_Start_tries [OF st si] assms(3,4)
      by (auto simp: client_main_def client_tries_def client_main_ok_def sleep_tries split: if_splits)
  next
    case (M_Send msgs)
    then show ?thesis
      using main(2) by (cases msgs) (auto simp: client_main_def client_tries_def split: bind_splits)
  qed (use main(2) assms(4) in \<open>auto simp: client_main_def client_tries_def split: bind_splits prod.splits\<close>)
qed

lemma client_program_all:
  assumes "(client_program E v)\<^sup>*\<^sup>* (pc, c, w) (pc', c', w')" and "client_inv E (c, w)" and "client_main_ok pc c"
    and "client_tries pc w"
  shows "client_inv E (c', w') \<and> client_main_ok pc' c' \<and> client_tries pc' w'"
proof -
  let ?I = "\<lambda>(pc, c, w). client_inv E (c, w) \<and> client_main_ok pc c \<and> client_tries pc w"
  have "?I y \<Longrightarrow> client_program E v y z \<Longrightarrow> ?I z" for y z
    using client_program_step client_program_tries by (cases y; cases z) blast
  from rtranclp_invariant [OF assms(1), of ?I] this show ?thesis using assms(2-4) by fast
qed

text \<open>C33: The example client, whatever the interleaving of its main thread with its service thread:
  the next step of the service thread is always defined. While main is starting it has been refused
  as often as it has tried and asked for a socket, at most three times; it gives up, with status -1,
  after exactly four tries, each of which asked for one socket. When main returns, with either
  status, there is no service thread and every descriptor the program opened has been closed.\<close>

theorem client_program_clean:
  assumes "client_env_ok E p" and "w_trace w0 = []"
    and "(client_program E v)\<^sup>*\<^sup>* (M_Start 0, GepClient_new E p, w0) (pc, c, w)"
  shows "(cl_pc c \<noteq> C_None \<longrightarrow> Client_RunThread E c w \<noteq> None) \<and>
    (\<forall>tries. pc = M_Start tries \<longrightarrow> tries \<le> 3 \<and> int (socket_calls (w_trace w)) = tries) \<and>
    (pc = M_Return (-1) \<longrightarrow> socket_calls (w_trace w) = 4) \<and>
    (\<forall>status. pc = M_Return status \<longrightarrow> status \<in> {0, -1} \<and> cl_pc c = C_None \<and>
       mset (opened_fds (w_trace w)) = mset (closed_fds (w_trace w)))"
proof -
  have "client_inv E (GepClient_new E p, w0)" "client_main_ok (M_Start 0) (GepClient_new E p)" "client_tries (M_Start 0) w0"
    using client_inv_init [OF assms(1), of w0] assms(2)
    by (simp_all add: client_main_ok_def GepClient_new_def client_tries_def socket_calls_def)
  then have inv: "client_inv E (c, w)" "client_main_ok pc c" "client_tries pc w"
    using client_program_all [OF assms(3)] by blast+
  have "Client_RunThread E c w \<noteq> None" if "cl_pc c \<noteq> C_None" using client_thread_step [OF inv(1) that] by auto
  moreover have "mset (opened_fds (w_trace w)) = mset (closed_fds (w_trace w))" if "cl_pc c = C_None"
    using client_invD(3,4) [OF inv(1)] that by (simp add: fds_accounted_def client_pc_ok_def)
  ultimately show ?thesis using inv(2,3) by (auto simp: client_main_ok_def client_tries_def)
qed

text \<open>
  The example over a protobuf that knows the default messages only, on the scripted kernel, with
  callbacks that count in the trace.
\<close>

definition default_pb :: "sgp_msg pb" where
  "default_pb = \<lparr>pb_lite = False,
     pb_print_text = (\<lambda>m. if SGP_GetMessage (SGP_GetTag m) = Some m then Some [] else None),
     pb_parse_text = (\<lambda>s m. if s = [] then Some m else None),
     pb_serialize = (\<lambda>m. if SGP_GetMessage (SGP_GetTag m) = Some m then Some [] else None),
     pb_clear = (\<lambda>m. case SGP_GetMessage (SGP_GetTag m) of Some e \<Rightarrow> e | None \<Rightarrow> m),
     pb_parse = (\<lambda>s m. None)\<rparr>"

definition sgp_env :: "(u32 \<Rightarrow> (script, sgp_msg) callback option) \<Rightarrow> (script, sgp_msg) gep_env" where
  "sgp_env ops = \<lparr>e_os = script_os, e_pb = default_pb, e_vt = SGP_vt, e_si = SocketInterface_of script_os,
     e_ops = ops, e_uninit = (\<lambda>_. 0)\<rparr>"

definition sgp_client_ops :: "u32 \<Rightarrow> (script, sgp_msg) callback option" where
  "sgp_client_ops = kSGPClientOps (\<lambda>m w. Some (True, w))"

definition sgp_server_ops :: "u32 \<Rightarrow> (script, sgp_msg) callback option" where
  "sgp_server_ops = kSGPServerOps (\<lambda>m cid w. Some (True, w))"

lemma default_pb_ok: "sgp_pb_ok default_pb" "codec_ok default_pb SGP_vt"
proof -
  have "same_class (case SGP_GetMessage (SGP_GetTag m) of Some e \<Rightarrow> e | None \<Rightarrow> m) m" for m
    by (cases m) (simp_all add: sgp_tags same_class_def)
  moreover have "same_class m m" for m by (simp add: same_class_def)
  ultimately show "sgp_pb_ok default_pb" by (simp add: sgp_pb_ok_def default_pb_def)
  show "codec_ok default_pb SGP_vt"
    unfolding codec_ok_def default_pb_def SGP_vt_def by (simp split: if_split)
qed

lemma sgp_env_ok:
  assumes "ops = sgp_client_ops \<or> ops = sgp_server_ops"
  shows "channel_env_ok (sgp_env ops) p" and "client_env_ok (sgp_env ops) p" and "callbacks_quiet (sgp_env ops)"
proof -
  have cb: "w' = w" if "ops tag = Some cb" "cb m cid w = Some (r, w')" for tag cb m cid w r w'
    using assms that
    by (auto simp: sgp_client_ops_def sgp_server_ops_def kSGPClientOps_def kSGPServerOps_def RecvMessage_def
        RecvMessageId_def split: if_splits)
  have "ops_ok (sgp_env ops) p"
    using assms default_pb_ok(1)
      sgp_ops_ok [of "sgp_env ops" "\<lambda>m cid w. Some (True, w)"]
      sgp_client_ops_ok [of "sgp_env ops" "\<lambda>m w. Some (True, w)"]
    by (auto simp: sgp_env_def sgp_client_ops_def sgp_server_ops_def)
  moreover have "callbacks_steady (sgp_env ops)"
    using cb by (auto simp: callbacks_steady_def sgp_env_def) (metis steady_refl)
  ultimately show c: "channel_env_ok (sgp_env ops) p"
    by (auto simp: channel_env_ok_def sgp_env_def script_send_ok script_recv_ok default_pb_def Serialize_def
        split: if_splits)
  show "client_env_ok (sgp_env ops) p"
    using c by (simp add: client_env_ok_def) (simp add: sgp_env_def script_fds_ok)
  show "callbacks_quiet (sgp_env ops)"
    using cb by (auto simp: callbacks_quiet_def sgp_env_def quiet_def) (metis)+
qed

lemma client_main_refused:
  assumes "sc_socket (w_os w) = -1 # l" and "cl_pc c = C_None"
  shows "\<exists>w'. client_main (sgp_env sgp_client_ops) v (M_Start tries) c w =
      Some (if tries + 1 > 3 then M_Return (-1) else M_Start (tries + 1), c, w') \<and>
    w_os w' = (w_os w)\<lparr>sc_socket := l\<rparr>"
  using assms
  by (simp add: client_main_def Client_Start_def OpenClientSocket_def sgp_env_def SocketInterface_of_def
      Raw_Socket_def syscall_def script_os_def clamp_fd_def sleep_secs_def)

definition sgp_world :: "script \<Rightarrow> (script, sgp_msg) world" where
  "sgp_world s = \<lparr>w_os = s, w_errno = 0, w_log_level = LOG_WARNING, w_trace = []\<rparr>"

text \<open>A client that is refused a socket four times gives up.\<close>

lemma client_gives_up:
  "\<exists>w. (client_program (sgp_env sgp_client_ops) v)\<^sup>*\<^sup>*
     (M_Start 0, GepClient_new (sgp_env sgp_client_ops) p, sgp_world (quiet_script\<lparr>sc_socket := [-1, -1, -1, -1]\<rparr>))
     (M_Return (-1), GepClient_new (sgp_env sgp_client_ops) p, w)"
proof -
  let ?E = "sgp_env sgp_client_ops" let ?c = "GepClient_new ?E p"
  have none: "cl_pc ?c = C_None" by (simp add: GepClient_new_def)
  have attempt: "\<exists>w'. client_program ?E v (M_Start t, ?c, w) (if t + 1 > 3 then M_Return (-1) else M_Start (t + 1), ?c, w') \<and>
      w_os w' = (w_os w)\<lparr>sc_socket := l\<rparr>" if "sc_socket (w_os w) = -1 # l" for t w l
    using client_main_refused [OF that none, of v t] client_program.main [of "M_Start t" ?c ?E v w] by fastforce
  obtain w1 where w1: "client_program ?E v (M_Start 0, ?c, sgp_world (quiet_script\<lparr>sc_socket := [-1, -1, -1, -1]\<rparr>))
      (M_Start 1, ?c, w1)" "sc_socket (w_os w1) = [-1, -1, -1]"
    using attempt [of "sgp_world (quiet_script\<lparr>sc_socket := [-1, -1, -1, -1]\<rparr>)" "[-1, -1, -1]" 0]
    by (auto simp: sgp_world_def)
  obtain w2 where w2: "client_program ?E v (M_Start 1, ?c, w1) (M_Start 2, ?c, w2)" "sc_socket (w_os w2) = [-1, -1]"
    using attempt [OF w1(2), of 1] by auto
  obtain w3 where w3: "client_program ?E v (M_Start 2, ?c, w2) (M_Start 3, ?c, w3)" "sc_socket (w_os w3) = [-1]"
    using attempt [OF w2(2), of 2] by auto
  obtain w4 where "client_program ?E v (M_Start 3, ?c, w3) (M_Return (-1), ?c, w4)"
    using attempt [OF w3(2), of 3] by auto
  then show ?thesis using w1(1) w2(1) w3(1) by (meson rtranclp.rtrancl_refl converse_rtranclp_into_rtranclp)
qed

theorem client_program_clean_witness:
  "\<exists>c w. (client_program (sgp_env sgp_client_ops) default_values)\<^sup>*\<^sup>*
       (M_Start 0, GepClient_new (sgp_env sgp_client_ops) raw_proto,
        sgp_world (quiet_script\<lparr>sc_socket := [-1, -1, -1, -1]\<rparr>)) (M_Return (-1), c, w) \<and>
     socket_calls (w_trace w) = 4 \<and> mset (opened_fds (w_trace w)) = mset (closed_fds (w_trace w))"
proof -
  let ?E = "sgp_env sgp_client_ops" and ?w0 = "sgp_world (quiet_script\<lparr>sc_socket := [-1, -1, -1, -1]\<rparr>)"
  obtain w where w: "(client_program ?E default_values)\<^sup>*\<^sup>* (M_Start 0, GepClient_new ?E raw_proto, ?w0)
      (M_Return (-1), GepClient_new ?E raw_proto, w)"
    using client_gives_up by blast
  have "w_trace ?w0 = []" by (simp add: sgp_world_def)
  from client_program_clean [OF sgp_env_ok(2) this w] w show ?thesis by blast
qed

section \<open>What the server counts\<close>

lemma MyServer_Recv_all_append:
  "MyServer_Recv_all (xs @ ys) s = MyServer_Recv_all xs s \<bind> MyServer_Recv_all ys"
proof (induction xs arbitrary: s)
  case (Cons x xs)
  obtain cid m where x: "x = (cid, m)" by fastforce
  show ?case using Cons x by (cases "MyServer_Recv m cid s") auto
qed simp

lemma count_replicate:
  "0 \<le> cnt1 s \<Longrightarrow> i32_ok (cnt1 s + int n) \<Longrightarrow> MyServer_Recv_all (replicate n (cid, Command1 None None)) s =
     Some (s\<lparr>cnt1 := cnt1 s + int n, seen_client := seen_client s \<or> 0 < n\<rparr>)"
  "0 \<le> cnt2 s \<Longrightarrow> i32_ok (cnt2 s + int n) \<Longrightarrow> MyServer_Recv_all (replicate n (cid, Command2 None)) s =
     Some (s\<lparr>cnt2 := cnt2 s + int n, seen_client := seen_client s \<or> 0 < n\<rparr>)"
  "0 \<le> cnt3 s \<Longrightarrow> i32_ok (cnt3 s + int n) \<Longrightarrow> MyServer_Recv_all (replicate n (cid, Command3 None)) s =
     Some (s\<lparr>cnt3 := cnt3 s + int n, seen_client := seen_client s \<or> 0 < n\<rparr>)"
  "0 \<le> cnt4 s \<Longrightarrow> i32_ok (cnt4 s + int n) \<Longrightarrow> MyServer_Recv_all (replicate n (cid, Command4 None None)) s =
     Some (s\<lparr>cnt4 := cnt4 s + int n, seen_client := seen_client s \<or> 0 < n\<rparr>)"
  by (induction n arbitrary: s; simp add: chk32_def i32_ok_def add.assoc)+

lemma count_main_messages:
  assumes "i32_ok (av_cnt1 v)" and "i32_ok (av_cnt2 v)" and "i32_ok (av_cnt3 v)" and "i32_ok (av_cnt4 v)"
  shows "MyServer_Recv_all (map (\<lambda>m. (cid, m)) (main_messages v)) my_counts_new =
    Some \<lparr>cnt1 = max 0 (av_cnt1 v), cnt2 = max 0 (av_cnt2 v), cnt3 = max 0 (av_cnt3 v), cnt4 = max 0 (av_cnt4 v),
      seen_client = (main_messages v \<noteq> [])\<rparr>"
proof -
  have ok: "i32_ok (int (nat n))" if "i32_ok n" for n using that by (simp add: i32_ok_def)
  have mx: "int (nat n) = max 0 n" for n by simp
  show ?thesis
    using ok [OF assms(1)] ok [OF assms(2)] ok [OF assms(3)] ok [OF assms(4)]
    by (simp add: main_messages_def MyServer_Recv_all_append count_replicate my_counts_new_def mx del: int_nat_eq) auto
qed

lemma main_messages_known: "m \<in> set (main_messages v) \<Longrightarrow> m \<noteq> Other_message \<and> SGP_GetMessage (SGP_GetTag m) = Some m"
  by (auto simp: main_messages_def sgp_tags)

lemma main_messages_expected:
  assumes "e_vt E = SGP_vt" and "e_ops E = kSGPServerOps Recv"
  shows "expected E cid (main_messages v) = map (\<lambda>m. (cid, SGP_GetTag m, m)) (main_messages v)"
proof -
  have "kSGPServerOps Recv (SGP_GetTag m) \<noteq> None" if "m \<noteq> Other_message" for m
    using that by (cases m) (simp_all add: kSGPServerOps_def sgp_tags)
  then have "filter (\<lambda>m. e_ops E (vt_GetTag (e_vt E) m) \<noteq> None) (main_messages v) = main_messages v"
    using main_messages_known assms by (auto simp: filter_id_conv SGP_vt_def)
  then show ?thesis by (simp add: expected_def assms(1) SGP_vt_def)
qed

text \<open>C34: The results the example server prints are right: when all the client's sends returned 0 and
  all their bytes have arrived at a server that has counted nothing yet, in whatever pieces,
  each of the four counters holds the count the client was told on its command line (0 for a
  negative one), and the flag main waits for is set exactly when something was sent.\<close>

theorem example_results:
  assumes "channel_env_ok Es p" and "channel_env_ok Er q" and "callbacks_quiet Er"
    and "e_pb Er = e_pb Es" and "e_vt Es = SGP_vt" and "e_vt Er = SGP_vt" and "pr_mode q = pr_mode p"
    and "pr_magic q = pr_magic p" and "codec_ok (e_pb Es) SGP_vt" and "e_ops Er = kSGPServerOps Recv"
    and "\<forall>m \<in> set (main_messages v). length (the (Serialize (e_pb Es) p m)) < max_value_len"
    and "i32_ok (av_cnt1 v)" and "i32_ok (av_cnt2 v)" and "i32_ok (av_cnt3 v)" and "i32_ok (av_cnt4 v)"
    and "send_run Es p sender (main_messages v) ws = Some (0, ws')"
    and "chan_idle q receiver" and "content receiver = []" and "dispatched (w_trace wr) = []"
    and "recv_run Er q n receiver wr = Some (r, receiver', wr')"
    and "sent_on (ch_socket sender) (w_trace ws') = sent_on (ch_socket sender) (w_trace ws) @ arrived"
    and "received_on (ch_socket receiver) (w_trace wr') = received_on (ch_socket receiver) (w_trace wr) @ arrived"
  shows "MyServer_state wr' =
    Some \<lparr>cnt1 = max 0 (av_cnt1 v), cnt2 = max 0 (av_cnt2 v), cnt3 = max 0 (av_cnt3 v), cnt4 = max 0 (av_cnt4 v),
      seen_client = (main_messages v \<noteq> [])\<rparr>"
proof -
  have "e_vt Er = e_vt Es" "codec_ok (e_pb Es) (e_vt Es)"
    "sent_on (ch_socket sender) (w_trace ws') = sent_on (ch_socket sender) (w_trace ws) @ arrived @ []"
    using assms(5,6,9,21) by simp_all
  from delivery [OF assms(1-4) this(1) assms(7,8) this(2) assms(11,16-18,20) this(3) assms(22)] assms(19)
  have "dispatched (w_trace wr') = expected Er (ch_id receiver) (main_messages v)" by auto
  also have "\<dots> = map (\<lambda>m. (ch_id receiver, SGP_GetTag m, m)) (main_messages v)"
    by (rule main_messages_expected [OF assms(6,10)])
  finally have "map (\<lambda>(cid, tag, msg). (cid, msg)) (dispatched (w_trace wr')) =
      map (\<lambda>m. (ch_id receiver, m)) (main_messages v)"
    by simp
  then show ?thesis
    using count_main_messages [OF assms(12-15)] by (simp add: MyServer_state_def)
qed

text \<open>A run of it, for a client that is told to send one first and one third command.\<close>

lemma sgp_Serialize: "SGP_GetMessage (SGP_GetTag m) = Some m \<Longrightarrow> Serialize default_pb raw_proto m = Some []"
  by (simp add: Serialize_def default_pb_def)

lemma sgp_send_run:
  assumes "\<forall>m \<in> set ms. SGP_GetMessage (SGP_GetTag m) = Some m"
    and "sc_send (w_os w) = []" and "sc_clock_ms (w_os w) = []"
  shows "\<exists>w'. send_run (sgp_env ops) raw_proto ch ms w = Some (0, w')"
  using assms
proof (induction ms arbitrary: w)
  case (Cons m ms)
  let ?h = "header_bytes kMagic (SGP_GetTag m) 0"
  have "SendMessage (sgp_env ops) raw_proto ch m w = SendTLV (sgp_env ops) raw_proto ch (SGP_GetTag m) (int (length ([] :: u8 list))) (Some []) w"
    using sgp_Serialize [of m] Cons.prems(1)
    by (simp add: SendMessage_def SendString_def sgp_env_def SGP_vt_def narrow32_def)
  also have "\<dots> = Some (0, sent (ch_socket ch) ?h w)"
    using script_FullSend [OF Cons.prems(2,3), of "ch_socket ch" ?h 5]
    by (subst SendTLV_eq) (simp_all add: SendData_def sgp_env_def SocketInterface_of_def kGepSendTimeoutMs_def)
  finally show ?case using Cons.IH [of "sent (ch_socket ch) ?h w"] Cons.prems by simp
qed simp

lemma sgp_recv_run:
  assumes "\<forall>m \<in> set ms. m \<noteq> Other_message \<and> SGP_GetMessage (SGP_GetTag m) = Some m"
    and "sc_recv (w_os w) = [Received (message_stream (sgp_env sgp_server_ops) raw_proto ms)]"
    and "ms \<noteq> []" and "length (message_stream (sgp_env sgp_server_ops) raw_proto ms) \<le> 1048576"
    and "0 \<le> fd"
  shows "\<exists>ch' w'. recv_run (sgp_env sgp_server_ops) raw_proto 1 (GepChannel_new (sgp_env sgp_server_ops) 0 fd) w = Some (0, ch', w') \<and>
    received_on fd (w_trace w') = received_on fd (w_trace w) @ message_stream (sgp_env sgp_server_ops) raw_proto ms"
proof -
  let ?E = "sgp_env sgp_server_ops" and ?p = raw_proto
  let ?ch = "GepChannel_new ?E 0 fd" and ?bs = "message_stream ?E ?p ms"
  have env: "channel_env_ok ?E ?p" "callbacks_quiet ?E" using sgp_env_ok by blast+
  have ser: "Serialize (e_pb ?E) ?p m = Some []" if "m \<in> set ms" for m
    using sgp_Serialize assms(1) that by (simp add: sgp_env_def)
  have idle: "chan_idle ?p ?ch" by (rule new_channel_idle [OF assms(5)])
  then have room: "chan_room ?ch" "0 \<le> ch_socket ?ch" by (simp_all add: chan_idle_def)
  obtain ret bs w1 r ch' w' where rv: "si_Recv (SocketInterface_of (e_os ?E)) (ch_socket ?ch) (1048576 - nat (ch_len ?ch)) w = (ret, bs, w1)"
    and rd: "RecvData ?E ?p ?ch w = Some (r, ch', w')" and post: "recv_post ?E ?p ?ch w ret bs r ch' w'"
    using sock.RecvData_post [OF channel_env_okD(2-4) [OF env(1)] room, of w] by blast
  have ne: "?bs \<noteq> []"
  proof -
    obtain m l where ms: "ms = m # l" using assms(3) by (cases ms) auto
    then have "message_wire ?E ?p m \<noteq> []" using ser by (simp add: message_wire_def frame_bytes_def header_bytes_def SET_UINT32_def)
    then show ?thesis using ms by (simp add: message_stream_def)
  qed
  have eo: "e_os ?E = script_os" by (simp add: sgp_env_def)
  have bs: "bs = ?bs" "ret = int (length ?bs)"
    using rv assms(2,4) unfolding eo by (auto simp: SocketInterface_of_def Raw_Recv_def script_os_def)
  obtain k x where "k \<le> length ms" "parse_frames (pr_magic ?p) ?bs = (take k (map (message_frame ?E ?p) ms), More x)" "k = length ms"
    using parse_message_stream [of ?E ?p ms ?bs "[]"] ser by (auto simp: max_value_len_def)
  then have pa: "parse_frames (pr_magic ?p) (content ?ch @ bs) = (map (message_frame ?E ?p) ms, More x)"
    using bs(1) by simp
  have "accepts ?E ?p (message_frame ?E ?p m)" if "m \<in> set ms" for m
    using deliver_message(1) [of ?E ?p m] default_pb_ok(2) channel_env_okD(4) [OF env(1)] ser [OF that]
    by (simp add: sgp_env_def)
  then have "list_all (accepts ?E ?p) (map (message_frame ?E ?p) ms)" by (simp add: list_all_iff)
  then have "r = 0" "received_on fd (w_trace w') = received_on fd (w_trace w) @ ?bs"
    using post pa bs ne env(2) by (auto simp: recv_post_def)
  then show ?thesis using rd by simp
qed

theorem example_results_witness:
  "\<exists>v ws' wr wr' ch' arrived. av_cnt1 v = 1 \<and> av_cnt2 v = -5 \<and> av_cnt3 v = 1 \<and> av_cnt4 v = 0 \<and>
     send_run (sgp_env sgp_client_ops) raw_proto (GepChannel_new (sgp_env sgp_client_ops) 0 4) (main_messages v)
       (sgp_world quiet_script) = Some (0, ws') \<and> sent_on 4 (w_trace ws') = arrived \<and>
     recv_run (sgp_env sgp_server_ops) raw_proto 1 (GepChannel_new (sgp_env sgp_server_ops) 0 5) wr = Some (0, ch', wr') \<and>
     received_on 5 (w_trace wr') = arrived \<and>
     MyServer_state wr' = Some \<lparr>cnt1 = 1, cnt2 = 0, cnt3 = 1, cnt4 = 0, seen_client = True\<rparr>"
proof -
  let ?Es = "sgp_env sgp_client_ops" and ?Er = "sgp_env sgp_server_ops" and ?p = raw_proto
  let ?v = "default_values\<lparr>av_cnt2 := -5, av_cnt3 := 1, av_cnt4 := 0\<rparr>"
  have ms: "main_messages ?v = [Command1 None None, Command3 None]"
    by (simp add: main_messages_def default_values_def DEFAULT_CNT1_def)
  have known: "\<forall>m \<in> set (main_messages ?v). m \<noteq> Other_message \<and> SGP_GetMessage (SGP_GetTag m) = Some m"
    using main_messages_known by blast
  let ?bs = "message_stream ?Er ?p (main_messages ?v)"
  have same: "message_stream ?Es ?p l = message_stream ?Er ?p l" for l
    unfolding message_stream_def
    by (intro arg_cong [where f = concat] map_cong refl) (simp add: message_wire_def sgp_env_def split: option.split)
  have len: "length ?bs \<le> 1048576"
    using known sgp_Serialize unfolding ms
    by (simp add: message_stream_def message_wire_def sgp_env_def frame_bytes_def)
  obtain ws' where s: "send_run ?Es ?p (GepChannel_new ?Es 0 4) (main_messages ?v) (sgp_world quiet_script) = Some (0, ws')"
    using sgp_send_run [of "main_messages ?v" "sgp_world quiet_script" sgp_client_ops "GepChannel_new ?Es 0 4"] known
    by (simp add: sgp_world_def quiet_script_def) blast
  have so: "sent_on 4 (w_trace ws') = ?bs"
    using sends_sent_on [OF send_run_stream(1) [OF sgp_env_ok(1) s]] same by (simp add: sgp_world_def)
  let ?wr = "sgp_world (quiet_script\<lparr>sc_recv := [Received ?bs]\<rparr>)"
  have "main_messages ?v \<noteq> []" unfolding ms by simp
  then obtain ch' wr' where r: "recv_run ?Er ?p 1 (GepChannel_new ?Er 0 5) ?wr = Some (0, ch', wr')"
    "received_on 5 (w_trace wr') = ?bs"
    using sgp_recv_run [OF known _ _ len, of ?wr 5] by (auto simp: sgp_world_def)
  have e: "e_pb ?Es = default_pb" "e_pb ?Er = default_pb" "e_vt ?Es = SGP_vt" "e_vt ?Er = SGP_vt"
    "e_ops ?Er = kSGPServerOps (\<lambda>m cid w. Some (True, w))"
    by (simp_all add: sgp_env_def sgp_server_ops_def)
  have small: "\<forall>m \<in> set (main_messages ?v). length (the (Serialize (e_pb ?Es) ?p m)) < max_value_len"
    using known sgp_Serialize by (simp add: e max_value_len_def)
  have "MyServer_state wr' = Some \<lparr>cnt1 = 1, cnt2 = 0, cnt3 = 1, cnt4 = 0, seen_client = True\<rparr>"
    using example_results [OF sgp_env_ok(1) sgp_env_ok(1) sgp_env_ok(3) _ e(3,4) refl refl _ e(5) small _ _ _ _ s
        new_channel_idle _ _ r(1)] so r(2) default_pb_ok(2) ms
    by (simp add: e sgp_world_def default_values_def DEFAULT_CNT1_def i32_ok_def)
  then show ?thesis using s so r by (intro exI [of _ ?v] exI) (auto simp: default_values_def DEFAULT_CNT1_def)
qed

end
