(* ===== verification/Program_Properties.thy ===== *)
theory Program_Properties
  imports Example_Properties
begin

text \<open>
  The property of the example server as a whole program: its main thread and its service thread,
  in any interleaving, up to the end of main and the destruction of the server.
\<close>

definition server_main_ok :: "('w, sgp_msg) server_env \<Rightarrow> main_pc \<Rightarrow> server \<times> ('w, sgp_msg) world \<Rightarrow> bool" where
  "server_main_ok S pc = (\<lambda>(s, w). server_inv S (s, w) \<and>
     (case pc of
        M_Start tries \<Rightarrow> sv_pc s = S_None \<and> ca_server_socket (sv_array s) = -1
      | M_Stop \<Rightarrow> sv_pc s \<noteq> S_None \<and> sv_stopping s
      | M_Return r \<Rightarrow> sv_pc s = S_None \<and> ca_server_socket (sv_array s) = -1 \<and> r \<in> {0, -1}
      | _ \<Rightarrow> sv_pc s \<noteq> S_None \<and> \<not> sv_stopping s))"

lemma server_main_ok_world: "server_main_ok S pc (s, w) \<Longrightarrow> steady w w' \<Longrightarrow> server_main_ok S pc (s, w')"
  using server_inv_world by (fastforce simp: server_main_ok_def)

lemma server_thread_keeps:
  "Server_RunThread S s w = Some (s', w') \<Longrightarrow> server_inv S (s, w) \<Longrightarrow> sv_pc s \<noteq> S_None \<Longrightarrow>
     sv_pc s' \<noteq> S_None \<and> sv_stopping s' = sv_stopping s"
proof (cases "sv_pc s")
  case (S_Select fd)
  assume "Server_RunThread S s w = Some (s', w')" and inv: "server_inv S (s, w)"
  moreover obtain pc w1 where "Server_select S fd s w = Some (pc, w1)" "pc = S_Exit \<or> (\<exists>fds. pc = S_Check fd fds)"
    using Server_select_result [of s fd S w] server_invD [OF inv] S_Select by (auto simp: pc_ok_def)
  ultimately show ?thesis using S_Select by (auto simp: Server_RunThread_def)
qed (auto simp: Server_RunThread_def Let_def split: bind_splits if_splits option.splits prod.splits)

lemma server_main_start:
  assumes "server_main_ok S (M_Start 0) (s, w)" and "Server_Start S s w = Some (r, s', w')"
  shows "server_main_ok S (if r < 0 then M_Return (-1) else M_Wait) (s', w')"
proof -
  have pre: "sv_pc s = S_None" "ca_server_socket (sv_array s) = -1" and inv: "server_inv S (s, w)"
    using assms(1) by (simp_all add: server_main_ok_def)
  have "server_inv S (s', w')" by (rule Server_Start_inv [OF inv pre(1) assms(2)])
  moreover have "if r < 0 then sv_pc s' = S_None \<and> ca_server_socket (sv_array s') = -1
      else sv_pc s' \<noteq> S_None \<and> \<not> sv_stopping s'"
  proof -
    obtain q p' a' w1 where o: "OpenServerSocket S (sv_proto s) (sv_array s) w = Some (q, p', a', w1)"
      and d: "q = -1 \<and> a' = sv_array s \<or> q = 0"
      using OpenServerSocket_result [OF server_invD(1) [OF inv], of "sv_array s" w] by blast
    have "\<not> sv_stopping s" using server_invD(4) [OF inv] pre(1) by (simp add: pc_ok_def)
    then show ?thesis
      using assms(2) o d pre by (auto simp: Server_Start_def split: if_splits)
  qed
  ultimately show ?thesis by (simp add: server_main_ok_def)
qed

lemma server_program_step:
  assumes "server_program S v (pc, s, w) (pc', s', w')" and "server_main_ok S pc (s, w)"
    and "\<And>tries. pc = M_Start tries \<Longrightarrow> tries = 0"
  shows "server_main_ok S pc' (s', w') \<and> (\<forall>tries. pc' = M_Start tries \<longrightarrow> tries = 0)"
  using assms(1)
proof cases
  case thread
  have "server_inv S (s, w)" using assms(2) by (simp add: server_main_ok_def)
  then show ?thesis
    using thread thread_step_inv [of S s w s' w'] server_thread_keeps [of S s w s' w'] assms(2,3)
    by (auto simp: server_main_ok_def split: main_pc.splits)
next
  case main
  have inv: "server_inv S (s, w)" using assms(2) by (simp add: server_main_ok_def)
  show ?thesis
  proof (cases pc)
    case (M_Start tries)
    then have ok: "server_main_ok S (M_Start 0) (s, w)" using assms(2,3) by simp
    show ?thesis
      using main(2) M_Start server_main_start [OF ok]
      by (auto simp: server_main_def split: bind_splits if_splits)
  next
    case (M_Send msgs)
    then show ?thesis
      using main(2) assms(2) Server_Send_steady(1) [OF inv] server_main_ok_world
      by (cases msgs) (fastforce simp: server_main_def server_main_ok_def split: bind_splits)+
  next
    case M_Sleep
    have "sv_pc s \<noteq> S_None" "\<not> sv_stopping s" using assms(2) M_Sleep by (simp_all add: server_main_ok_def)
    then obtain s1 where s1: "Server_Stop_request s = Some s1" "sv_pc s1 \<noteq> S_None" "sv_stopping s1"
      by (auto simp: Server_Stop_request_def)
    then have "server_inv S (s1, w)"
      using server_step_inv [OF inv server_step.stop] \<open>\<not> sv_stopping s\<close> by blast
    then have "server_main_ok S M_Stop (s1, w)" using s1 by (simp add: server_main_ok_def)
    then show ?thesis
      using main(2) M_Sleep s1(1) server_main_ok_world [OF _ sleep_steady] by (auto simp: server_main_def)
  next
    case M_Stop
    have st: "sv_stopping s" using assms(2) M_Stop by (simp add: server_main_ok_def)
    obtain s1 w1 where j: "Server_Stop_join S s w = (s1, w1)" by fastforce
    have "server_inv S (s1, w1)" using server_step_inv [OF inv server_step.join [OF st _ j]] main(1) M_Stop by simp
    moreover have "sv_pc s1 = S_None" "ca_server_socket (sv_array s1) = -1"
      using Server_Stop_join_result [OF inv] main(1) M_Stop j by auto
    ultimately have "server_main_ok S (M_Return 0) (s1, w1)" by (simp add: server_main_ok_def)
    then show ?thesis using main(2) M_Stop j by (auto simp: server_main_def)
  qed (use main(2) assms(2) in \<open>auto simp: server_main_def server_main_ok_def split: bind_splits if_splits\<close>)
qed

lemma server_program_inv:
  assumes "(server_program S v)\<^sup>*\<^sup>* (M_Start 0, s, w) (pc', s', w')" and "server_main_ok S (M_Start 0) (s, w)"
  shows "server_main_ok S pc' (s', w')"
proof -
  let ?I = "\<lambda>(pc, s, w). server_main_ok S pc (s, w) \<and> (\<forall>tries. pc = M_Start tries \<longrightarrow> tries = 0)"
  have "?I y \<Longrightarrow> server_program S v y z \<Longrightarrow> ?I z" for y z
    using server_program_step by (cases y; cases z) blast
  from rtranclp_invariant [OF assms(1), of ?I] this show ?thesis using assms(2) by fast
qed

text \<open>C32: The example server, whatever the interleaving of its main thread with its service
  thread: the next step of the service thread is always defined, while client ids last; when main
  waits to join it, the service thread finishes within three of its own steps; and when main
  returns, with either status, there is no service thread, no client and no listening socket, and
  destroying the server is defined and has nothing left to close.\<close>

theorem server_program_clean:
  assumes "server_env_ok S p" and "live_clients (w_trace w0) = []"
    and "(server_program S v)\<^sup>*\<^sup>* (M_Start 0, GepServer_new max_channels p, w0) (pc, s, w)"
  shows "(sv_pc s \<noteq> S_None \<and> ca_last_id (sv_array s) < 2147483647 \<longrightarrow> Server_RunThread S s w \<noteq> None) \<and>
    (pc = M_Stop \<and> ca_last_id (sv_array s) < 2147483647 \<longrightarrow>
       (\<exists>s' w'. Server_run S 3 s w = Some (s', w') \<and> sv_pc s' = S_Exit)) \<and>
    (\<forall>status. pc = M_Return status \<longrightarrow> status \<in> {0, -1} \<and> sv_pc s = S_None \<and> ca_server_socket (sv_array s) = -1 \<and>
       live_clients (w_trace w) = [] \<and> GepServer_destroy S s w = Some w)"
proof -
  have "server_main_ok S (M_Start 0) (GepServer_new max_channels p, w0)"
    using server_inv_init [OF assms(1,2)] by (simp add: server_main_ok_def GepServer_new_def GepChannelArray_new_def)
  from server_program_inv [OF assms(3) this] have ok: "server_main_ok S pc (s, w)" .
  then have inv: "server_inv S (s, w)" by (simp add: server_main_ok_def)
  have room: "i32_ok (ca_last_id (sv_array s) + 1)" if "ca_last_id (sv_array s) < 2147483647"
    using that server_invD(6) [OF inv] by (simp add: array_shape_def i32_ok_def)
  have "Server_RunThread S s w \<noteq> None" if "sv_pc s \<noteq> S_None" "ca_last_id (sv_array s) < 2147483647"
    using thread_step_defined [OF inv that(1) room [OF that(2)]] by auto
  moreover have "\<exists>s' w'. Server_run S 3 s w = Some (s', w') \<and> sv_pc s' = S_Exit"
    if "pc = M_Stop" "ca_last_id (sv_array s) < 2147483647"
  proof -
    have "sv_pc s \<noteq> S_None" "\<not> sv_thread_ctrl s" "pc_rank (sv_pc s) \<le> 3"
      using ok that(1) server_invD(5) [OF inv] by (auto simp: server_main_ok_def) (cases "sv_pc s"; simp)
    then show ?thesis using thread_finishes [OF inv _ _ _ room [OF that(2)]] by blast
  qed
  moreover have "live_clients (w_trace w) = [] \<and> GepServer_destroy S s w = Some w" if "sv_pc s = S_None"
    using that server_invD(3,4) [OF inv] by (auto simp: pc_ok_def clients_known_def GepServer_destroy_def)
  ultimately show ?thesis using ok by (auto simp: server_main_ok_def)
qed

text \<open>A server on the scripted kernel that is refused its socket.\<close>

definition sgp_server_env :: "(script, sgp_msg) server_env" where
  "sgp_server_env = \<lparr>se_chan = sgp_env sgp_server_ops, se_si = SocketInterface_of script_os,
     se_AddClient = (\<lambda>cid w. w), se_DelClient = (\<lambda>cid w. w)\<rparr>"

lemma sgp_server_env_ok: "server_env_ok sgp_server_env p"
  using sgp_env_ok(1) [of sgp_server_ops p]
  by (simp add: server_env_ok_def sgp_server_env_def hooks_steady_def) (simp add: sgp_env_def script_fds_ok)

theorem server_program_clean_witness:
  "\<exists>s w. (server_program sgp_server_env default_values)\<^sup>*\<^sup>*
       (M_Start 0, GepServer_new 16 raw_proto, sgp_world (quiet_script\<lparr>sc_socket := [-1]\<rparr>)) (M_Return (-1), s, w) \<and>
     GepServer_destroy sgp_server_env s w = Some w"
proof -
  let ?s = "GepServer_new 16 raw_proto" and ?w0 = "sgp_world (quiet_script\<lparr>sc_socket := [-1]\<rparr>)"
  have "sc_socket (w_os ?w0) = [-1]" by (simp add: sgp_world_def)
  then obtain w where "server_main sgp_server_env default_values (M_Start 0) ?s ?w0 = Some (M_Return (-1), ?s, w)"
    by (simp add: server_main_def Server_Start_def OpenServerSocket_def sgp_server_env_def SocketInterface_of_def
        GepServer_new_def GepChannelArray_new_def Raw_Socket_def syscall_def script_os_def clamp_fd_def sgp_env_def)
  then have "server_program sgp_server_env default_values (M_Start 0, ?s, ?w0) (M_Return (-1), ?s, w)"
    by (intro server_program.main) simp_all
  then have r: "(server_program sgp_server_env default_values)\<^sup>*\<^sup>* (M_Start 0, ?s, ?w0) (M_Return (-1), ?s, w)" by blast
  have "live_clients (w_trace ?w0) = []" by (simp add: sgp_world_def live_clients_def)
  from server_program_clean [OF sgp_server_env_ok this r] r show ?thesis by blast
qed

end
