(* ===== verification/Gep_Connections.thy ===== *)
theory Gep_Connections
  imports Gep_Traces
begin

text \<open>
  The connections of a server over a whole run: each channel of the vector owns its descriptor,
  and the callbacks that ran for a client are those of the frames of the bytes it sent, whatever
  the other clients and threads did in between.
\<close>

section \<open>Reading a longer trace\<close>

lemma conns_of_append: "conns_of (xs @ ys) = foldl conn_step (conns_of xs) ys"
  by (simp add: conns_of_def)

lemma open_fds_append: "open_fds (xs @ ys) = foldl open_step (open_fds xs) ys"
  by (simp add: open_fds_def)

lemma fresh_from_append: "fresh_from fds (xs @ ys) \<longleftrightarrow> fresh_from fds xs \<and> fresh_from (foldl open_step fds xs) ys"
  by (induction xs arbitrary: fds) auto

lemma fds_fresh_append: "fds_fresh (xs @ ys) \<longleftrightarrow> fds_fresh xs \<and> fresh_from (open_fds xs) ys"
  by (simp add: fds_fresh_def fresh_from_append open_fds_def)

lemma dispatched_open [simp]: "dispatched (Ev_accept l fd # tr) = dispatched tr" "dispatched (Ev_socket fd # tr) = dispatched tr"
  by (simp_all add: dispatched_def)

lemma plain_events:
  assumes "list_all plain es"
  shows "foldl conn_step c es = c" and "foldl open_step fds es = fds" and "dispatched es = []"
proof -
  have "conn_step c e = c" "open_step fds e = fds" "dispatched [e] = []" if "plain e" for c fds and e :: "'a event"
    using that by (cases e; simp add: conn_step_def open_step_def dispatched_def)+
  then show "foldl conn_step c es = c" and "foldl open_step fds es = fds" and "dispatched es = []"
    using assms by (induction es) (auto simp: dispatched_def)
qed

text \<open>The events of a receive, for the client that owns the descriptor.\<close>

lemma serves_events:
  assumes "list_all (serves cid fd) es" and "cn_owner c fd = Some cid"
  shows "foldl conn_step c es = c\<lparr>cn_bytes := (cn_bytes c)(cid := cn_bytes c cid @ received_on fd es)\<rparr>"
    and "foldl open_step fds es = fds" and "\<forall>d \<in> set (dispatched es). fst d = cid"
proof -
  have one: "conn_step c e = c\<lparr>cn_bytes := (cn_bytes c)(cid := cn_bytes c cid @ received_on fd [e])\<rparr>"
    if "serves cid fd e" "cn_owner c fd = Some cid" for c and e :: "'a event"
    using that by (cases e) (auto simp: serves_def conn_step_def received_on_def)
  have rest: "open_step fds e = fds" "\<forall>d \<in> set (dispatched [e]). fst d = cid" if "serves cid fd e" for fds and e :: "'a event"
    using that by (cases e; auto simp: serves_def open_step_def dispatched_def)+
  have r: "received_on fd (e # es) = received_on fd [e] @ received_on fd es"
    "dispatched (e # es) = dispatched [e] @ dispatched es" for e and es :: "'a event list"
    by (simp_all add: received_on_def dispatched_def)
  show "foldl conn_step c es = c\<lparr>cn_bytes := (cn_bytes c)(cid := cn_bytes c cid @ received_on fd es)\<rparr>"
    using assms
  proof (induction es arbitrary: c)
    case (Cons e es)
    then show ?case using one [of e c] by (intro conns.equality) (simp_all add: r(1) [of e es] fun_eq_iff)
  qed simp
  show "foldl open_step fds es = fds"
    using assms(1) rest(1) by (induction es) simp_all
  show "\<forall>d \<in> set (dispatched es). fst d = cid"
    using assms(1)
  proof (induction es)
    case (Cons e es)
    then show ?case using rest(2) [of e] r(2) [of e es] by auto
  qed simp
qed

lemma serves_fresh: "list_all (serves cid fd) es \<Longrightarrow> fresh_from fds es"
proof (induction es arbitrary: fds)
  case (Cons e es)
  then show ?case by (cases e) (auto simp: serves_def)
qed simp

text \<open>Events that change no client's bytes or callbacks.\<close>

definition keeps_streams :: "'m event \<Rightarrow> bool" where
  "keeps_streams e \<longleftrightarrow> plain e \<or> (case e of Ev_socket _ \<Rightarrow> True | Ev_close _ \<Rightarrow> True | Ev_del_client _ \<Rightarrow> True | _ \<Rightarrow> False)"

lemma keeps_streams_simps [simp]:
  "keeps_streams (Ev_socket fd)" "keeps_streams (Ev_close fd)" "keeps_streams (Ev_del_client cid)"
  by (simp_all add: keeps_streams_def)

lemma keeps_streams_plain: "plain e \<Longrightarrow> keeps_streams e"
  by (simp add: keeps_streams_def)

lemma keeps_streams_tuning: "tuning e \<Longrightarrow> keeps_streams e"
  by (simp add: keeps_streams_plain plain_tuning)

lemma keeps_streams_events:
  assumes "list_all keeps_streams es"
  shows "cn_bytes (foldl conn_step c es) = cn_bytes c" and "dispatched es = []"
proof -
  have "cn_bytes (conn_step c e) = cn_bytes c" "dispatched [e] = []" if "keeps_streams e" for c and e :: "'a event"
    using that by (cases e; simp add: keeps_streams_def conn_step_def dispatched_def)+
  then show "cn_bytes (foldl conn_step c es) = cn_bytes c" and "dispatched es = []"
    using assms by (induction es arbitrary: c) (auto simp: dispatched_def)
qed

section \<open>The invariant of the connections\<close>

text \<open>The callbacks of a client are those of the frames of its bytes.\<close>

definition stream_ok :: "('w, 'm) gep_env \<Rightarrow> proto \<Rightarrow> 'm event list \<Rightarrow> int \<Rightarrow> bool" where
  "stream_ok E p tr cid \<longleftrightarrow>
     callbacks_for cid tr = deliver_all E p cid (fst (parse_frames (pr_magic p) (client_bytes cid tr)))"

text \<open>A channel of the vector owns its descriptor and holds the unfinished end of its bytes.\<close>

definition conn_ok :: "('w, 'm) gep_env \<Rightarrow> proto \<Rightarrow> 'm event list \<Rightarrow> channel \<Rightarrow> bool" where
  "conn_ok E p tr ch \<longleftrightarrow>
     cn_owner (conns_of tr) (ch_socket ch) = Some (ch_id ch) \<and> ch_socket ch \<in> open_fds tr \<and>
     (\<exists>fs. parse_frames (pr_magic p) (client_bytes (ch_id ch) tr) = (fs, More (content ch)) \<and>
        list_all (accepts E p) fs)"

definition conns_inv :: "('w, 'm) gep_env \<Rightarrow> proto \<Rightarrow> carray \<Rightarrow> 'm event list \<Rightarrow> bool" where
  "conns_inv E p a tr \<longleftrightarrow>
     (\<forall>cid. stream_ok E p tr cid) \<and> (\<forall>ch \<in> set (ca_channels a). conn_ok E p tr ch) \<and>
     distinct (map ch_socket (ca_channels a)) \<and> (\<forall>cid \<ge> ca_last_id a. client_bytes cid tr = []) \<and>
     (0 \<le> ca_server_socket a \<longrightarrow> ca_server_socket a \<in> open_fds tr \<and>
        ca_server_socket a \<notin> ch_socket ` set (ca_channels a))"

lemma conns_invD:
  assumes "conns_inv E p a tr"
  shows "stream_ok E p tr cid" and "ch \<in> set (ca_channels a) \<Longrightarrow> conn_ok E p tr ch"
    and "distinct (map ch_socket (ca_channels a))" and "ca_last_id a \<le> cid \<Longrightarrow> client_bytes cid tr = []"
    and "0 \<le> ca_server_socket a \<Longrightarrow> ca_server_socket a \<in> open_fds tr"
    and "0 \<le> ca_server_socket a \<Longrightarrow> ch \<in> set (ca_channels a) \<Longrightarrow> ch_socket ch \<noteq> ca_server_socket a"
  using assms unfolding conns_inv_def by (auto simp: image_iff)

lemma stream_ok_same:
  "cn_bytes (conns_of tr') = cn_bytes (conns_of tr) \<Longrightarrow> dispatched tr' = dispatched tr \<Longrightarrow>
   stream_ok E p tr' cid = stream_ok E p tr cid"
  by (simp add: stream_ok_def callbacks_for_def client_bytes_def)

lemma conns_inv_same:
  "conns_of tr' = conns_of tr \<Longrightarrow> open_fds tr' = open_fds tr \<Longrightarrow> dispatched tr' = dispatched tr \<Longrightarrow>
   conns_inv E p a tr' = conns_inv E p a tr"
  by (simp add: conns_inv_def stream_ok_def conn_ok_def callbacks_for_def client_bytes_def)

lemma conns_inv_plain: "list_all plain es \<Longrightarrow> conns_inv E p a (tr @ es) = conns_inv E p a tr"
  by (rule conns_inv_same) (simp_all add: conns_of_append open_fds_append plain_events)

text \<open>With no channel, the invariant is about the past clients and the listening socket only.\<close>

lemma conns_inv_none:
  assumes "conns_inv E p a tr" and "list_all keeps_streams es" and "ca_channels a' = []"
    and "ca_last_id a' = ca_last_id a" and "0 \<le> ca_server_socket a' \<Longrightarrow> ca_server_socket a' \<in> open_fds (tr @ es)"
  shows "conns_inv E p a' (tr @ es)"
proof -
  have b: "cn_bytes (conns_of (tr @ es)) = cn_bytes (conns_of tr)" "dispatched (tr @ es) = dispatched tr"
    using keeps_streams_events [OF assms(2)] by (simp_all add: conns_of_append)
  then have "stream_ok E p (tr @ es) cid" for cid
    using conns_invD(1) [OF assms(1)] stream_ok_same [OF b, of E p cid] by simp
  then show ?thesis
    using assms b(1) by (simp add: conns_inv_def client_bytes_def)
qed

text \<open>Closing the descriptor of a channel that has left the vector.\<close>

lemma conns_inv_close:
  assumes "conns_inv E p a tr" and "\<forall>ch \<in> set (ca_channels a). ch_socket ch \<noteq> fd"
    and "ca_server_socket a \<noteq> fd"
  shows "conns_inv E p a (tr @ [Ev_close fd])"
proof -
  have b: "cn_bytes (conns_of (tr @ [Ev_close fd])) = cn_bytes (conns_of tr)"
    "dispatched (tr @ [Ev_close fd]) = dispatched tr"
    "open_fds (tr @ [Ev_close fd]) = open_fds tr - {fd}"
    "cn_owner (conns_of (tr @ [Ev_close fd])) = (cn_owner (conns_of tr))(fd := None)"
    by (simp_all add: conns_of_append open_fds_append conn_step_def open_step_def)
  show ?thesis
    using assms b unfolding conns_inv_def conn_ok_def stream_ok_same [OF b(1,2)] client_bytes_def by auto
qed

section \<open>A receive\<close>

lemma deliver_all_ids: "d \<in> set (deliver_all E p cid fs) \<Longrightarrow> fst d = cid"
  by (auto simp: deliver_all_def deliver_def split: option.splits)

text \<open>
  A receive on a connection that has brought the bytes \<open>old\<close> so far: its callbacks are those of
  the frames that the new bytes complete.
\<close>

lemma receive_frames:
  assumes "callbacks_quiet E" and "recv_post E p ch w ret bs r ch' w'" and "chan_idle p ch"
    and "w_trace w' = w_trace w @ es"
    and "parse_frames (pr_magic p) old = (fs, More (content ch))" and "list_all (accepts E p) fs"
  shows "received_on (ch_socket ch) es = bs"
    and "\<exists>gs e. parse_frames (pr_magic p) (old @ bs) = (fs @ gs, e) \<and>
      dispatched es = deliver_all E p (ch_id ch) gs \<and>
      deliver_all E p (ch_id ch) (fs @ gs) = deliver_all E p (ch_id ch) fs @ deliver_all E p (ch_id ch) gs \<and>
      (r = 0 \<longrightarrow> same_conn ch ch' \<and> e = More (content ch') \<and> list_all (accepts E p) (fs @ gs))"
proof -
  show "received_on (ch_socket ch) es = bs" using assms(1,2,4) by (simp add: recv_post_def)
  obtain gs e where gs: "parse_frames (pr_magic p) (content ch @ bs) = (gs, e)" by fastforce
  have "dispatched es = deliver_all E p (ch_id ch) gs"
  proof (cases "ret > 0")
    case True
    then show ?thesis using assms(1,2,4) gs by (simp add: recv_post_def)
  next
    case False
    then have "gs = []" using assms(2,3) gs by (simp add: recv_post_def chan_idle_def)
    then show ?thesis using False assms(2,4) by (simp add: recv_post_def deliver_all_def)
  qed
  moreover have "parse_frames (pr_magic p) (old @ bs) = (fs @ gs, e)"
    using parse_append [of "pr_magic p" old bs] assms(5) gs by simp
  moreover have "same_conn ch ch' \<and> e = More (content ch') \<and> list_all (accepts E p) (fs @ gs)" if "r = 0"
    using sock.RecvData_idle [OF assms(2,3) that] gs assms(6) by simp
  ultimately show "\<exists>gs e. parse_frames (pr_magic p) (old @ bs) = (fs @ gs, e) \<and>
      dispatched es = deliver_all E p (ch_id ch) gs \<and>
      deliver_all E p (ch_id ch) (fs @ gs) = deliver_all E p (ch_id ch) fs @ deliver_all E p (ch_id ch) gs \<and>
      (r = 0 \<longrightarrow> same_conn ch ch' \<and> e = More (content ch') \<and> list_all (accepts E p) (fs @ gs))"
    using sock.deliver_all_append [OF assms(6)] by blast
qed

text \<open>
  What a receive does to the streams: the owner's grows by the bytes received, with the
  callbacks of their frames, and the others stay.
\<close>

lemma receive_streams:
  assumes "conns_inv E p a tr" and "ch \<in> set (ca_channels a)" and "callbacks_quiet E"
    and "recv_post E p ch w ret bs r ch' w'" and "chan_idle p ch"
    and "w_trace w = tr" and "w_trace w' = tr @ es" and "list_all (serves (ch_id ch) (ch_socket ch)) es"
  shows "\<forall>cid. stream_ok E p (tr @ es) cid"
    and "cn_owner (conns_of (tr @ es)) = cn_owner (conns_of tr)" and "open_fds (tr @ es) = open_fds tr"
    and "cid \<noteq> ch_id ch \<Longrightarrow> client_bytes cid (tr @ es) = client_bytes cid tr"
    and "r = 0 \<Longrightarrow> conn_ok E p (tr @ es) ch'"
proof -
  let ?i = "ch_id ch" and ?P = "parse_frames (pr_magic p)"
  have own: "cn_owner (conns_of tr) (ch_socket ch) = Some ?i"
    using conns_invD(2) [OF assms(1,2)] by (simp add: conn_ok_def)
  obtain fs where fs: "?P (client_bytes ?i tr) = (fs, More (content ch))" "list_all (accepts E p) fs"
    and opn: "ch_socket ch \<in> open_fds tr"
    using conns_invD(2) [OF assms(1,2)] by (auto simp: conn_ok_def)
  note ev = serves_events [OF assms(8) own]
  have grow: "w_trace w' = w_trace w @ es" using assms(6,7) by simp
  note rec = receive_frames(1) [OF assms(3-5) grow fs]
  obtain gs e where gs: "?P (client_bytes ?i tr @ bs) = (fs @ gs, e)" "dispatched es = deliver_all E p ?i gs"
    "deliver_all E p ?i (fs @ gs) = deliver_all E p ?i fs @ deliver_all E p ?i gs"
    "r = 0 \<longrightarrow> same_conn ch ch' \<and> e = More (content ch') \<and> list_all (accepts E p) (fs @ gs)"
    using receive_frames(2) [OF assms(3-5) grow fs] by blast
  show owner: "cn_owner (conns_of (tr @ es)) = cn_owner (conns_of tr)" and opens: "open_fds (tr @ es) = open_fds tr"
    by (simp_all add: conns_of_append open_fds_append ev)
  have bytes: "client_bytes cid (tr @ es) = (if cid = ?i then client_bytes ?i tr @ bs else client_bytes cid tr)" for cid
    using rec by (simp add: client_bytes_def conns_of_append ev(1))
  then show "cid \<noteq> ?i \<Longrightarrow> client_bytes cid (tr @ es) = client_bytes cid tr" by simp
  have cbs: "callbacks_for cid (tr @ es) = callbacks_for cid tr @ (if cid = ?i then deliver_all E p ?i gs else [])" for cid
    using gs(2) deliver_all_ids [of _ E p ?i gs] by (auto simp: callbacks_for_def filter_id_conv filter_empty_conv)
  show "\<forall>cid. stream_ok E p (tr @ es) cid"
    using conns_invD(1) [OF assms(1)] fs gs(1,3) bytes cbs by (auto simp: stream_ok_def)
  show "conn_ok E p (tr @ es) ch'" if "r = 0"
    using gs(1,4) that own opn bytes owner opens by (simp add: conn_ok_def same_conn_def)
qed

text \<open>
  While a channel that failed is still in the vector, it owns its descriptor, and without it the
  connections are as they should be.
\<close>

definition failing_conns :: "('w, 'm) gep_env \<Rightarrow> proto \<Rightarrow> channel \<Rightarrow> carray \<Rightarrow> 'm event list \<Rightarrow> bool" where
  "failing_conns E p ch a tr \<longleftrightarrow> conns_inv E p (without (ch_id ch) a) tr \<and>
     cn_owner (conns_of tr) (ch_socket ch) = Some (ch_id ch) \<and> ch_socket ch \<in> open_fds tr \<and>
     ch_socket ch \<notin> ch_socket ` set (ca_channels (without (ch_id ch) a)) \<and> ca_server_socket a \<noteq> ch_socket ch"

lemma failing_conns_plain: "list_all plain es \<Longrightarrow> failing_conns E p ch a (tr @ es) = failing_conns E p ch a tr"
  by (simp add: failing_conns_def conns_inv_plain conns_of_append open_fds_append plain_events)

text \<open>Either way each channel of the vector owns its descriptor.\<close>

definition sockets_owned :: "carray \<Rightarrow> 'm event list \<Rightarrow> bool" where
  "sockets_owned a tr \<longleftrightarrow> distinct (map ch_socket (ca_channels a)) \<and>
     (\<forall>ch \<in> set (ca_channels a). ch_socket ch \<in> open_fds tr \<and> ch_socket ch \<noteq> ca_server_socket a \<and>
        cn_owner (conns_of tr) (ch_socket ch) = Some (ch_id ch)) \<and>
     (0 \<le> ca_server_socket a \<longrightarrow> ca_server_socket a \<in> open_fds tr)"

lemma conns_inv_owned:
  assumes "conns_inv E p a tr" and "array_shape a"
  shows "sockets_owned a tr"
proof -
  have "ch_socket ch \<noteq> ca_server_socket a" if "ch \<in> set (ca_channels a)" for ch
    using array_shapeD(2) [OF assms(2) that] conns_invD(6) [OF assms(1) _ that] by force
  then show ?thesis using conns_invD(2,3,5) [OF assms(1)] by (simp add: sockets_owned_def conn_ok_def)
qed

lemma failing_conns_owned:
  assumes "failing_conns E p ch a tr" and "failing_ok q ch a"
  shows "sockets_owned a tr"
proof -
  let ?gone = "without (ch_id ch) a" and ?chs = "ca_channels a"
  have fo: "array_shape a" "ch \<in> set ?chs" "array_shape ?gone"
    using assms(2) by (auto simp: failing_ok_def array_ok_shape)
  have gone: "sockets_owned ?gone tr"
    using assms(1) fo(3) conns_inv_owned by (auto simp: failing_conns_def)
  have f: "cn_owner (conns_of tr) (ch_socket ch) = Some (ch_id ch)" "ch_socket ch \<in> open_fds tr"
    "ch_socket ch \<notin> ch_socket ` set (ca_channels ?gone)" "ca_server_socket a \<noteq> ch_socket ch"
    using assms(1) by (simp_all add: failing_conns_def)
  have dis: "distinct (map ch_id ?chs)" using fo(1) by (simp add: array_shape_def)
  have split: "c = ch \<or> c \<in> set (ca_channels ?gone)" if "c \<in> set ?chs" for c
    using that fo(2) dis by (auto simp: distinct_map inj_on_def)
  have "inj_on ch_socket (set (ca_channels ?gone))" using gone by (simp add: sockets_owned_def distinct_map)
  then have "inj_on ch_socket (insert ch (set (ca_channels ?gone)))" using f(3) by (simp only: inj_on_insert) blast
  then have "inj_on ch_socket (set ?chs)" by (rule inj_on_subset) (use split in blast)
  then have "distinct (map ch_socket ?chs)" using dis by (simp add: distinct_map)
  moreover have "ch_socket c \<in> open_fds tr \<and> ch_socket c \<noteq> ca_server_socket a \<and>
      cn_owner (conns_of tr) (ch_socket c) = Some (ch_id c)" if "c \<in> set ?chs" for c
    using split [OF that] gone f(1,2,4) unfolding sockets_owned_def by auto
  ultimately show ?thesis using gone by (simp add: sockets_owned_def)
qed

text \<open>A receive by the array: the channel that was ready goes on, or it has failed.\<close>

lemma Array_receive_conns:
  assumes "server_env_ok S p" and "callbacks_local (se_chan S)" and "array_ok p a"
    and "Array_receive S p fds a w = Some (failed, a', w')"
  shows "\<exists>es. w_trace w' = w_trace w @ es \<and> (conns_inv (se_chan S) p a (w_trace w) \<longrightarrow>
    (case failed of None \<Rightarrow> conns_inv (se_chan S) p a' (w_trace w @ es)
     | Some ch' \<Rightarrow> failing_conns (se_chan S) p ch' a' (w_trace w @ es)))"
proof (cases "find (\<lambda>ch. ch_socket ch \<in> fds) (ca_channels a)")
  case None
  then show ?thesis using Array_receive_result [OF assms(1,3), of fds w] assms(4) by auto
next
  case (Some ch)
  let ?E = "se_chan S" and ?chs = "ca_channels a"
  note env = server_env_okD(1) [OF assms(1)]
  have ch: "ch \<in> set ?chs" using Some by (auto simp: find_Some_iff)
  note idle = array_okD [OF assms(3) ch]
  have room: "chan_room ch" using idle(2) by (simp add: chan_idle_def)
  obtain ret bs r ch' where rd: "RecvData ?E p ch w = Some (r, ch', w')"
    and post: "recv_post ?E p ch w ret bs r ch' w'"
    and res: "ca_last_id a' = ca_last_id a" "ca_server_socket a' = ca_server_socket a"
      "ca_channels a' = update_channel ch' ?chs" "failed = (if r = 0 then None else Some ch')"
    using sock.RecvData_post [OF channel_env_okD(2-4) [OF env] room idle(3), of w]
      Array_receive_result [OF assms(1,3), of fds w] assms(4) Some by auto
  obtain es where es: "w_trace w' = w_trace w @ es" "list_all (serves (ch_id ch) (ch_socket ch)) es"
    using RecvData_serves [OF env assms(2) rd] by (auto simp: grows_def)
  have same: "ch_id ch' = ch_id ch" "ch_socket ch' = ch_socket ch" using post by (auto simp: recv_post_def same_conn_def)
  have "distinct (map ch_id ?chs)" using assms(3) by (simp add: array_ok_def)
  then have ids: "c = d" if "c \<in> set ?chs" "d \<in> set ?chs" "ch_id c = ch_id d" for c d
    using that by (auto simp: distinct_map inj_on_def)
  have sockets: "map ch_socket (update_channel ch' ?chs) = map ch_socket ?chs"
    using same ids ch by (auto simp: update_channel_def)
  have "case failed of None \<Rightarrow> conns_inv ?E p a' (w_trace w') | Some ch' \<Rightarrow> failing_conns ?E p ch' a' (w_trace w')"
    if c: "conns_inv ?E p a (w_trace w)"
  proof -
    note rs = receive_streams [OF c ch callbacks_local_quiet [OF assms(2)] post idle(2) refl es]
    have others: "conn_ok ?E p (w_trace w') c" if "c \<in> set ?chs" "ch_id c \<noteq> ch_id ch" for c
      using conns_invD(2) [OF c that(1)] rs(2,3) rs(4) [OF that(2)] by (simp add: conn_ok_def es(1))
    have late: "client_bytes cid (w_trace w') = []" if "ca_last_id a \<le> cid" for cid
      using that rs(4) [of cid] assms(3) ch conns_invD(4) [OF c that] by (auto simp: array_ok_def es(1))
    show ?thesis
    proof (cases "r = 0")
      case True
      from sockets have "ch_socket ` set (update_channel ch' ?chs) = ch_socket ` set ?chs" by (metis list.set_map)
      moreover have "\<forall>c \<in> set (update_channel ch' ?chs). conn_ok ?E p (w_trace w') c"
        using others rs(5) [OF True] same by (auto simp: update_channel_def es(1))
      ultimately show ?thesis
        using rs(1,3) sockets late c res True unfolding conns_inv_def es(1) by simp
    next
      case False
      have gone: "ca_channels (without (ch_id ch') a') = filter (\<lambda>c. ch_id c \<noteq> ch_id ch) ?chs"
        using filter_update [of ch' ?chs] by (simp add: res(3) same)
      from arg_cong [OF this, of set] have left: "{c \<in> set (ca_channels a'). ch_id c \<noteq> ch_id ch} = {c \<in> set ?chs. ch_id c \<noteq> ch_id ch}"
        by (simp add: same)
      have "conns_inv ?E p (without (ch_id ch') a') (w_trace w')"
        using rs(1,3) others late c unfolding conns_inv_def es(1) gone by (auto simp: distinct_map_filter res)
      moreover have "ch_socket ch \<notin> ch_socket ` set (filter (\<lambda>c. ch_id c \<noteq> ch_id ch) ?chs)"
        using conns_invD(3) [OF c] ch by (auto simp: distinct_map inj_on_def)
      moreover have "ca_server_socket a' \<noteq> ch_socket ch"
        using conns_invD(6) [OF c _ ch] idle(3) res(2) by fastforce
      ultimately show ?thesis
        using conns_invD(2) [OF c ch] rs(2,3) False res(4)
        by (simp add: failing_conns_def left same es(1) conn_ok_def)
    qed
  qed
  then show ?thesis using es(1) by (metis (no_types))
qed

text \<open>Dropping the channel that failed closes its descriptor, which is no one else's.\<close>

lemma drop_channel_conns:
  assumes "hooks_local S" and "failing_ok p ch a" and "drop_channel S ch a w = (a', w')"
  shows "\<exists>es. w_trace w' = w_trace w @ es \<and> (failing_conns (se_chan S) p ch a (w_trace w) \<longrightarrow>
    conns_inv (se_chan S) p a' (w_trace w @ es))"
proof -
  let ?E = "se_chan S" and ?gone = "without (ch_id ch) a"
  have fo: "array_shape a" "ch \<in> set (ca_channels a)" using assms(2) by (simp_all add: failing_ok_def)
  have "erase_channel (ch_id ch) (ca_channels a) = filter (\<lambda>c. ch_id c \<noteq> ch_id ch) (ca_channels a)"
    using fo(1) by (intro erase_filter) (simp add: array_shape_def)
  then have eq: "a' = ?gone" "w' = GepChannel_destroy ?E ch (DelClient S (ch_id ch) w)"
    using fo(2) assms(3) by (auto simp: drop_channel_def without_def split: if_splits)
  obtain es where es: "list_all plain es" "w_trace w' = w_trace w @ Ev_del_client (ch_id ch) # es @ [Ev_close (ch_socket ch)]"
    using drop_trace [OF assms(1) [unfolded hooks_local_def] array_shapeD(4) [OF fo], of "ch_id ch" w] eq(2) by auto
  have "conns_inv ?E p ?gone (w_trace w')" if f: "failing_conns ?E p ch a (w_trace w)"
  proof -
    have "conns_inv ?E p ?gone (w_trace w @ [Ev_del_client (ch_id ch)])"
      using f by (subst conns_inv_same [of _ "w_trace w"])
        (simp_all add: failing_conns_def conns_of_append open_fds_append conn_step_def open_step_def)
    then have "conns_inv ?E p ?gone ((w_trace w @ [Ev_del_client (ch_id ch)]) @ es)"
      using conns_inv_plain [OF es(1)] by blast
    moreover have "\<forall>c \<in> set (ca_channels ?gone). ch_socket c \<noteq> ch_socket ch" "ca_server_socket ?gone \<noteq> ch_socket ch"
      using f by (auto simp: failing_conns_def image_iff)
    ultimately have "conns_inv ?E p ?gone (((w_trace w @ [Ev_del_client (ch_id ch)]) @ es) @ [Ev_close (ch_socket ch)])"
      by (rule conns_inv_close)
    then show ?thesis by (simp add: es(2))
  qed
  then show ?thesis using es(2) eq(1) by auto
qed

section \<open>A new client\<close>

lemma AcceptConnection_conns:
  assumes "server_env_ok S p" and "hooks_local S" and "conns_inv (se_chan S) p a (w_trace w)"
    and "AcceptConnection S a w = Some (r, a', w')"
  shows "\<exists>es. w_trace w' = w_trace w @ es \<and>
    (fresh_from (open_fds (w_trace w)) es \<longrightarrow> conns_inv (se_chan S) p a' (w_trace w @ es))"
proof -
  let ?E = "se_chan S" and ?l = "ca_server_socket a" and ?tr = "w_trace w"
  obtain fd es where fd: "fst (Raw_Accept (e_os ?E) ?l w) = fd" "list_all plain es"
    and c: "a' = a \<and> w_trace w' = ?tr @ Ev_accept ?l fd # es \<or>
      fd \<noteq> -1 \<and> ca_last_id a' = ca_last_id a + 1 \<and> ca_server_socket a' = ?l \<and>
        ca_channels a' = ca_channels a @ [GepChannel_new ?E (ca_last_id a) fd] \<and>
        (\<exists>es'. list_all plain es' \<and> w_trace w' = ?tr @ Ev_accept ?l fd # es @ Ev_add_client (ca_last_id a) # es')"
    using AcceptConnection_trace [OF assms(4) assms(2) [unfolded hooks_local_def] plain_tuning server_env_okD(3) [OF assms(1)]] by blast
  have lo: "- 1 \<le> fd"
    using Raw_Accept_fd [OF server_env_okD(4) [OF assms(1)]] fd(1) by (metis prod.collapse)
  let ?acc = "?tr @ [Ev_accept ?l fd]"
  have acc: "conns_of ?acc = (conns_of ?tr)\<lparr>cn_pending := fd, cn_owner := (cn_owner (conns_of ?tr))(fd := None)\<rparr>"
    "open_fds ?acc = (if fd < 0 then open_fds ?tr else insert fd (open_fds ?tr))" "dispatched ?acc = dispatched ?tr"
    by (simp_all add: conns_of_append open_fds_append conn_step_def open_step_def dispatched_def)
  have new: "ch_socket ch \<noteq> fd" if "fd \<notin> open_fds ?tr" "ch \<in> set (ca_channels a)" for ch
    using conns_invD(2) [OF assms(3) that(2)] that(1) by (auto simp: conn_ok_def)
  have inv1: "conns_inv ?E p a ?acc" if "fd \<notin> open_fds ?tr"
    using assms(3) new [OF that] acc
    by (auto simp: conns_inv_def conn_ok_def stream_ok_def client_bytes_def callbacks_for_def)
  from c show ?thesis
  proof (elim disjE conjE exE)
    assume "a' = a" and t: "w_trace w' = ?tr @ Ev_accept ?l fd # es"
    moreover have "conns_inv ?E p a (?tr @ Ev_accept ?l fd # es)" if "fd \<notin> open_fds ?tr"
      using inv1 [OF that] conns_inv_plain [OF fd(2), of ?E p a ?acc] by simp
    ultimately show ?thesis by (intro exI [of _ "Ev_accept ?l fd # es"]) simp
  next
    fix es'
    assume a': "fd \<noteq> -1" "ca_last_id a' = ca_last_id a + 1" "ca_server_socket a' = ?l"
      "ca_channels a' = ca_channels a @ [GepChannel_new ?E (ca_last_id a) fd]"
      and t: "list_all plain es'" "w_trace w' = ?tr @ Ev_accept ?l fd # es @ Ev_add_client (ca_last_id a) # es'"
    obtain tr1 where tr1: "tr1 = (?acc @ es) @ [Ev_add_client (ca_last_id a)]" by blast
    have add: "conns_of tr1 = (conns_of ?acc)\<lparr>cn_owner := (cn_owner (conns_of ?acc))(fd \<mapsto> ca_last_id a),
        cn_bytes := (cn_bytes (conns_of ?acc))(ca_last_id a := [])\<rparr>"
      "open_fds tr1 = open_fds ?acc" "dispatched tr1 = dispatched ?acc"
      using fd(2) acc(1) by (simp_all add: tr1 conns_of_append open_fds_append conn_step_def open_step_def plain_events)
    have "conns_inv ?E p a' tr1" if f: "fd \<notin> open_fds ?tr"
    proof -
      note inv = inv1 [OF f]
      have bytes: "client_bytes cid tr1 = client_bytes cid ?acc" for cid
        using conns_invD(4) [OF inv, of "ca_last_id a"] by (simp add: client_bytes_def add(1))
      then have "stream_ok ?E p tr1 cid" for cid
        using conns_invD(1) [OF inv, of cid] by (simp add: stream_ok_def callbacks_for_def add(3))
      moreover have "conn_ok ?E p tr1 ch" if "ch \<in> set (ca_channels a)" for ch
        using conns_invD(2) [OF inv that] new [OF f that] bytes by (simp add: conn_ok_def add(1,2))
      moreover have "conn_ok ?E p tr1 (GepChannel_new ?E (ca_last_id a) fd)"
        using bytes conns_invD(4) [OF inv, of "ca_last_id a"] a'(1) lo acc(2)
        by (simp add: conn_ok_def add(1,2) GepChannel_new_def content_def parse_short)
      moreover have "?l \<noteq> fd" if "0 \<le> ?l" using conns_invD(5) [OF assms(3) that] f by auto
      ultimately show ?thesis
        using a' bytes inv new [OF f] by (auto simp: conns_inv_def add(2) GepChannel_new_def)
    qed
    then have "conns_inv ?E p a' (w_trace w')" if "fd \<notin> open_fds ?tr"
      using conns_inv_plain [OF t(1), of ?E p a' tr1] that t(2) tr1 by simp
    then show ?thesis
      using t(2) by (intro exI [of _ "Ev_accept ?l fd # es @ Ev_add_client (ca_last_id a) # es'"]) simp
  qed
qed

end
