(* ===== verification/Gep_Server_Streams.thy ===== *)
theory Gep_Server_Streams
  imports Gep_Connections
begin

text \<open>
  The invariant of the connections over the runs of a server: every step of every interleaving
  keeps it, as long as the kernel gives out descriptors that are not open.
\<close>

section \<open>The service socket\<close>

lemma grows_any: "grows Q w w' \<Longrightarrow> grows (\<lambda>_. True) w w'"
  by (erule grows_mono) simp

lemma open_fds_opens:
  assumes "opens fd w w'" and "grows Q w w'" and "0 \<le> fd"
  shows "fd \<in> open_fds (w_trace w')"
proof -
  obtain es where es: "w_trace w' = w_trace w @ es" using assms(2) by (auto simp: grows_def)
  then have "closed_fds es = []" "opened_fds es = [fd]" using assms(1,3) by (simp_all add: opens_def)
  moreover have "closed_fds es = [] \<Longrightarrow> foldl open_step fds es = fds \<union> set (opened_fds es)" for fds and es :: "'b event list"
    by (induction es arbitrary: fds) (auto simp: open_step_def closed_fds_def opened_fds_def split: event.splits if_splits)
  ultimately show ?thesis by (simp add: es open_fds_append)
qed

lemma hooks_grow_streams: "hooks_local S \<Longrightarrow> hooks_grow keeps_streams S"
  unfolding hooks_local_def hooks_grow_def using grows_mono keeps_streams_plain by blast

section \<open>Every step adds to the trace\<close>

lemma Server_Send_plain:
  assumes "server_inv S (s, w)"
  shows "Server_Send S msg s w = Some (r, w') \<Longrightarrow> grows plain w w'"
    and "Server_SendTo S msg cid s w = Some (r, w') \<Longrightarrow> grows plain w w'"
proof -
  note env = server_env_okD(1) [OF server_invD(1) [OF assms]]
  have one: "grows plain w w'" if "SendMessage (se_chan S) (sv_proto s) ch msg w = Some (r, w')" for ch w r w'
    using SendMessage_prefix [OF env that] sends_plain by (auto simp: send_post_def)
  have each: "send_each (se_chan S) (sv_proto s) msg chs ret w = Some (r, w') \<Longrightarrow> grows plain w w'" for chs ret w
  proof (induction chs arbitrary: ret w)
    case (Cons ch chs)
    then show ?case using one by (fastforce split: if_splits bind_splits intro: grows_trans)
  qed simp
  then show "Server_Send S msg s w = Some (r, w') \<Longrightarrow> grows plain w w'"
    by (simp add: Server_Send_def Array_SendMessage_def)
  have "send_one (se_chan S) (sv_proto s) msg cid chs w = Some (r, w') \<Longrightarrow> grows plain w w'" for chs
    using one by (induction chs) (auto split: if_splits)
  then show "Server_SendTo S msg cid s w = Some (r, w') \<Longrightarrow> grows plain w w'"
    by (simp add: Server_SendTo_def Array_SendMessageTo_def)
qed

lemma Server_select_grows: "Server_select S fd s w = Some (pc, w') \<Longrightarrow> grows plain w w'"
  by (auto simp: Server_select_def Let_def split: bind_splits prod.splits dest: settings_plain(7))

section \<open>Every step keeps the connections\<close>

text \<open>
  What holds of a state of a server while descriptors are fresh. The protocol changes its port
  only, which no stream depends on.
\<close>

definition serving_conns :: "('w, 'm) server_env \<Rightarrow> server \<Rightarrow> 'm event list \<Rightarrow> bool" where
  "serving_conns S s tr \<longleftrightarrow>
     (case sv_pc s of
        S_Drop fd fds ch \<Rightarrow> failing_conns (se_chan S) (sv_proto s) ch (sv_array s) tr
      | _ \<Rightarrow> conns_inv (se_chan S) (sv_proto s) (sv_array s) tr)"

definition streams_inv :: "('w, 'm) server_env \<Rightarrow> server \<times> ('w, 'm) world \<Rightarrow> bool" where
  "streams_inv S = (\<lambda>(s, w). fds_fresh (w_trace w) \<longrightarrow> serving_conns S s (w_trace w))"

lemma serving_conns_array:
  "\<not> is_S_Drop (sv_pc s) \<Longrightarrow>
    serving_conns S s tr \<longleftrightarrow> conns_inv (se_chan S) (sv_proto s) (sv_array s) tr"
  by (cases "sv_pc s") (simp_all add: serving_conns_def)

lemma serving_conns_owned: "serving_conns S s tr \<Longrightarrow> serving_ok s \<Longrightarrow> sockets_owned (sv_array s) tr"
  by (cases "sv_pc s")
    (auto simp: serving_conns_def serving_ok_def conns_inv_owned array_ok_shape failing_conns_owned)

lemma serving_conns_streams: "serving_conns S s tr \<Longrightarrow> stream_ok (se_chan S) (sv_proto s) tr cid"
  by (cases "sv_pc s") (auto simp: serving_conns_def failing_conns_def conns_invD(1))

lemma serving_conns_plain:
  assumes "list_all plain es" and "sv_pc s' = sv_pc s \<or> \<not> is_S_Drop (sv_pc s) \<and> \<not> is_S_Drop (sv_pc s')"
    and "sv_array s' = sv_array s" and "sv_proto s' = sv_proto s"
  shows "serving_conns S s' (tr @ es) = serving_conns S s tr"
proof (cases "is_S_Drop (sv_pc s)")
  case True
  then show ?thesis
    using assms by (cases "sv_pc s") (simp_all add: serving_conns_def failing_conns_plain)
next
  case False
  then show ?thesis using assms by (auto simp: serving_conns_array conns_inv_plain)
qed

lemma SetPort_twice: "SetPort n (SetPort m p) = SetPort n p"
  by (simp add: SetPort_def)

lemma SetPort_streams [simp]:
  "deliver_all E (SetPort n p) = deliver_all E p" "conns_inv E (SetPort n p) = conns_inv E p"
  "stream_ok E (SetPort n p) = stream_ok E p"
proof -
  have u: "Unserialize pb (SetPort n p) = Unserialize pb p" for pb
    by (intro ext) (simp add: SetPort_def Unserialize_def)
  have a: "accepts E (SetPort n p) = accepts E p" "deliver E (SetPort n p) = deliver E p"
    by (simp_all add: fun_eq_iff accepts_def deliver_def u [THEN fun_cong, THEN fun_cong, THEN eq_reflection] cong del: option.case_cong_weak)
  have m: "pr_magic (SetPort n p) = pr_magic p" by (simp add: SetPort_def)
  show d: "deliver_all E (SetPort n p) = deliver_all E p" by (intro ext) (simp add: deliver_all_def a)
  show "conns_inv E (SetPort n p) = conns_inv E p"
    by (intro ext) (simp add: conns_inv_def stream_ok_def conn_ok_def a d m)
  show "stream_ok E (SetPort n p) = stream_ok E p"
    by (intro ext) (simp add: stream_ok_def d m)
qed

text \<open>A step keeps the streams when it adds to the trace and keeps them on fresh descriptors.\<close>

lemma streams_inv_grows:
  assumes "streams_inv S (s, w)" and "w_trace w' = w_trace w @ es"
    and "serving_conns S s (w_trace w) \<Longrightarrow> fresh_from (open_fds (w_trace w)) es \<Longrightarrow>
      serving_conns S s' (w_trace w')"
  shows "streams_inv S (s', w')"
  using assms by (simp add: streams_inv_def fds_fresh_append)

lemma streams_inv_plain:
  assumes "streams_inv S (s, w)" and "grows plain w w'" and "sv_array s' = sv_array s" and "sv_proto s' = sv_proto s"
    and "sv_pc s' = sv_pc s \<or> \<not> is_S_Drop (sv_pc s) \<and> \<not> is_S_Drop (sv_pc s')"
  shows "streams_inv S (s', w')"
proof -
  obtain es where es: "w_trace w' = w_trace w @ es" "list_all plain es" using assms(2) by (auto simp: grows_def)
  show ?thesis
    by (rule streams_inv_grows [OF assms(1) es(1)]) (simp add: es serving_conns_plain [OF es(2) assms(5,3,4)])
qed

lemma Server_Start_streams:
  assumes "server_inv S (s, w)" and "streams_inv S (s, w)" and "sv_pc s = S_None"
    and "Server_Start S s w = Some (r, s', w')"
  shows "streams_inv S (s', w')"
proof -
  note inv = server_invD [OF assms(1)]
  have none: "ca_channels (sv_array s) = []" using inv(4) assms(3) by (simp add: pc_ok_def)
  obtain q p' a' w1 where o: "OpenServerSocket S (sv_proto s) (sv_array s) w = Some (q, p', a', w1)"
    and d: "q = -1 \<and> p' = sv_proto s \<and> a' = sv_array s \<and>
       (\<exists>fds. opened_fds (w_trace w1) = opened_fds (w_trace w) @ fds \<and>
          closed_fds (w_trace w1) = closed_fds (w_trace w) @ fds) \<or>
     (\<exists>fd. q = 0 \<and> 0 \<le> fd \<and> fd < FD_SETSIZE \<and> a' = (sv_array s)\<lparr>ca_server_socket := fd\<rparr> \<and>
        p' = SetPort (pr_port p') (sv_proto s) \<and> (pr_port (sv_proto s) \<noteq> 0 \<longrightarrow> p' = sv_proto s) \<and> opens fd w w1)"
    using OpenServerSocket_result [OF inv(1)] by blast
  have s': "w' = w1" "sv_proto s' = p'" "sv_array s' = a'"
    using assms(3,4) o by (auto simp: Server_Start_def Let_def split: if_splits)
  have g: "grows keeps_streams w w1" by (rule OpenServerSocket_grows [OF o server_env_okD(3) [OF inv(1)] keeps_streams_tuning]) simp_all
  then obtain es where es: "w_trace w' = w_trace w @ es" "list_all keeps_streams es"
    by (auto simp: grows_def s'(1))
  have pc: "\<not> is_S_Drop (sv_pc s')"
    using assms(3,4) o by (auto simp: Server_Start_def Let_def split: if_splits)
  show ?thesis
    using assms(2) es(1)
  proof (rule streams_inv_grows)
    assume "serving_conns S s (w_trace w)"
    then have c: "conns_inv (se_chan S) (sv_proto s) (sv_array s) (w_trace w)"
      using assms(3) by (simp add: serving_conns_array)
    note keep = conns_inv_none [OF c es(2), of a', folded es(1)]
    have p': "conns_inv (se_chan S) p' = conns_inv (se_chan S) (sv_proto s)"
      using d SetPort_streams(2) by metis
    show "serving_conns S s' (w_trace w')"
      unfolding serving_conns_array [OF pc] s'(2,3) p' using d
    proof (elim disjE exE conjE)
      assume "a' = sv_array s"
      then show "conns_inv (se_chan S) (sv_proto s) a' (w_trace w')"
        using none inv(4) assms(3) by (intro keep) (simp_all add: pc_ok_def)
    next
      fix fd assume "0 \<le> fd" "a' = (sv_array s)\<lparr>ca_server_socket := fd\<rparr>" "opens fd w w1"
      then show "conns_inv (se_chan S) (sv_proto s) a' (w_trace w')"
        using none open_fds_opens [OF _ g] s'(1) by (intro keep) simp_all
    qed
  qed
qed

lemma thread_step_streams:
  assumes "server_inv S (s, w)" and "callbacks_local (se_chan S)" and "hooks_local S"
    and "streams_inv S (s, w)" and "sv_pc s \<noteq> S_None" and "Server_RunThread S s w = Some (s', w')"
  shows "streams_inv S (s', w')"
proof -
  note inv = server_invD [OF assms(1)]
  note keep = streams_inv_plain [OF assms(4)]
  show ?thesis
  proof (cases "sv_pc s")
    case (S_Select fd)
    then obtain pc where sel: "Server_select S fd s w = Some (pc, w')" "s' = s\<lparr>sv_pc := pc\<rparr>"
      using assms(6) by (auto simp: Server_RunThread_def split: bind_splits)
    then have "\<not> is_S_Drop pc" by (auto simp: Server_select_def Let_def split: bind_splits prod.splits if_splits)
    then show ?thesis using S_Select sel by (auto intro!: keep Server_select_grows)
  next
    case (S_Recv fd fds)
    then obtain failed a where r: "Array_receive S (sv_proto s) fds (sv_array s) w = Some (failed, a, w')"
      and s': "sv_array s' = a" "sv_proto s' = sv_proto s"
        "sv_pc s' = (case failed of None \<Rightarrow> S_Check2 fd fds | Some ch \<Rightarrow> S_Drop fd fds ch)"
      using assms(6) by (auto simp: Server_RunThread_def split: bind_splits)
    have nd: "\<not> is_S_Drop (sv_pc s)" using S_Recv by simp
    obtain es where es: "w_trace w' = w_trace w @ es"
      "conns_inv (se_chan S) (sv_proto s) (sv_array s) (w_trace w) \<longrightarrow>
       (case failed of None \<Rightarrow> conns_inv (se_chan S) (sv_proto s) a (w_trace w @ es)
        | Some ch \<Rightarrow> failing_conns (se_chan S) (sv_proto s) ch a (w_trace w @ es))"
      using Array_receive_conns [OF inv(1) assms(2) inv(2) [OF nd] r] by blast
    show ?thesis
      using assms(4) es(1)
      by (rule streams_inv_grows) (use es s' nd in \<open>auto simp: serving_conns_def split: option.splits server_pc.splits\<close>)
  next
    case (S_Drop fd fds ch)
    then have fo: "failing_ok (sv_proto s) ch (sv_array s)"
      using assms(1) by (simp add: server_inv_def serving_ok_def)
    obtain a where dr: "drop_channel S ch (sv_array s) w = (a, w')"
      and s': "sv_array s' = a" "sv_proto s' = sv_proto s" "sv_pc s' = S_Check2 fd fds"
      using assms(6) S_Drop by (auto simp: Server_RunThread_def Let_def split: prod.splits)
    obtain es where es: "w_trace w' = w_trace w @ es"
      "failing_conns (se_chan S) (sv_proto s) ch (sv_array s) (w_trace w) \<longrightarrow>
       conns_inv (se_chan S) (sv_proto s) a (w_trace w @ es)"
      using drop_channel_conns [OF assms(3) fo dr] by blast
    show ?thesis
      using assms(4) es(1)
      by (rule streams_inv_grows) (use es s' S_Drop in \<open>auto simp: serving_conns_def\<close>)
  next
    case (S_Accept fd fds)
    then have fd: "ca_server_socket (sv_array s) = fd" "0 \<le> fd" and nd: "\<not> is_S_Drop (sv_pc s)"
      using inv(4) by (auto simp: pc_ok_def)
    obtain isset where i: "FD_ISSET fd fds = Some isset"
      using fd inv(2) [OF nd] by (auto simp: FD_ISSET_def array_ok_def)
    show ?thesis
    proof (cases isset)
      case False
      then show ?thesis using assms(6) S_Accept i by (auto simp: Server_RunThread_def intro: keep)
    next
      case True
      then obtain r a where ac: "AcceptConnection S (sv_array s) w = Some (r, a, w')"
        and s': "sv_array s' = a" "sv_proto s' = sv_proto s" "\<not> is_S_Drop (sv_pc s')"
        using assms(6) S_Accept i by (auto simp: Server_RunThread_def split: bind_splits)
      have "\<exists>es. w_trace w' = w_trace w @ es"
        using AcceptConnection_trace [OF ac assms(3) [unfolded hooks_local_def] plain_tuning server_env_okD(3) [OF inv(1)]] by blast
      then obtain es where es: "w_trace w' = w_trace w @ es" by blast
      show ?thesis
        using assms(4) es
        by (rule streams_inv_grows) (use AcceptConnection_conns [OF inv(1) assms(3) _ ac] es s' nd in \<open>auto simp: serving_conns_array\<close>)
    qed
  qed (use assms(5,6) in \<open>auto simp: Server_RunThread_def Let_def intro!: keep split: if_splits\<close>)
qed

lemma Server_Stop_join_streams:
  assumes "server_inv S (s, w)" and "hooks_local S" and "streams_inv S (s, w)"
    and "\<not> is_S_Drop (sv_pc s)" and "Server_Stop_join S s w = (s', w')"
  shows "streams_inv S (s', w')"
proof -
  obtain a where st: "Array_Stop S (sv_array s) w = (0, a, w')" and s': "sv_array s' = a" "sv_proto s' = sv_proto s" "sv_pc s' = S_None"
    using assms(5) by (auto simp: Server_Stop_join_def ClearGepChannelVector_def Array_Stop_def Let_def split: prod.splits)
  have a: "ca_channels a = []" "ca_last_id a = ca_last_id (sv_array s)"
    using st by (auto simp: Array_Stop_def Let_def split: if_splits)
  have l: "ca_server_socket a = -1"
    using Server_Stop_join_result [OF assms(1,4)] assms(5) s' by auto
  obtain es where es: "w_trace w' = w_trace w @ es" "list_all keeps_streams es"
    using Array_Stop_grows [OF st hooks_grow_streams [OF assms(2)]] by (auto simp: grows_def)
  show ?thesis
    using assms(3) es(1)
    by (rule streams_inv_grows)
      (use conns_inv_none [OF _ es(2), of _ _ _ _ a] a l es(1) s' assms(4) in \<open>auto simp: serving_conns_array\<close>)
qed

lemma server_step_streams:
  assumes "server_inv S (s, w)" and "callbacks_local (se_chan S)" and "hooks_local S"
    and "streams_inv S (s, w)" and "server_step S (s, w) (s', w')"
  shows "streams_inv S (s', w')"
  using assms(5)
proof cases
  case thread
  then show ?thesis using thread_step_streams [OF assms(1-4)] by blast
next
  case (start r)
  then show ?thesis using Server_Start_streams [OF assms(1,4)] by blast
next
  case stop
  then show ?thesis
    using streams_inv_plain [OF assms(4) grows_refl, of s'] by (auto simp: Server_Stop_request_def split: if_splits)
next
  case join
  then show ?thesis using Server_Stop_join_streams [OF assms(1,3,4)] by simp
next
  case (send msg r)
  then show ?thesis
    using streams_inv_plain [OF assms(4) Server_Send_plain(1) [OF assms(1) send(2)], of s] by simp
next
  case (send_to msg cid r)
  then show ?thesis
    using streams_inv_plain [OF assms(4) Server_Send_plain(2) [OF assms(1) send_to(2)], of s] by simp
qed

lemma server_reach_streams:
  assumes "server_reach S x y" and "server_inv S x" and "callbacks_local (se_chan S)" and "hooks_local S"
    and "streams_inv S x"
  shows "streams_inv S y"
proof -
  have "server_inv S y \<and> streams_inv S y"
    using assms(1) unfolding server_reach_def
    by (rule rtranclp_invariant) (use assms(2-5) server_step_inv server_step_streams in \<open>auto, blast+\<close>)
  then show ?thesis ..
qed

lemma streams_inv_init: "w_trace w = [] \<Longrightarrow> streams_inv S (GepServer_new mx p, w)"
  by (simp add: streams_inv_def serving_conns_def conns_inv_def GepServer_new_def GepChannelArray_new_def stream_ok_def
      callbacks_for_def client_bytes_def conns_of_def conns_new_def parse_short deliver_all_def)

text \<open>The protocol of a server keeps everything but its port.\<close>

lemma server_step_proto:
  assumes "server_inv S (s, w)" and "server_step S (s, w) (s', w')"
  shows "sv_proto s' = SetPort (pr_port (sv_proto s')) (sv_proto s)"
proof -
  have self: "p = SetPort (pr_port p) p" for p by (simp add: SetPort_def)
  show ?thesis
    using assms(2)
  proof cases
    case thread
    then have "sv_proto s' = sv_proto s"
      by (cases "sv_pc s") (auto simp: Server_RunThread_def Let_def split: bind_splits if_splits prod.splits)
    then show ?thesis using self by metis
  next
    case (start r)
    obtain q p' a' w1 where o: "OpenServerSocket S (sv_proto s) (sv_array s) w = Some (q, p', a', w1)"
      "p' = sv_proto s \<or> p' = SetPort (pr_port p') (sv_proto s)"
      using OpenServerSocket_result [OF server_invD(1) [OF assms(1)], of "sv_array s" w] by blast
    then have "sv_proto s' = p'" using start by (auto simp: Server_Start_def Let_def split: if_splits)
    then show ?thesis using o(2) self by metis
  next
    case stop
    then have "sv_proto s' = sv_proto s" by (auto simp: Server_Stop_request_def split: if_splits)
    then show ?thesis using self by metis
  next
    case join
    then have "sv_proto s' = sv_proto s" by (auto simp: Server_Stop_join_def Let_def split: prod.splits)
    then show ?thesis using self by metis
  qed (use self in metis)+
qed

lemma server_reach_proto:
  assumes "server_reach S (s, w) (s', w')" and "server_inv S (s, w)"
  shows "sv_proto s' = SetPort (pr_port (sv_proto s')) (sv_proto s)"
proof -
  have "server_inv S (s', w') \<and> sv_proto (fst (s', w')) = SetPort (pr_port (sv_proto (fst (s', w')))) (sv_proto s)"
    using assms(1) unfolding server_reach_def
  proof (rule rtranclp_invariant [where I = "\<lambda>y. server_inv S y \<and> sv_proto (fst y) = SetPort (pr_port (sv_proto (fst y))) (sv_proto s)"])
    show "server_inv S (s, w) \<and> sv_proto (fst (s, w)) = SetPort (pr_port (sv_proto (fst (s, w)))) (sv_proto s)"
      using assms(2) by (simp add: SetPort_def)
    fix x y assume st: "server_step S x y"
      and x: "server_inv S x \<and> sv_proto (fst x) = SetPort (pr_port (sv_proto (fst x))) (sv_proto s)"
    have "sv_proto (fst y) = SetPort (pr_port (sv_proto (fst y))) (sv_proto (fst x))"
      using server_step_proto [of S "fst x" "snd x" "fst y" "snd y"] st x by simp
    then have "sv_proto (fst y) = SetPort (pr_port (sv_proto (fst y))) (sv_proto s)"
      using x by (metis SetPort_twice)
    then show "server_inv S y \<and> sv_proto (fst y) = SetPort (pr_port (sv_proto (fst y))) (sv_proto s)"
      using server_step_inv [of S "fst x" "snd x" "fst y" "snd y"] st x by simp
  qed
  then show ?thesis by simp
qed

end
