(* ===== verification/Gep_Client_Streams.thy ===== *)
theory Gep_Client_Streams
  imports Gep_Connections Gep_Client
begin

text \<open>
  The callbacks of a client over a whole run with reconnections: those of the frames of each
  connection's bytes, one connection after the other. What is left of a broken connection is
  never joined to the bytes of the next.
\<close>

section \<open>The bytes of each connection\<close>

text \<open>A list of bytes for each socket the client made, in order; what it receives is the last's.\<close>

definition part_step :: "u8 list list \<Rightarrow> 'm event \<Rightarrow> u8 list list" where
  "part_step parts e =
     (case e of
        Ev_socket fd \<Rightarrow> if fd < 0 then parts else parts @ [[]]
      | Ev_recv _ bs \<Rightarrow> if parts = [] then [] else butlast parts @ [last parts @ bs]
      | _ \<Rightarrow> parts)"

definition connection_parts :: "'m event list \<Rightarrow> u8 list list" where
  "connection_parts tr = foldl part_step [] tr"

text \<open>The callbacks the parts should cause, each up to its first frame that is not accepted.\<close>

definition deliver_parts :: "('w, 'm) gep_env \<Rightarrow> proto \<Rightarrow> int \<Rightarrow> u8 list list \<Rightarrow> (int \<times> u32 \<times> 'm) list" where
  "deliver_parts E p cid parts =
     concat (map (\<lambda>bs. deliver_all E p cid (fst (parse_frames (pr_magic p) bs))) parts)"

text \<open>An open channel holds the unfinished end of the last part.\<close>

definition parts_ok :: "('w, 'm) gep_env \<Rightarrow> proto \<Rightarrow> channel \<Rightarrow> 'm event list \<Rightarrow> bool" where
  "parts_ok E p ch tr \<longleftrightarrow>
     dispatched tr = deliver_parts E p (ch_id ch) (connection_parts tr) \<and>
     (ch_socket ch \<noteq> -1 \<longrightarrow> (\<exists>parts bs fs. connection_parts tr = parts @ [bs] \<and>
        parse_frames (pr_magic p) bs = (fs, More (content ch)) \<and> list_all (accepts E p) fs))"

lemma connection_parts_append: "connection_parts (xs @ ys) = foldl part_step (connection_parts xs) ys"
  by (simp add: connection_parts_def)

text \<open>Events that start no connection and bring no bytes.\<close>

definition keeps_parts :: "'m event \<Rightarrow> bool" where
  "keeps_parts e \<longleftrightarrow> plain e \<or> (case e of Ev_close _ \<Rightarrow> True | _ \<Rightarrow> False)"

lemma keeps_parts_events:
  assumes "list_all keeps_parts es"
  shows "foldl part_step parts es = parts" and "dispatched es = []"
proof -
  have "part_step parts e = parts" "dispatched [e] = []" if "keeps_parts e" for parts and e :: "'a event"
    using that by (cases e; simp add: keeps_parts_def part_step_def dispatched_def)+
  then show "foldl part_step parts es = parts" and "dispatched es = []"
    using assms by (induction es) (auto simp: dispatched_def)
qed

lemma keeps_parts_plain: "grows plain w w' \<Longrightarrow> grows keeps_parts w w'"
  by (erule grows_mono) (simp add: keeps_parts_def)

text \<open>Closing, or changing nothing about the channel.\<close>

lemma parts_ok_keeps:
  assumes "parts_ok E p ch (w_trace w)" and "grows keeps_parts w w'" and "ch_id ch' = ch_id ch"
    and "ch_socket ch' = -1 \<or> ch' = ch"
  shows "parts_ok E p ch' (w_trace w')"
  using assms keeps_parts_events by (fastforce simp: grows_def parts_ok_def connection_parts_append)

section \<open>The operations on the channel\<close>

lemma serves_parts:
  assumes "list_all (serves cid fd) es"
  shows "foldl part_step (parts @ [bs]) es = parts @ [bs @ received_on fd es]"
  using assms
proof (induction es arbitrary: bs)
  case (Cons e es)
  have r: "received_on fd (e # es) = received_on fd [e] @ received_on fd es" by (simp add: received_on_def)
  have "part_step (parts @ [bs]) e = parts @ [bs @ received_on fd [e]]"
    using Cons.prems by (cases e) (auto simp: serves_def part_step_def received_on_def)
  then show ?case using Cons.IH [of "bs @ received_on fd [e]"] Cons.prems by (simp add: r)
qed simp

lemma RecvData_parts:
  assumes "channel_env_ok E p" and "callbacks_local E" and "chan_idle p ch" and "ch_socket ch \<noteq> -1"
    and "parts_ok E p ch (w_trace w)" and "RecvData E p ch w = Some (r, ch', w')"
  shows "same_conn ch ch' \<and> dispatched (w_trace w') = deliver_parts E p (ch_id ch) (connection_parts (w_trace w')) \<and>
    (r = 0 \<longrightarrow> parts_ok E p ch' (w_trace w'))"
proof -
  have idle: "chan_room ch" "0 \<le> ch_socket ch" using assms(3) by (simp_all add: chan_idle_def)
  obtain ret bs where post: "recv_post E p ch w ret bs r ch' w'"
    using sock.RecvData_post [OF channel_env_okD(2-4) [OF assms(1)] idle, of w] assms(6) by auto
  obtain es where es: "w_trace w' = w_trace w @ es" "list_all (serves (ch_id ch) (ch_socket ch)) es"
    using RecvData_serves [OF assms(1,2,6)] by (auto simp: grows_def)
  obtain parts old fs where old: "connection_parts (w_trace w) = parts @ [old]"
    "parse_frames (pr_magic p) old = (fs, More (content ch))" "list_all (accepts E p) fs"
    "dispatched (w_trace w) = deliver_parts E p (ch_id ch) (connection_parts (w_trace w))"
    using assms(4,5) by (auto simp: parts_ok_def)
  note rf = receive_frames [OF callbacks_local_quiet [OF assms(2)] post assms(3) es(1) old(2,3)]
  obtain gs e where gs: "parse_frames (pr_magic p) (old @ bs) = (fs @ gs, e)"
    "dispatched es = deliver_all E p (ch_id ch) gs"
    "deliver_all E p (ch_id ch) (fs @ gs) = deliver_all E p (ch_id ch) fs @ deliver_all E p (ch_id ch) gs"
    "r = 0 \<longrightarrow> same_conn ch ch' \<and> e = More (content ch') \<and> list_all (accepts E p) (fs @ gs)"
    using rf(2) by blast
  have parts: "connection_parts (w_trace w') = parts @ [old @ bs]"
    using serves_parts [OF es(2), of parts old] rf(1) by (simp add: es(1) connection_parts_append old(1))
  have d: "dispatched (w_trace w') = deliver_parts E p (ch_id ch) (connection_parts (w_trace w'))"
    using gs(1-3) old by (simp add: es(1) parts [unfolded es(1)] deliver_parts_def)
  have same: "same_conn ch ch'" using post by (simp add: recv_post_def)
  have "parts_ok E p ch' (w_trace w')" if "r = 0"
    using d parts gs(1,4) same that by (auto simp: parts_ok_def same_conn_def)
  then show ?thesis using d same by blast
qed

lemma OpenClientSocket_parts:
  assumes "client_env_ok E q" and "client_chan_ok q ch" and "ch_socket ch = -1"
    and "parts_ok E p ch (w_trace w)" and "OpenClientSocket E q' ch w = (r, ch', w')"
  shows "parts_ok E p ch' (w_trace w') \<and> ch_id ch' = ch_id ch"
proof -
  let ?os = "e_os E"
  have si: "e_si E = SocketInterface_of ?os" using assms(1) by (auto simp: client_env_ok_def channel_env_ok_def)
  obtain fd w1 where s1: "Raw_Socket ?os w = (fd, w1)" by fastforce
  obtain rc w2 where s2: "os_connect ?os fd (word_of_int (pr_port q')) w1 = (rc, w2)" by fastforce
  have t1: "w_trace w1 = w_trace w @ [Ev_socket fd]" using open_close_trace(1) [OF s1] .
  have t2: "w_trace w2 = w_trace w1 @ [Ev_connect fd (word_of_int (pr_port q')) rc]"
    using s2 by (auto simp: os_connect_def syscall_def split: prod.splits)
  have lo: "- 1 \<le> fd" using Raw_Socket_fd [OF _ s1] assms(1) by (simp add: client_env_ok_def)
  have len: "content ch = []" using assms(2,3) by (simp add: client_chan_ok_def content_def)
  have "OpenClientSocket E q' ch w = (if fd = -1 then (-1, ch, w1)
      else if rc < 0 then (-1, ch, os_close ?os fd w2) else (0, ch\<lparr>ch_socket := fd\<rparr>, w2))"
    by (simp add: OpenClientSocket_def si SocketInterface_of_def s1 s2)
  then have eq: "(r, ch', w') = (if fd = -1 then (-1, ch, w1)
      else if rc < 0 then (-1, ch, os_close ?os fd w2) else (0, ch\<lparr>ch_socket := fd\<rparr>, w2))"
    using assms(5) by simp
  have d: "dispatched (w_trace w) = deliver_parts E p (ch_id ch) (connection_parts (w_trace w))"
    using assms(4) by (simp add: parts_ok_def)
  have new: "deliver_parts E p cid (parts @ [[]]) = deliver_parts E p cid parts" for cid parts
    by (simp add: deliver_parts_def parse_short deliver_all_def)
  have p1: "connection_parts (w_trace w1) = (if fd = -1 then connection_parts (w_trace w) else connection_parts (w_trace w) @ [[]])"
    using lo by (simp add: t1 connection_parts_append part_step_def)
  have p2: "connection_parts (w_trace w2) = connection_parts (w_trace w1)"
    "connection_parts (w_trace (os_close ?os fd w2)) = connection_parts (w_trace w1)"
    by (simp_all add: t2 open_close_trace connection_parts_append part_step_def)
  have d2: "dispatched (w_trace w1) = dispatched (w_trace w)" "dispatched (w_trace w2) = dispatched (w_trace w)"
    "dispatched (w_trace (os_close ?os fd w2)) = dispatched (w_trace w)"
    by (simp_all add: t1 t2 open_close_trace dispatched_def)
  have "content (ch\<lparr>ch_socket := fd\<rparr>) = []" using len by (simp add: content_def)
  then show ?thesis
    using eq d d2 p1 p2 new assms(3) by (auto simp: parts_ok_def parse_short split: if_splits)
qed

section \<open>Every step of the client\<close>

text \<open>After a receive that failed, what the buffer holds is about to be forgotten.\<close>

definition client_streams :: "('w, 'm) gep_env \<Rightarrow> client \<times> ('w, 'm) world \<Rightarrow> bool" where
  "client_streams E = (\<lambda>(c, w).
     if cl_pc c = C_Close
     then dispatched (w_trace w) = deliver_parts E (cl_proto c) (ch_id (cl_channel c)) (connection_parts (w_trace w))
     else parts_ok E (cl_proto c) (cl_channel c) (w_trace w))"

lemma client_streams_keeps:
  assumes "client_streams E (c, w)" and "grows plain w w'" and "cl_proto c' = cl_proto c"
    and "cl_channel c' = cl_channel c" and "cl_pc c' = C_Close \<longleftrightarrow> cl_pc c = C_Close"
  shows "client_streams E (c', w')"
proof (cases "cl_pc c = C_Close")
  case True
  then show ?thesis
    using assms keeps_parts_events
    by (fastforce simp: client_streams_def grows_def keeps_parts_def list.pred_mono_strong connection_parts_append
        dest!: keeps_parts_plain)
next
  case False
  then show ?thesis
    using assms parts_ok_keeps [OF _ keeps_parts_plain [OF assms(2)] refl] by (simp add: client_streams_def)
qed

lemma Close_parts:
  assumes "dispatched (w_trace w) = deliver_parts E p (ch_id ch) (connection_parts (w_trace w))"
    and "Close E ch w = (r, ch', w')"
  shows "parts_ok E p ch' (w_trace w')"
  using assms
  by (auto simp: Close_def parts_ok_def connection_parts_append part_step_def open_close_trace dispatched_def
      split: if_splits)

lemma client_thread_streams:
  assumes "client_inv E (c, w)" and "callbacks_local E" and "client_streams E (c, w)" and "cl_pc c \<noteq> C_None"
    and "Client_RunThread E c w = Some (c', w')"
  shows "client_streams E (c', w')"
proof -
  note inv = client_invD [OF assms(1)] and keep = client_streams_keeps [OF assms(3)]
  have po: "parts_ok E (cl_proto c) (cl_channel c) (w_trace w)" if "cl_pc c \<noteq> C_Close"
    using assms(3) that by (simp add: client_streams_def)
  show ?thesis
  proof (cases "cl_pc c")
    case (C_Body socket)
    then have s: "ch_socket (cl_channel c) = socket" and pc: "cl_pc c \<noteq> C_Close"
      using inv(4) by (simp_all add: client_pc_ok_def)
    show ?thesis
    proof (cases "socket = -1")
      case False
      then show ?thesis
        using assms(5) C_Body
        by (auto simp: Client_RunThread_def Client_select_def Let_def split: bind_splits prod.splits
            intro!: keep settings_plain(7) split: if_splits)
    next
      case True
      obtain r ch w1 where o: "OpenClientSocket E (cl_proto c) (cl_channel c) w = (r, ch, w1)" by (metis surj_pair)
      have p: "parts_ok E (cl_proto c) ch (w_trace w1)"
        using OpenClientSocket_parts [OF inv(1) inv(2) [OF pc] _ po [OF pc] o] s True by simp
      have sl: "parts_ok E (cl_proto c) ch (w_trace (snd (syscall f (\<lambda>_. Ev_sleep a b) w1)))" for f a b
        by (rule parts_ok_keeps [OF p keeps_parts_plain])
          (auto intro: syscall_grows [OF prod.collapse [symmetric]])
      show ?thesis
        using assms(5) C_Body True o p sl
        by (auto simp: Client_RunThread_def Reconnect_def client_streams_def Let_def split: if_splits)
    qed
  next
    case (C_Recv socket fds)
    then have s: "ch_socket (cl_channel c) = socket" "socket \<noteq> -1" and pc: "cl_pc c \<noteq> C_Close"
      using inv(4) by (auto simp: client_pc_ok_def)
    then have s1: "ch_socket (cl_channel c) \<noteq> -1" by simp
    note op = client_open [OF inv(2) [OF pc] s1]
    have fs: "FD_ISSET socket fds = Some (socket \<in> fds)" using op s(1) by (simp add: FD_ISSET_def)
    have ce: "channel_env_ok E (cl_proto c)" using inv(1) by (simp add: client_env_ok_def)
    show ?thesis
    proof (cases "socket \<in> fds")
      case False
      then show ?thesis using assms(5) C_Recv fs by (auto simp: Client_RunThread_def intro!: keep)
    next
      case True
      obtain r ch w1 where rd: "RecvData E (cl_proto c) (cl_channel c) w = Some (r, ch, w1)" "r \<in> {0, -1, -2}"
        using chan.recv_law [OF ce op(1)] by blast
      note rp = RecvData_parts [OF ce assms(2) op(1) s1 po [OF pc] rd(1)]
      show ?thesis
        using assms(5) C_Recv fs True rd rp
        by (auto simp: Client_RunThread_def client_streams_def same_conn_def split: if_splits)
    qed
  next
    case C_Close
    obtain q ch2 w2 where cl: "Close E (cl_channel c) w = (q, ch2, w2)" by (metis surj_pair)
    have "parts_ok E (cl_proto c) ch2 (w_trace w2)"
      by (rule Close_parts [OF _ cl]) (use assms(3) C_Close in \<open>simp add: client_streams_def\<close>)
    then show ?thesis using assms(5) C_Close cl by (auto simp: Client_RunThread_def client_streams_def)
  qed (use assms(4,5) in \<open>auto simp: Client_RunThread_def intro!: keep split: if_splits\<close>)
qed

lemma client_step_streams:
  assumes "client_inv E (c, w)" and "callbacks_local E" and "client_streams E (c, w)"
    and "client_step E (c, w) (c', w')"
  shows "client_streams E (c', w')"
  using assms(4)
proof cases
  case thread
  then show ?thesis using client_thread_streams [OF assms(1-3)] by blast
next
  case (start r)
  note inv = client_invD [OF assms(1)]
  have sock: "ch_socket (cl_channel c) = -1" using inv(4) start(1) by (simp add: client_pc_ok_def)
  obtain q ch w1 where o: "OpenClientSocket E (cl_proto c) (cl_channel c) w = (q, ch, w1)" by (metis surj_pair)
  have "parts_ok E (cl_proto c) ch (w_trace w1)"
    using OpenClientSocket_parts [OF inv(1) inv(2) sock _ o] assms(3) start(1) by (simp add: client_streams_def)
  then show ?thesis
    using start o by (auto simp: Client_Start_def client_streams_def Let_def split: if_splits)
next
  case stop
  then show ?thesis
    using client_streams_keeps [OF assms(3) grows_refl, of c'] by (auto simp: Client_Stop_request_def split: if_splits)
next
  case join
  obtain q ch w1 where cl: "Close E (cl_channel c) w = (q, ch, w1)" by (metis surj_pair)
  have "parts_ok E (cl_proto c) ch (w_trace w1)"
    by (rule Close_parts [OF _ cl]) (use assms(3) join in \<open>simp add: client_streams_def parts_ok_def\<close>)
  then show ?thesis using join cl by (auto simp: Client_Stop_join_def client_streams_def)
next
  case (send msg r)
  have ce: "channel_env_ok E (cl_proto c)" using client_invD(1) [OF assms(1)] by (simp add: client_env_ok_def)
  have "grows plain w w'"
    using chan.send_law [OF ce send(2) [unfolded Client_Send_def]] by (auto simp: send_post_def intro: sends_plain)
  then show ?thesis using client_streams_keeps [OF assms(3)] send(1) by simp
qed

lemma client_reach_streams:
  assumes "client_reach E x y" and "client_inv E x" and "callbacks_local E" and "client_streams E x"
  shows "client_streams E y"
proof -
  have "client_inv E y \<and> client_streams E y"
    using assms(1) unfolding client_reach_def
    by (rule rtranclp_invariant) (use assms(2-4) client_step_inv client_step_streams in \<open>auto, blast+\<close>)
  then show ?thesis ..
qed

lemma client_streams_init: "w_trace w = [] \<Longrightarrow> client_streams E (GepClient_new E p, w)"
  by (simp add: client_streams_def parts_ok_def GepClient_new_def GepChannel_new_def connection_parts_def
      deliver_parts_def)

end
