(* ===== verification/Gep_Client_Senders.thy ===== *)
theory Gep_Client_Senders
  imports Gep_Client_Streams Gep_Senders "HOL-Library.Sublist"
begin

text \<open>
  A client whose threads send while its service thread receives, closes and reconnects. The
  senders go step by step through \<open>SendTLV\<close>, and \<open>socket_lock_\<close> decides who may go on: \<open>Close\<close>,
  \<open>OpenClientSocket\<close> and the \<open>recv\<close> of the service thread take it too. So a frame is never split
  over two connections.
\<close>

section \<open>The bytes sent on each connection\<close>

text \<open>The descriptor of each socket the client made, in order, with the bytes sent on it.\<close>

definition sent_step :: "(int \<times> u8 list) list \<Rightarrow> 'm event \<Rightarrow> (int \<times> u8 list) list" where
  "sent_step parts e =
     (case e of
        Ev_socket fd \<Rightarrow> if fd < 0 then parts else parts @ [(fd, [])]
      | Ev_send fd bs \<Rightarrow>
          if parts \<noteq> [] \<and> fst (last parts) = fd then butlast parts @ [(fd, snd (last parts) @ bs)] else parts
      | _ \<Rightarrow> parts)"

definition sent_parts :: "'m event list \<Rightarrow> (int \<times> u8 list) list" where
  "sent_parts tr = foldl sent_step [] tr"

lemma sent_parts_append: "sent_parts (xs @ ys) = foldl sent_step (sent_parts xs) ys"
  by (simp add: sent_parts_def)

lemma silent_parts:
  fixes w :: "('w, 'm) world"
  assumes "grows silent w w'"
  shows "sent_parts (w_trace w') = sent_parts (w_trace w)"
proof -
  have "sent_step parts e = parts" if "silent e" for parts and e :: "'m event"
    using that by (cases e) (simp_all add: silent_def sent_step_def)
  then have "list_all silent es \<Longrightarrow> foldl sent_step parts es = parts" for parts and es :: "'m event list"
    by (induction es) auto
  then show ?thesis using assms by (auto simp: grows_def sent_parts_append)
qed

lemma sends_parts:
  fixes w :: "('w, 'm) world"
  assumes "sends fd bs w w'"
  shows "sent_parts (w_trace w') =
    (if sent_parts (w_trace w) \<noteq> [] \<and> fst (last (sent_parts (w_trace w))) = fd
     then butlast (sent_parts (w_trace w)) @ [(fd, snd (last (sent_parts (w_trace w))) @ bs)]
     else sent_parts (w_trace w))"
proof -
  have "list_all (send_event fd) es \<Longrightarrow> foldl sent_step parts es =
      (if parts \<noteq> [] \<and> fst (last parts) = fd then butlast parts @ [(fd, snd (last parts) @ sent_on fd es)] else parts)"
    for parts and es :: "'m event list"
  proof (induction es arbitrary: parts)
    case Nil
    then show ?case by (cases parts rule: rev_cases) (auto simp: sent_on_def)
  next
    case (Cons e es)
    then show ?case
      by (cases e) (auto simp: send_event_def sent_step_def sent_on_def)
  qed
  then show ?thesis using assms by (auto simp: sends_def sent_parts_append)
qed

section \<open>The system\<close>

text \<open>The steps of the service thread that take the lock.\<close>

definition uses_lock :: "client \<Rightarrow> bool" where
  "uses_lock c \<longleftrightarrow>
     (case cl_pc c of
        C_Entry \<Rightarrow> True
      | C_Body socket \<Rightarrow> socket = -1
      | C_Recv socket fds \<Rightarrow> socket \<in> fds
      | C_Close \<Rightarrow> True
      | _ \<Rightarrow> False)"

text \<open>
  The history of the calls that returned, one list for each socket; a call that found the
  channel closed is in none.
\<close>

type_synonym call_history = "(u32 \<times> u8 list \<times> int) list list"

definition note_calls ::
  "channel \<Rightarrow> ('w, 'm) senders \<Rightarrow> ('w, 'm) senders \<Rightarrow> call_history \<Rightarrow> call_history" where
  "note_calls ch s s' calls =
     (if IsOpenSocket ch
      then butlast calls @ [last calls @ drop (length (sn_returned s)) (sn_returned s')] else calls)"

definition note_sockets :: "('w, 'm) world \<Rightarrow> ('w, 'm) world \<Rightarrow> call_history \<Rightarrow> call_history" where
  "note_sockets w w' calls =
     calls @ replicate (length (sent_parts (w_trace w')) - length (sent_parts (w_trace w))) []"

inductive sending_client_step ::
  "('w, 'm) gep_env \<Rightarrow> client \<times> ('w, 'm) senders \<times> call_history \<Rightarrow>
     client \<times> ('w, 'm) senders \<times> call_history \<Rightarrow> bool"
  for E where
  sender: "sending_step E (cl_proto c) (cl_channel c) s s' \<Longrightarrow>
    sending_client_step E (c, s, calls) (c, s', note_calls (cl_channel c) s s' calls)"
| thread: "cl_pc c \<noteq> C_None \<Longrightarrow> uses_lock c \<longrightarrow> sn_lock s = None \<Longrightarrow>
    Client_RunThread E c (sn_world s) = Some (c', w') \<Longrightarrow>
    sending_client_step E (c, s, calls) (c', s\<lparr>sn_world := w'\<rparr>, note_sockets (sn_world s) w' calls)"
| start: "cl_pc c = C_None \<Longrightarrow> sn_lock s = None \<Longrightarrow> Client_Start E c (sn_world s) = Some (r, c', w') \<Longrightarrow>
    sending_client_step E (c, s, calls) (c', s\<lparr>sn_world := w'\<rparr>, note_sockets (sn_world s) w' calls)"
| stop: "\<not> cl_stopping c \<Longrightarrow> Client_Stop_request c = Some c' \<Longrightarrow>
    sending_client_step E (c, s, calls) (c', s, calls)"
| join: "cl_stopping c \<Longrightarrow> cl_pc c = C_Exit \<Longrightarrow> sn_lock s = None \<Longrightarrow>
    Client_Stop_join E c (sn_world s) = (c', w') \<Longrightarrow>
    sending_client_step E (c, s, calls) (c', s\<lparr>sn_world := w'\<rparr>, note_sockets (sn_world s) w' calls)"

section \<open>The invariant\<close>

text \<open>
  What was sent on each socket: the parts of its calls in the order they returned, and on the
  open one also the half-sent frame of the holder of the lock.
\<close>

definition streams_match :: "proto \<Rightarrow> call_history \<Rightarrow> (int \<times> u8 list) list \<Rightarrow> bool" where
  "streams_match p calls parts \<longleftrightarrow> list_all2 (\<lambda>cs part. returned_stream p cs (snd part)) calls parts"

definition sends_ok :: "proto \<Rightarrow> channel \<Rightarrow> ('w, 'm) senders \<Rightarrow> call_history \<Rightarrow> bool" where
  "sends_ok p ch s calls \<longleftrightarrow>
     (if IsOpenSocket ch
      then \<exists>before parts current bs. calls = before @ [current] \<and>
        sent_parts (w_trace (sn_world s)) = parts @ [(ch_socket ch, bs @ half_sent p s)] \<and>
        streams_match p before parts \<and> returned_stream p current bs
      else streams_match p calls (sent_parts (w_trace (sn_world s)))) \<and>
     (\<forall>part \<in> set (sent_parts (w_trace (sn_world s))). 0 \<le> fst part) \<and>
     subseq (concat calls) (sn_returned s)"

lemma streams_match_snoc [simp]:
  "streams_match p (calls @ [cs]) (parts @ [part]) \<longleftrightarrow> streams_match p calls parts \<and> returned_stream p cs (snd part)"
  unfolding streams_match_def by (subst list_all2_rev [symmetric]) auto

lemma returned_stream_nil [simp]: "returned_stream p [] []"
  by (simp add: returned_stream_def)

lemma half_sent_unlocked: "sn_lock s = None \<Longrightarrow> half_sent p s = []"
  by (simp add: half_sent_def)

section \<open>Every step keeps it\<close>

lemma sends_ok_sending:
  assumes "channel_env_ok E p" and "sending_step E p ch s s'" and "locks_ok s" and "sends_ok p ch s calls"
  shows "locks_ok s' \<and> sends_ok p ch s' (note_calls ch s s' calls)"
proof -
  let ?parts = "\<lambda>s. sent_parts (w_trace (sn_world s))"
  obtain bs where locks: "locks_ok s'" and ef: "sending_effect p ch s s' bs"
    using sending_step_effect [OF assms(1-3)] by blast
  then have sends: "sends (ch_socket ch) bs (sn_world s) (sn_world s')" by (simp add: sending_effect_def)
  have pos: "\<forall>part \<in> set (?parts s). 0 \<le> fst part" and sub: "subseq (concat calls) (sn_returned s)"
    using assms(4) unfolding sends_ok_def by blast+
  obtain new where new: "sn_returned s' = sn_returned s @ new" using ef by (auto simp: sending_effect_def)
  show ?thesis
  proof (cases "IsOpenSocket ch")
    case False
    then have "ch_socket ch = -1" by (simp add: IsOpenSocket_def)
    moreover have "fst (last (?parts s)) \<noteq> -1" if "?parts s \<noteq> []" using last_in_set [OF that] pos by force
    ultimately have "?parts s' = ?parts s" using sends_parts [OF sends] by auto
    moreover have "subseq (concat calls) (sn_returned s')" using list_emb_append_mono [OF sub, of "[]" new] new by simp
    ultimately show ?thesis
      using locks assms(4) pos False unfolding sends_ok_def note_calls_def by simp
  next
    case True
    then obtain before parts current b where o: "calls = before @ [current]"
      "?parts s = parts @ [(ch_socket ch, b @ half_sent p s)]"
      "streams_match p before parts" "returned_stream p current b"
      using assms(4) unfolding sends_ok_def by auto
    have parts': "?parts s' = parts @ [(ch_socket ch, b @ half_sent p s @ bs)]" using sends_parts [OF sends] o(2) by simp
    have noted: "note_calls ch s s' calls = before @ [current @ new]" using True o(1) new by (simp add: note_calls_def)
    have "subseq (concat (note_calls ch s s' calls)) (sn_returned s')"
      using list_emb_append_mono [OF sub, of new new] o(1) new noted by simp
    moreover have "\<exists>c. half_sent p s @ bs = c @ half_sent p s' \<and> returned_stream p (current @ new) (b @ c)"
    proof (cases "new = []")
      case True
      then show ?thesis using ef new o(4) by (auto simp: sending_effect_def)
    next
      case False
      then obtain call where "new = [call]" "half_sent p s' = []" "call_part p call (half_sent p s @ bs)"
        using ef new False by (auto simp: sending_effect_def simp del: call_part.simps)
      then show ?thesis using returned_stream_snoc [OF o(4)] by auto
    qed
    ultimately show ?thesis
      using locks True pos parts' o noted unfolding sends_ok_def by fastforce
  qed
qed

text \<open>What the other steps do to the channel: nothing, closing it, or making a socket for it.\<close>

definition channel_effect :: "channel \<Rightarrow> channel \<Rightarrow> ('w, 'm) world \<Rightarrow> ('w, 'm) world \<Rightarrow> bool" where
  "channel_effect ch ch' w w' \<longleftrightarrow>
     sent_parts (w_trace w') = sent_parts (w_trace w) \<and> (ch_socket ch' = ch_socket ch \<or> ch_socket ch' = -1) \<or>
     (\<exists>fd \<ge> 0. sent_parts (w_trace w') = sent_parts (w_trace w) @ [(fd, [])] \<and>
        ch_socket ch = -1 \<and> (ch_socket ch' = fd \<or> ch_socket ch' = -1))"

lemma channel_effect_silent:
  "grows silent w w' \<Longrightarrow> ch_socket ch' = ch_socket ch \<or> ch_socket ch' = -1 \<Longrightarrow> channel_effect ch ch' w w'"
  by (drule silent_parts) (simp add: channel_effect_def)

lemma sends_ok_channel:
  assumes "sends_ok p ch s calls" and "channel_effect ch ch' (sn_world s) w'"
    and "ch_socket ch' = ch_socket ch \<or> sn_lock s = None"
  shows "sends_ok p ch' (s\<lparr>sn_world := w'\<rparr>) (note_sockets (sn_world s) w' calls)"
proof -
  let ?parts = "sent_parts (w_trace (sn_world s))" and ?parts' = "sent_parts (w_trace w')"
  consider (same) "?parts' = ?parts" "ch_socket ch' = ch_socket ch"
    | (close) "?parts' = ?parts" "ch_socket ch' = -1" "sn_lock s = None"
    | (make) fd where "0 \<le> fd" "?parts' = ?parts @ [(fd, [])]" "ch_socket ch = -1"
        "ch_socket ch' = fd \<and> sn_lock s = None \<or> ch_socket ch' = -1"
    using assms(2,3) unfolding channel_effect_def by (elim disjE exE conjE) auto
  then show ?thesis
  proof cases
    case same
    then show ?thesis using assms(1) by (auto simp: sends_ok_def note_sockets_def IsOpenSocket_def)
  next
    case close
    then have "streams_match p calls ?parts"
      using assms(1) half_sent_unlocked [OF close(3), of p] by (auto simp: sends_ok_def split: if_splits)
    then show ?thesis using assms(1) close by (simp add: sends_ok_def note_sockets_def IsOpenSocket_def)
  next
    case make
    have "streams_match p calls ?parts" using assms(1) make(3) by (simp add: sends_ok_def IsOpenSocket_def)
    then show ?thesis
      using assms(1) make half_sent_unlocked [of s p]
      by (auto simp: sends_ok_def note_sockets_def IsOpenSocket_def)
  qed
qed

section \<open>The steps of the client\<close>

lemma OpenClientSocket_effect:
  assumes "e_si E = SocketInterface_of (e_os E)" and "os_fds_ok (e_os E)" and "ch_socket ch = -1"
    and "OpenClientSocket E p ch w = (r, ch', w')"
  shows "channel_effect ch ch' w w'"
proof -
  let ?os = "e_os E"
  obtain fd w1 where s1: "Raw_Socket ?os w = (fd, w1)" by fastforce
  obtain rc w2 where s2: "os_connect ?os fd (word_of_int (pr_port p)) w1 = (rc, w2)" by fastforce
  have t1: "w_trace w1 = w_trace w @ [Ev_socket fd]" using open_close_trace(1) [OF s1] .
  have t2: "w_trace w2 = w_trace w1 @ [Ev_connect fd (word_of_int (pr_port p)) rc]"
    using s2 by (auto simp: os_connect_def syscall_def split: prod.splits)
  have lo: "- 1 \<le> fd" using Raw_Socket_fd [OF assms(2) s1] by simp
  have p1: "sent_parts (w_trace w1) = (if fd < 0 then sent_parts (w_trace w) else sent_parts (w_trace w) @ [(fd, [])])"
    by (simp add: t1 sent_parts_append sent_step_def)
  have p2: "sent_parts (w_trace w2) = sent_parts (w_trace w1)"
    "sent_parts (w_trace (os_close ?os fd w2)) = sent_parts (w_trace w1)"
    by (simp_all add: t2 open_close_trace sent_parts_append sent_step_def)
  have "OpenClientSocket E p ch w = (if fd = -1 then (-1, ch, w1)
      else if rc < 0 then (-1, ch, os_close ?os fd w2) else (0, ch\<lparr>ch_socket := fd\<rparr>, w2))"
    by (simp add: OpenClientSocket_def assms(1) SocketInterface_of_def s1 s2)
  then have "(r, ch', w') = (if fd = -1 then (-1, ch, w1)
      else if rc < 0 then (-1, ch, os_close ?os fd w2) else (0, ch\<lparr>ch_socket := fd\<rparr>, w2))"
    using assms(4) by simp
  then show ?thesis
    using p1 p2 lo assms(3) by (auto simp: channel_effect_def split: if_splits)
qed

lemma Close_effect: "Close E ch w = (r, ch', w') \<Longrightarrow> channel_effect ch ch' w w'"
  by (rule channel_effect_silent) (auto simp: Close_def grows_def open_close_trace split: if_splits)

lemma thread_effect:
  assumes "client_inv E (c, w)" and "callbacks_silent E" and "Client_RunThread E c w = Some (c', w')"
  shows "channel_effect (cl_channel c) (cl_channel c') w w' \<and>
    (ch_socket (cl_channel c') = ch_socket (cl_channel c) \<or> uses_lock c)"
proof -
  note inv = client_invD [OF assms(1)]
  have ce: "channel_env_ok E (cl_proto c)" "os_fds_ok (e_os E)" "e_si E = SocketInterface_of (e_os E)"
    using inv(1) by (simp_all add: client_env_ok_def channel_env_ok_def)
  have same: "channel_effect ch ch w w" for ch by (rule channel_effect_silent) simp_all
  show ?thesis
  proof (cases "cl_pc c")
    case (C_Body socket)
    then have s: "ch_socket (cl_channel c) = socket" using inv(4) by (simp add: client_pc_ok_def)
    show ?thesis
    proof (cases "socket = -1")
      case True
      obtain r ch w1 where o: "OpenClientSocket E (cl_proto c) (cl_channel c) w = (r, ch, w1)" by (metis surj_pair)
      have ef: "channel_effect (cl_channel c) ch w w1"
        using OpenClientSocket_effect [OF ce(3,2) _ o] s True by simp
      have "sent_parts (w_trace (snd (syscall f (\<lambda>_. Ev_sleep a b) w1))) = sent_parts (w_trace w1)" for f a b
        by (intro silent_parts) (auto intro: syscall_grows [OF prod.collapse [symmetric]])
      then have "channel_effect (cl_channel c) (cl_channel c') w w'"
        using assms(3) C_Body True o ef
        by (auto simp: Client_RunThread_def Reconnect_def Let_def channel_effect_def split: if_splits)
      then show ?thesis using C_Body True by (simp add: uses_lock_def)
    next
      case False
      have sel: "grows silent w w1" if "Raw_Select os n rd wr tv w = (r, rd', w1)" for os n rd wr tv r rd' w1
        using that by (auto simp: Raw_Select_def grows_def split: prod.splits)
      show ?thesis
        using assms(3) C_Body False
        by (auto simp: Client_RunThread_def Client_select_def Let_def split: bind_splits prod.splits
            intro!: channel_effect_silent dest!: sel)
    qed
  next
    case (C_Recv socket fds)
    show ?thesis
    proof (cases "socket \<in> fds")
      case True
      obtain r ch where rd: "RecvData E (cl_proto c) (cl_channel c) w = Some (r, ch, w')" "ch_socket ch = socket"
        "cl_channel c' = ch"
        using Client_recv_result [OF assms(1) C_Recv True] assms(3) by auto
      have "ch_socket (cl_channel c) = socket" using inv(4) C_Recv by (simp add: client_pc_ok_def)
      then show ?thesis
        using rd channel_effect_silent [OF RecvData_silent [OF ce(1) assms(2) rd(1)]] by simp
    next
      case False
      then show ?thesis
        using assms(3) C_Recv same by (auto simp: Client_RunThread_def FD_ISSET_def split: if_splits bind_splits)
    qed
  next
    case C_Close
    obtain q ch w1 where cl: "Close E (cl_channel c) w = (q, ch, w1)" by (metis surj_pair)
    then show ?thesis
      using assms(3) C_Close Close_effect [OF cl] by (auto simp: Client_RunThread_def uses_lock_def)
  qed (use assms(3) same in \<open>auto simp: Client_RunThread_def\<close>)
qed

text \<open>The whole invariant, and that every step of the system keeps it.\<close>

definition sending_client_inv ::
  "('w, 'm) gep_env \<Rightarrow> proto \<Rightarrow> client \<times> ('w, 'm) senders \<times> call_history \<Rightarrow> bool" where
  "sending_client_inv E p = (\<lambda>(c, s, calls). client_inv E (c, sn_world s) \<and> cl_proto c = p \<and> locks_ok s \<and>
     sends_ok p (cl_channel c) s calls)"

lemma client_step_proto: "client_step E (c, w) (c', w') \<Longrightarrow> cl_proto c' = cl_proto c"
  by (auto simp: client_step_iff Client_RunThread_def Client_Start_def Client_Stop_request_def
      Client_Stop_join_def Reconnect_def Let_def split: client_pc.splits bind_splits if_splits prod.splits)

lemma sending_client_other:
  assumes "sending_client_inv E p (c, s, calls)" and "client_step E (c, sn_world s) (c', w')"
    and "channel_effect (cl_channel c) (cl_channel c') (sn_world s) w'"
    and "ch_socket (cl_channel c') = ch_socket (cl_channel c) \<or> sn_lock s = None"
  shows "sending_client_inv E p (c', s\<lparr>sn_world := w'\<rparr>, note_sockets (sn_world s) w' calls)"
proof -
  have inv: "client_inv E (c, sn_world s)" "sends_ok p (cl_channel c) s calls" "cl_proto c = p" "locks_ok s"
    using assms(1) by (simp_all add: sending_client_inv_def)
  show ?thesis
    using client_step_inv [OF inv(1) assms(2)] client_step_proto [OF assms(2)] sends_ok_channel [OF inv(2) assms(3,4)] inv(3,4)
    by (simp add: sending_client_inv_def)
qed

lemma sending_client_step_inv:
  assumes "callbacks_silent E" and "sending_client_step E x y" and "sending_client_inv E p x"
  shows "sending_client_inv E p y"
  using assms(2)
proof cases
  case (sender c s s' calls)
  have inv: "client_inv E (c, sn_world s)" "cl_proto c = p" "locks_ok s" "sends_ok p (cl_channel c) s calls"
    using assms(3) sender(1) by (simp_all add: sending_client_inv_def)
  have ce: "channel_env_ok E p" using client_invD(1) [OF inv(1)] inv(2) by (simp add: client_env_ok_def)
  note step = sender(3) [unfolded inv(2)]
  obtain bs where "sending_effect p (cl_channel c) s s' bs" using sending_step_effect [OF ce step inv(3)] by blast
  then have "steady (sn_world s) (sn_world s')" by (auto simp: sending_effect_def intro: sends_steady)
  then have "client_inv E (c, sn_world s')" using client_inv_world [OF inv(1)] by blast
  then show ?thesis
    using sends_ok_sending [OF ce step inv(3,4)] inv(2) sender(2) by (simp add: sending_client_inv_def)
next
  case (thread c s c' w' calls)
  have inv: "client_inv E (c, sn_world s)" using assms(3) thread(1) by (simp add: sending_client_inv_def)
  show ?thesis
    unfolding thread(2)
    by (rule sending_client_other [OF _ client_step.thread [OF thread(3,5)]])
      (use assms(3) thread thread_effect [OF inv assms(1) thread(5)] in auto)
next
  case (start c s r c' w' calls)
  have inv: "client_inv E (c, sn_world s)" using assms(3) start(1) by (simp add: sending_client_inv_def)
  then have sock: "ch_socket (cl_channel c) = -1" and ce: "os_fds_ok (e_os E)" "e_si E = SocketInterface_of (e_os E)"
    using client_invD(1,4) [OF inv] start(3)
    by (simp_all add: client_pc_ok_def client_env_ok_def channel_env_ok_def)
  obtain q ch w1 where o: "OpenClientSocket E (cl_proto c) (cl_channel c) (sn_world s) = (q, ch, w1)" by (metis surj_pair)
  have "channel_effect (cl_channel c) (cl_channel c') (sn_world s) w'"
    using OpenClientSocket_effect [OF ce(2,1) sock o] start(5) o
    by (auto simp: Client_Start_def Let_def split: if_splits)
  then show ?thesis
    unfolding start(2) using assms(3) start
    by (intro sending_client_other [OF _ client_step.start [OF start(3,5)]]) auto
next
  case (stop c c' s calls)
  have inv: "client_inv E (c, sn_world s)" using assms(3) stop(1) by (simp add: sending_client_inv_def)
  have "client_inv E (c', sn_world s)" by (rule Client_Stop_request_inv [OF inv stop(4)])
  moreover have "cl_channel c' = cl_channel c" "cl_proto c' = cl_proto c"
    using stop(4) by (auto simp: Client_Stop_request_def split: if_splits)
  ultimately show ?thesis using assms(3) stop by (simp add: sending_client_inv_def)
next
  case (join c s c' w' calls)
  obtain q ch w1 where cl: "Close E (cl_channel c) (sn_world s) = (q, ch, w1)" by (metis surj_pair)
  have "channel_effect (cl_channel c) (cl_channel c') (sn_world s) w'"
    using Close_effect [OF cl] join(6) cl by (auto simp: Client_Stop_join_def)
  then show ?thesis
    unfolding join(2) using assms(3) join
    by (intro sending_client_other [OF _ client_step.join [OF join(3,4,6)]]) auto
qed

lemma sending_client_reach_inv:
  assumes "(sending_client_step E)\<^sup>*\<^sup>* (GepClient_new E p, senders_new w0, []) y"
    and "client_env_ok E p" and "callbacks_silent E" and "w_trace w0 = []"
  shows "sending_client_inv E p y"
  using assms(1)
proof (rule rtranclp_invariant)
  have "locks_ok (senders_new w0)" by (simp add: locks_ok_def senders_new_def)
  then show "sending_client_inv E p (GepClient_new E p, senders_new w0, [])"
    using client_inv_init [OF assms(2), of w0] assms(4)
    by (simp add: sending_client_inv_def sends_ok_def senders_new_def GepClient_new_def GepChannel_new_def
        IsOpenSocket_def streams_match_def sent_parts_def)
  show "sending_client_inv E p y" if "sending_client_inv E p x" "sending_client_step E x y" for x y
    using sending_client_step_inv [OF assms(3)] that by blast
qed

text \<open>Read off socket by socket.\<close>

lemma streams_match_nth:
  "streams_match p calls parts \<Longrightarrow> length calls = length parts \<and>
     (\<forall>i < length calls. returned_stream p (calls ! i) (snd (parts ! i)))"
  by (auto simp: streams_match_def list_all2_conv_all_nth)

lemma sends_ok_nth:
  assumes "sends_ok p ch s calls" and "parts = sent_parts (w_trace (sn_world s))"
  shows "length calls = length parts" and "IsOpenSocket ch \<Longrightarrow> parts \<noteq> [] \<and> fst (last parts) = ch_socket ch"
    and "i < length calls \<Longrightarrow> \<exists>bs. returned_stream p (calls ! i) bs \<and>
      snd (parts ! i) = bs @ (if IsOpenSocket ch \<and> Suc i = length calls then half_sent p s else [])"
proof -
  have "length calls = length parts \<and> (IsOpenSocket ch \<longrightarrow> parts \<noteq> [] \<and> fst (last parts) = ch_socket ch) \<and>
    (i < length calls \<longrightarrow> (\<exists>bs. returned_stream p (calls ! i) bs \<and>
      snd (parts ! i) = bs @ (if IsOpenSocket ch \<and> Suc i = length calls then half_sent p s else [])))"
  proof (cases "IsOpenSocket ch")
    case False
    then show ?thesis using assms streams_match_nth by (fastforce simp: sends_ok_def)
  next
    case True
    then obtain before ps current b where o: "calls = before @ [current]" "parts = ps @ [(ch_socket ch, b @ half_sent p s)]"
      "streams_match p before ps" "returned_stream p current b"
      using assms unfolding sends_ok_def by auto
    then show ?thesis
      using True streams_match_nth [OF o(3)] by (auto simp: nth_append less_Suc_eq)
  qed
  then show "length calls = length parts" and "IsOpenSocket ch \<Longrightarrow> parts \<noteq> [] \<and> fst (last parts) = ch_socket ch"
    and "i < length calls \<Longrightarrow> \<exists>bs. returned_stream p (calls ! i) bs \<and>
      snd (parts ! i) = bs @ (if IsOpenSocket ch \<and> Suc i = length calls then half_sent p s else [])"
    by blast+
qed

text \<open>Steps of senders alone, on an open channel.\<close>

lemma sending_returned: "sending_step E p ch s s' \<Longrightarrow> \<exists>new. sn_returned s' = sn_returned s @ new"
  by (erule sending_step.cases) (auto simp: sn_return_def)

lemma sending_client_senders:
  assumes "(sending_step E (cl_proto c) (cl_channel c))\<^sup>*\<^sup>* s s'" and "IsOpenSocket (cl_channel c)" and "calls \<noteq> []"
  shows "(sending_client_step E)\<^sup>*\<^sup>* (c, s, calls) (c, s', note_calls (cl_channel c) s s' calls) \<and>
    (\<exists>new. sn_returned s' = sn_returned s @ new)"
  using assms(1)
proof induction
  case base
  then show ?case using assms(2,3) by (simp add: note_calls_def)
next
  case (step y z)
  obtain new more_calls where n: "sn_returned y = sn_returned s @ new" "sn_returned z = sn_returned y @ more_calls"
    using step.IH sending_returned [OF step.hyps(2)] by blast
  have "sending_client_step E (c, y, note_calls (cl_channel c) s y calls)
      (c, z, note_calls (cl_channel c) y z (note_calls (cl_channel c) s y calls))"
    by (rule sending_client_step.sender [OF step.hyps(2)])
  moreover have "note_calls (cl_channel c) y z (note_calls (cl_channel c) s y calls) = note_calls (cl_channel c) s z calls"
    using assms(2) n by (simp add: note_calls_def)
  ultimately show ?case using step.IH n by (auto intro: rtranclp.rtrancl_into_rtrancl)
qed

end
