(* ===== verification/Connection_Properties.thy ===== *)
theory Connection_Properties
  imports Gep_Server_Streams Gep_Client_Senders Sender_Properties Server_Properties Client_Properties
begin

text \<open>
  The properties of whole runs, connection by connection: which descriptors a server's clients
  own, which callbacks run for each client, and a client's senders put together with a server.
\<close>

section \<open>A server that has received from its client\<close>

lemma raw_local: "callbacks_local raw_env" "hooks_local raw_server_env"
  by (simp_all add: callbacks_local_def hooks_local_def callbacks_grow_def hooks_grow_def raw_env_def raw_callback_def)

text \<open>What the client has sent so far: a whole frame and the first 8 bytes of the next.\<close>

definition arrived_bytes :: "u8 list" where
  "arrived_bytes = frame_bytes kMagic (7, []) @ take 8 (frame_bytes kMagic (5, [1, 2]))"

lemma parse_arrived: "parse_frames kMagic arrived_bytes = ([(7, [])], More (take 8 (frame_bytes kMagic (5, [1, 2]))))"
  using parse_frames_bytes [of "[(7, [])]" kMagic "take 8 (frame_bytes kMagic (5, [1, 2]))"]
  by (simp add: arrived_bytes_def max_value_len_def parse_short frame_bytes_def)

lemma demo_received:
  "\<exists>s w. server_state raw_server_env 2 raw_proto s w \<and> fds_fresh (w_trace w) \<and>
     client_bytes 0 (w_trace w) = arrived_bytes"
proof -
  let ?ch = "GepChannel_new raw_env 0 5" and ?scr = "one_client_script [(1, 0, {5})] [Received arrived_bytes]"
  obtain w where w: "server_reach raw_server_env (GepServer_new 2 raw_proto, raw_world ?scr) (demo_server, w)"
    "w_os w = then_script [(1, 0, {5})] [Received arrived_bytes]" "w_trace w = start_trace @ serve_trace"
    using demo_server_reach [of 2 "[(1, 0, {5})]" "[Received arrived_bytes]"] by auto
  obtain w1 where run: "Server_run raw_server_env 3 demo_server w = Some (demo_server\<lparr>sv_pc := S_Recv 3 {5}\<rparr>, w1)"
    "w_os w1 = then_script [] [Received arrived_bytes]" "w_trace w1 = start_trace @ serve_trace @ [Ev_select 1]"
    using w(2,3)
    by (simp add: numeral_3_eq_3 served_server_def Server_RunThread_def Server_select_def FD_SET_def FD_SETSIZE_def
        GetVectorReadFds_def GetSocket_def script_select then_script_def quiet_script_def)
  have len: "length arrived_bytes = 20" by (simp add: arrived_bytes_def frame_bytes_def)
  then have ne: "arrived_bytes \<noteq> []" by auto
  have idle: "chan_idle raw_proto ?ch" by (simp add: new_channel_idle)
  have recv: "sc_recv (w_os w1) = Received arrived_bytes # []" using run(2) by (simp add: then_script_def)
  obtain ch' w2 where rd: "RecvData raw_env raw_proto ?ch w1 = Some (0, ch', w2)"
    "received_on 5 (w_trace w2) = received_on 5 (w_trace w1) @ arrived_bytes"
    using raw_RecvData [OF idle recv ne, of "[(7, [])]"] parse_arrived len by (auto simp: raw_accepts)
  have "server_reach raw_server_env (demo_server, w) (demo_server\<lparr>sv_pc := S_Recv 3 {5}\<rparr>, w1)"
    by (rule Server_run_reach [OF _ run(1), folded server_reach_def]) simp
  then have sv: "server_state raw_server_env 2 raw_proto (demo_server\<lparr>sv_pc := S_Recv 3 {5}\<rparr>) w1"
    by (intro server_state_reach [of _ ?scr]) (rule rtranclp_trans [OF w(1) [unfolded server_reach_def], folded server_reach_def])
  have "first_ready {5} [?ch] = Some (Some ?ch)" by (simp add: GetSocket_def FD_ISSET_def FD_SETSIZE_def)
  then have "\<exists>a. Array_receive raw_server_env raw_proto {5} (sv_array demo_server) w1 = Some (None, a, w2)"
    using rd(1) by (simp add: Array_receive_def)
  then obtain s' where "Server_RunThread raw_server_env (demo_server\<lparr>sv_pc := S_Recv 3 {5}\<rparr>) w1 = Some (s', w2)"
    by (auto simp: Server_RunThread_def)
  then have "server_step raw_server_env (demo_server\<lparr>sv_pc := S_Recv 3 {5}\<rparr>, w1) (s', w2)"
    by (intro server_step.thread) simp_all
  then have st: "server_state raw_server_env 2 raw_proto s' w2"
    using sv unfolding server_state_def server_reach_def by (blast intro: rtranclp.rtrancl_into_rtrancl)
  obtain es where es: "w_trace w2 = w_trace w1 @ es" "list_all (serves 0 5) es"
    using RecvData_serves [OF raw_channel_env_ok raw_local(1) rd(1)] by (auto simp: grows_def)
  have rec: "received_on 5 es = arrived_bytes" using rd(2) es(1) by simp
  have own: "cn_owner (conns_of (w_trace w1)) 5 = Some 0" "client_bytes 0 (w_trace w1) = []" "fds_fresh (w_trace w1)"
    by (simp_all add: run(3) start_trace_def serve_trace_def conns_of_def conn_step_def conns_new_def
        client_bytes_def fds_fresh_def open_step_def)
  have "client_bytes 0 (w_trace w2) = arrived_bytes"
    using own rec serves_events(1) [OF es(2) own(1)] by (simp add: es(1) client_bytes_def conns_of_append)
  moreover have "fds_fresh (w_trace w2)"
    using own(3) serves_fresh [OF es(2)] by (simp add: es(1) fds_fresh_append)
  ultimately show ?thesis using st by blast
qed

section \<open>The connections of a server\<close>

lemma server_state_streams:
  assumes "server_state S max_channels p s w" and "callbacks_local (se_chan S)" and "hooks_local S"
    and "fds_fresh (w_trace w)"
  shows "stream_ok (se_chan S) p (w_trace w) cid" and "sockets_owned (sv_array s) (w_trace w)"
proof -
  obtain w0 where w0: "w_trace w0 = []" "server_reach S (GepServer_new max_channels p, w0) (s, w)"
    and env: "server_env_ok S p"
    using assms(1) by (auto simp: server_state_def)
  have inv: "server_inv S (GepServer_new max_channels p, w0)"
    by (rule server_inv_init [OF env]) (simp add: w0(1) live_clients_def)
  have "streams_inv S (s, w)"
    by (rule server_reach_streams [OF w0(2) inv assms(2,3) streams_inv_init [OF w0(1)]])
  then have conns: "serving_conns S s (w_trace w)" using assms(4) by (simp add: streams_inv_def)
  have "sv_proto s = SetPort (pr_port (sv_proto s)) p"
    using server_reach_proto [OF w0(2) inv] by (simp add: GepServer_new_def)
  then show "stream_ok (se_chan S) p (w_trace w) cid"
    using serving_conns_streams [OF conns] SetPort_streams(3) by metis
  show "sockets_owned (sv_array s) (w_trace w)"
    using serving_conns_owned [OF conns] server_state_inv [OF assms(1)] by (simp add: server_inv_def)
qed

text \<open>C18: In every reachable state of a server, whatever the interleaving, each client in the vector
  has a descriptor of its own: it is open, no two clients share it, it is not the listening
  socket, which is open too, and the connection accepted on it was given to that client. Assumed:
  the kernel gives out no descriptor that is open, and callbacks and hooks leave the library's
  sockets alone.\<close>

theorem server_sockets_distinct:
  assumes "server_state S max_channels p s w" and "callbacks_local (se_chan S)" and "hooks_local S"
    and "fds_fresh (w_trace w)"
  shows "distinct (map ch_socket (ca_channels (sv_array s))) \<and>
    (\<forall>ch \<in> set (ca_channels (sv_array s)). ch_socket ch \<in> open_fds (w_trace w) \<and>
       ch_socket ch \<noteq> ca_server_socket (sv_array s) \<and>
       cn_owner (conns_of (w_trace w)) (ch_socket ch) = Some (ch_id ch)) \<and>
    (0 \<le> ca_server_socket (sv_array s) \<longrightarrow> ca_server_socket (sv_array s) \<in> open_fds (w_trace w))"
  using server_state_streams(2) [OF assms] unfolding sockets_owned_def by blast

theorem server_sockets_distinct_witness:
  "\<exists>s w. server_state raw_server_env 2 raw_proto s w \<and> ch_socket ` set (ca_channels (sv_array s)) \<subseteq> open_fds (w_trace w)"
proof -
  obtain s w where "server_state raw_server_env 2 raw_proto s w" "fds_fresh (w_trace w)"
    using demo_received by blast
  then show ?thesis
    using server_sockets_distinct [OF _ _ raw_local(2)] raw_local(1)
    by (intro exI [of _ s] exI [of _ w]) auto
qed

text \<open>C17: The callbacks that have run for a client, live or gone, are exactly those of the frames of
  the bytes received on its connection, in order, up to the first that is not accepted: whatever
  pieces the bytes came in, whatever other clients sent in between, and however receives, sends,
  starts and stops were interleaved. No client sees a callback for another's bytes.\<close>

theorem server_delivers_per_client:
  assumes "server_state S max_channels p s w" and "callbacks_local (se_chan S)" and "hooks_local S"
    and "fds_fresh (w_trace w)"
  shows "callbacks_for cid (w_trace w) =
    deliver_all (se_chan S) p cid (fst (parse_frames (pr_magic p) (client_bytes cid (w_trace w))))"
  using server_state_streams(1) [OF assms] by (simp add: stream_ok_def)

theorem server_delivers_per_client_witness:
  "\<exists>s w. server_state raw_server_env 2 raw_proto s w \<and> callbacks_for 0 (w_trace w) = [(0, 7, (7, []))]"
proof -
  obtain s w where w: "server_state raw_server_env 2 raw_proto s w" "fds_fresh (w_trace w)"
    "client_bytes 0 (w_trace w) = arrived_bytes"
    using demo_received by blast
  have "callbacks_for 0 (w_trace w) = deliver_all raw_env raw_proto 0 [(7, [])]"
    using server_delivers_per_client [OF w(1) _ raw_local(2) w(2), of 0] raw_local(1) parse_arrived w(3) by simp
  then show ?thesis using w(1) by (auto simp: deliver_all_def raw_accepts raw_deliver)
qed

section \<open>Senders and a server\<close>

text \<open>
  The messages a receiver takes of a sequence: those before the first that is too long for it. The
  rest of the stream is refused at the header of that one.
\<close>

definition deliverable :: "('w, 'm) gep_env \<Rightarrow> proto \<Rightarrow> 'm list \<Rightarrow> 'm list" where
  "deliverable E p ms = takeWhile (\<lambda>m. length (the (Serialize (e_pb E) p m)) < max_value_len) ms"

lemma UINT32_header_len: "UINT32 (take 4 (drop 8 (header_bytes magic tag n @ x))) = n"
  by (simp add: header_bytes_def)

lemma parse_oversize:
  assumes "message_wire E p m @ x = us @ rest" and "Serialize (e_pb E) p m = Some v"
    and "max_value_len \<le> length v" and "length v < 2147483648"
  shows "fst (parse_frames magic us) = []"
proof (cases "length us < 12")
  case True
  then show ?thesis by (simp add: parse_short)
next
  case False
  let ?h = "header_bytes (pr_magic p) (vt_GetTag (e_vt E) m) (of_nat (length v))"
  have "take 12 us = take 12 (message_wire E p m @ x)" using False by (simp add: assms(1))
  also have "\<dots> = ?h" by (simp add: message_wire_def assms(2) frame_bytes_def)
  finally have "us = ?h @ drop 12 us" by (metis append_take_drop_id)
  then have "UINT32 (take 4 (drop 8 us)) = of_nat (length v)"
    by (metis (no_types) UINT32_header_len)
  then show ?thesis
    using False assms(3,4) parse_bad [of us magic] by (simp add: unat_of_nat max_value_len_def)
qed

lemma parse_any_stream:
  assumes "message_stream E p ms = bs @ rest"
    and "\<forall>m \<in> set ms. \<exists>v. Serialize (e_pb E) p m = Some v \<and> length v < 2147483648"
  shows "\<exists>k \<le> length (deliverable E p ms). fst (parse_frames (pr_magic p) bs) = map (message_frame E p) (take k ms) \<and>
    (rest = [] \<longrightarrow> k = length (deliverable E p ms))"
proof -
  let ?short = "deliverable E p ms" and ?more = "dropWhile (\<lambda>m. length (the (Serialize (e_pb E) p m)) < max_value_len) ms"
  have ms: "ms = ?short @ ?more" by (simp add: deliverable_def)
  then have sub: "set ?short \<subseteq> set ms" "set ?more \<subseteq> set ms" by (metis Un_upper1 set_append, metis Un_upper2 set_append)
  have ser: "\<forall>m \<in> set ?short. Serialize (e_pb E) p m \<noteq> None" using assms(2) sub(1) by fastforce
  have len: "\<forall>m \<in> set ?short. length (the (Serialize (e_pb E) p m)) < max_value_len"
    by (auto simp: deliverable_def dest: set_takeWhileD)
  have tk: "take k ms = take k ?short" if "k \<le> length ?short" for k using that ms by (metis append_take_drop_id take_append diff_is_0_eq take0 append_Nil2)
  have st: "message_stream E p ms = message_stream E p ?short @ message_stream E p ?more"
    by (subst ms) (simp only: message_stream_def map_append concat_append)
  then consider (inside) us where "bs @ us = message_stream E p ?short" "rest = us @ message_stream E p ?more"
    | (behind) us where "bs = message_stream E p ?short @ us" "us @ rest = message_stream E p ?more"
    using assms(1) by (auto simp: append_eq_append_conv2)
  then show ?thesis
  proof cases
    case inside
    then show ?thesis using parse_message_stream [OF inside(1) [symmetric] ser len] tk by (fastforce simp: take_map)
  next
    case behind
    have "list_all (\<lambda>f. length (snd f) < max_value_len) (map (message_frame E p) ?short)"
      using len by (simp add: list_all_iff message_frame_def)
    then have "fst (parse_frames (pr_magic p) bs) = map (message_frame E p) ?short @ fst (parse_frames (pr_magic p) us)"
      unfolding behind(1) message_stream_frames [OF ser] by (subst parse_frames_bytes) simp_all
    moreover have "fst (parse_frames (pr_magic p) us) = []"
    proof (cases ?more)
      case Nil
      have "us = []" using behind(2) unfolding Nil by (simp add: message_stream_def)
      then show ?thesis by (simp add: parse_short)
    next
      case (Cons m more)
      then have "\<not> length (the (Serialize (e_pb E) p m)) < max_value_len" by (metis dropWhile_eq_Cons_conv)
      moreover obtain v where "Serialize (e_pb E) p m = Some v" "length v < 2147483648"
        using assms(2) sub(2) Cons by fastforce
      moreover have "message_wire E p m @ message_stream E p more = us @ rest"
        using behind(2) Cons by (simp add: message_stream_def)
      ultimately show ?thesis by (intro parse_oversize) auto
    qed
    ultimately show ?thesis using tk [of "length ?short"] by (intro exI [of _ "length ?short"]) simp
  qed
qed

text \<open>The callbacks of a prefix of the stream of some messages, with the same codec on both sides.\<close>

lemma stream_delivered:
  fixes E :: "('w, 'm) gep_env" and Es :: "('v, 'm) gep_env"
  assumes "message_stream Es q ms = bs @ rest"
    and "\<forall>m \<in> set ms. \<exists>v. Serialize (e_pb Es) q m = Some v \<and> length v < 2147483648"
    and "e_pb E = e_pb Es" and "e_vt E = e_vt Es" and "pr_mode p = pr_mode q" and "pr_magic p = pr_magic q"
    and "codec_ok (e_pb Es) (e_vt Es)" and "ops_ok E p"
  shows "\<exists>k \<le> length (deliverable Es q ms).
    deliver_all E p cid (fst (parse_frames (pr_magic p) bs)) = expected E cid (take k ms) \<and>
    (rest = [] \<longrightarrow> k = length (deliverable Es q ms))"
proof -
  obtain k where k: "k \<le> length (deliverable Es q ms)" "rest = [] \<longrightarrow> k = length (deliverable Es q ms)"
    and pa: "fst (parse_frames (pr_magic q) bs) = map (message_frame Es q) (take k ms)"
    using parse_any_stream [OF assms(1,2)] by blast
  have ser: "\<forall>m \<in> set ms. Serialize (e_pb Es) q m \<noteq> None" using assms(2) by force
  have srl: "Serialize (e_pb Es) p = Serialize (e_pb Es) q" by (rule Serialize_mode) (simp add: assms(5))
  then have "message_frame Es q = message_frame E p" using assms(3,4) by (auto simp: message_frame_def)
  moreover have "deliver_all E p cid (map (message_frame E p) (take k ms)) = expected E cid (take k ms)"
    using deliver_messages [of E p "take k ms" cid] assms(3,4,7,8) ser srl by (auto dest: in_set_takeD)
  ultimately show ?thesis using k pa assms(6) by auto
qed

text \<open>What a server does with the stream of a client's messages, as far as it has arrived.\<close>

lemma stream_to_server:
  fixes S :: "('w, 'm) server_env" and Es :: "('v, 'm) gep_env"
  assumes "server_state S max_channels p s w" and "callbacks_local (se_chan S)" and "hooks_local S"
    and "fds_fresh (w_trace w)"
    and "e_pb (se_chan S) = e_pb Es" and "e_vt (se_chan S) = e_vt Es"
    and "pr_mode p = pr_mode q" and "pr_magic p = pr_magic q" and "codec_ok (e_pb Es) (e_vt Es)"
    and "\<forall>m \<in> set ms. \<exists>v. Serialize (e_pb Es) q m = Some v \<and> length v < 2147483648"
    and "calls = map (\<lambda>m. (vt_GetTag (e_vt Es) m, the (Serialize (e_pb Es) q m), 0 :: int)) ms"
    and "concat (map (\<lambda>(tag, v, r). frame_bytes (pr_magic q) (tag, v)) calls) = client_bytes cid (w_trace w) @ rest"
  shows "\<exists>k \<le> length (deliverable Es q ms). callbacks_for cid (w_trace w) = expected (se_chan S) cid (take k ms) \<and>
    (rest = [] \<longrightarrow> k = length (deliverable Es q ms))"
proof -
  have "\<forall>m \<in> set ms. Serialize (e_pb Es) q m \<noteq> None" using assms(10) by force
  then have "concat (map (\<lambda>(tag, v, r). frame_bytes (pr_magic q) (tag, v)) calls) = message_stream Es q ms"
    by (simp add: message_stream_frames assms(11) comp_def message_frame_def)
  then have cut: "message_stream Es q ms = client_bytes cid (w_trace w) @ rest" using assms(12) by simp
  have "ops_ok (se_chan S) p"
    using channel_env_okD(4) server_env_okD(1) assms(1) unfolding server_state_def by blast
  then show ?thesis
    using stream_delivered [OF cut assms(10,5-9)] server_state_streams(1) [OF assms(1-4)] by (simp add: stream_ok_def)
qed

text \<open>
  Threads that send on one channel, whatever it belongs to, and a server that has received some
  prefix of the bytes.
\<close>

theorem senders_to_server:
  assumes "server_state S max_channels p s w" and "callbacks_local (se_chan S)" and "hooks_local S"
    and "fds_fresh (w_trace w)"
    and "channel_env_ok Es q" and "e_pb (se_chan S) = e_pb Es" and "e_vt (se_chan S) = e_vt Es"
    and "pr_mode p = pr_mode q" and "pr_magic p = pr_magic q" and "codec_ok (e_pb Es) (e_vt Es)"
    and "\<forall>m \<in> set ms. \<exists>v. Serialize (e_pb Es) q m = Some v \<and> length v < 2147483648"
    and "(sender_step Es q ch)\<^sup>*\<^sup>* (senders_new w0) st" and "sn_lock st = None"
    and "sn_returned st = map (\<lambda>m. (vt_GetTag (e_vt Es) m, the (Serialize (e_pb Es) q m), 0)) ms"
    and "sent_on (ch_socket ch) (w_trace (sn_world st)) =
      sent_on (ch_socket ch) (w_trace w0) @ client_bytes cid (w_trace w) @ rest"
  shows "\<exists>k \<le> length (deliverable Es q ms). callbacks_for cid (w_trace w) = expected (se_chan S) cid (take k ms) \<and>
    (rest = [] \<longrightarrow> k = length (deliverable Es q ms))"
proof (rule stream_to_server [OF assms(1-4,6-11,14)])
  show "concat (map (\<lambda>(tag, v, r). frame_bytes (pr_magic q) (tag, v)) (sn_returned st)) =
      client_bytes cid (w_trace w) @ rest"
    using senders_stream [OF assms(5,12,13)] assms(15) by (auto simp: assms(14))
qed

theorem senders_to_server_witness:
  "\<exists>s w. server_state raw_server_env 2 raw_proto s w \<and>
     (\<exists>k \<le> 2. callbacks_for 0 (w_trace w) = expected raw_env 0 (take k [(7, []), (5, [1, 2])]))"
proof -
  obtain s w where w: "server_state raw_server_env 2 raw_proto s w" "fds_fresh (w_trace w)"
    "client_bytes 0 (w_trace w) = arrived_bytes"
    using demo_received by blast
  obtain st where st: "(sender_step raw_env raw_proto demo_channel)\<^sup>*\<^sup>* (senders_new demo_sender_world) st"
    "sn_returned st = [(7, [], 0), (5, [1, 2], 0)]" "sn_lock st = None"
  proof -
    have "sc_send (w_os demo_sender_world) = []" "sc_clock_ms (w_os demo_sender_world) = []"
      by (simp_all add: demo_sender_world_def raw_world_def quiet_script_def)
    then show ?thesis using two_calls_done [of demo_sender_world demo_channel] that sending_steps by blast
  qed
  have sent: "sent_on (ch_socket demo_channel) (w_trace (sn_world st)) =
      sent_on (ch_socket demo_channel) (w_trace demo_sender_world) @ client_bytes 0 (w_trace w) @
        drop 8 (frame_bytes kMagic (5, [1, 2]))"
    using senders_stream [OF raw_channel_env_ok st(1,3)] by (simp add: st(2) w(3) arrived_bytes_def)
  let ?ms = "[(7, []), (5, [1, 2])] :: raw_msg list"
  have all: "deliverable raw_env raw_proto ?ms = ?ms" by (simp add: deliverable_def raw_Serialize max_value_len_def)
  have "\<exists>k \<le> length (deliverable raw_env raw_proto ?ms). callbacks_for 0 (w_trace w) = expected (se_chan raw_server_env) 0 (take k ?ms) \<and>
      (drop 8 (frame_bytes kMagic (5, [1, 2])) = [] \<longrightarrow> k = length (deliverable raw_env raw_proto ?ms))"
    by (rule senders_to_server [OF w(1) _ raw_local(2) w(2) raw_channel_env_ok _ _ _ _ _ _ st(1,3) _ sent])
      (simp_all add: raw_local raw_codec_ok raw_Serialize st(2))
  then obtain k where k: "k \<le> length ?ms" "callbacks_for 0 (w_trace w) = expected raw_env 0 (take k ?ms)"
    unfolding all by auto
  have "k \<le> 2" using k(1) by simp
  then show ?thesis using w(1) k(2) by blast
qed

text \<open>C6: A client sends on one connection at a time. Its threads send in any interleaving with each
  other, between header and value too, while its service thread receives, closes the connection
  and makes a new one, and it is started and stopped: the bytes sent on each of its sockets are
  those of the calls that returned while it was the client's, one after the other, of each a
  prefix of its frame and all of it exactly when it returned 0; on the open one the half-sent
  frame of the holder of the lock follows. No frame is split over two connections. Assumed: the
  callbacks do not send.\<close>

theorem client_sends_per_connection:
  assumes "client_env_ok E p" and "callbacks_silent E" and "w_trace w0 = []"
    and "(sending_client_step E)\<^sup>*\<^sup>* (GepClient_new E p, senders_new w0, []) (c, s, calls)"
    and "parts = sent_parts (w_trace (sn_world s))"
  shows "length calls = length parts \<and> subseq (concat calls) (sn_returned s) \<and>
    (\<forall>t. has_lock (sn_pc s t) \<longleftrightarrow> sn_lock s = Some t) \<and>
    (\<forall>i < length calls. \<exists>pieces. list_all2 (call_part p) (calls ! i) pieces \<and>
       snd (parts ! i) = concat pieces @
         (if IsOpenSocket (cl_channel c) \<and> Suc i = length calls then half_sent p s else [])) \<and>
    (IsOpenSocket (cl_channel c) \<longrightarrow> parts \<noteq> [] \<and> fst (last parts) = ch_socket (cl_channel c))"
proof -
  have inv: "locks_ok s" "sends_ok p (cl_channel c) s calls"
    using sending_client_reach_inv [OF assms(4,1,2,3)] by (simp_all add: sending_client_inv_def)
  then have "\<forall>t. has_lock (sn_pc s t) \<longleftrightarrow> sn_lock s = Some t" "subseq (concat calls) (sn_returned s)"
    unfolding locks_ok_def sends_ok_def by blast+
  moreover have "\<exists>pieces. list_all2 (call_part p) (calls ! i) pieces \<and> snd (parts ! i) = concat pieces @
      (if IsOpenSocket (cl_channel c) \<and> Suc i = length calls then half_sent p s else [])" if "i < length calls" for i
    using sends_ok_nth(3) [OF inv(2) assms(5) that] unfolding returned_stream_def by blast
  ultimately show ?thesis using sends_ok_nth(1,2) [OF inv(2) assms(5)] by blast
qed

text \<open>The client of the applications after two threads have sent.\<close>

lemma two_calls_client:
  "\<exists>w0 s. w_trace w0 = [] \<and> sn_lock s = None \<and>
     (sending_client_step raw_env)\<^sup>*\<^sup>* (GepClient_new raw_env raw_proto, senders_new w0, [])
       (demo_client\<lparr>cl_pc := C_Entry\<rparr>, s, [[(7, [], 0), (5, [1, 2], 0)]]) \<and>
     sent_parts (w_trace (sn_world s)) = [(3, frame_bytes kMagic (7, []) @ frame_bytes kMagic (5, [1, 2]))]"
proof -
  let ?start = "GepClient_new raw_env raw_proto" and ?c = "demo_client\<lparr>cl_pc := C_Entry\<rparr>"
  let ?first = "raw_world (quiet_script\<lparr>sc_connect := 0 # sc_connect quiet_script\<rparr>)" and ?ch = "GepChannel_new raw_env 0 3"
  obtain w where w: "Client_Start raw_env ?start ?first = Some (0, ?c, w)" "w_os w = quiet_script"
    "w_trace w = [Ev_socket 3, Ev_connect 3 3456 0]"
    using demo_client_start [of quiet_script] by (auto simp: quiet_script_def)
  have t0: "w_trace ?first = []" by (simp add: raw_world_def)
  have "note_sockets ?first w [] = [[]]" using w(3) t0 by (simp add: note_sockets_def sent_parts_def sent_step_def)
  moreover have "(senders_new ?first)\<lparr>sn_world := w\<rparr> = senders_new w" by (simp add: senders_new_def)
  ultimately have start: "sending_client_step raw_env (?start, senders_new ?first, []) (?c, senders_new w, [[]])"
    using sending_client_step.start [of ?start "senders_new ?first" raw_env 0 ?c w "[]"] w(1)
    by (simp add: GepClient_new_def senders_new_def)
  have "sc_send (w_os w) = []" "sc_clock_ms (w_os w) = []" using w(2) by (simp_all add: quiet_script_def)
  then obtain s where s: "(sending_step raw_env raw_proto ?ch)\<^sup>*\<^sup>* (senders_new w) s"
    "sn_returned s = [(7, [], 0), (5, [1, 2], 0)]" "sn_lock s = None"
    using two_calls_done by blast
  have op: "IsOpenSocket ?ch" by (simp add: IsOpenSocket_def GepChannel_new_def)
  have "note_calls ?ch (senders_new w) s [[]] = [[(7, [], 0), (5, [1, 2], 0)]]"
    using op s(2) by (simp add: note_calls_def senders_new_def)
  then have "(sending_client_step raw_env)\<^sup>*\<^sup>* (?c, senders_new w, [[]]) (?c, s, [[(7, [], 0), (5, [1, 2], 0)]])"
    using sending_client_senders [of raw_env ?c "senders_new w" s "[[]]"] s(1) op by simp
  with start have r: "(sending_client_step raw_env)\<^sup>*\<^sup>* (?start, senders_new ?first, []) (?c, s, [[(7, [], 0), (5, [1, 2], 0)]])"
    by (rule converse_rtranclp_into_rtranclp)
  have "sends_ok raw_proto (cl_channel ?c) s [[(7, [], 0), (5, [1, 2], 0)]]"
    using sending_client_reach_inv [OF r raw_client_env_ok raw_silent t0] by (simp add: sending_client_inv_def)
  moreover have "returned_stream raw_proto [(7, [], 0), (5, [1, 2], 0)] bs \<Longrightarrow>
      bs = frame_bytes kMagic (7, []) @ frame_bytes kMagic (5, [1, 2])" for bs
    using returned_stream_frames [of raw_proto "[(7, [], 0), (5, [1, 2], 0)]" bs] by simp
  ultimately have "sent_parts (w_trace (sn_world s)) = [(3, frame_bytes kMagic (7, []) @ frame_bytes kMagic (5, [1, 2]))]"
    using op half_sent_unlocked [OF s(3)] by (auto simp: sends_ok_def streams_match_def Cons_eq_append_conv)
  then show ?thesis using r s(3) t0 by blast
qed

theorem client_sends_per_connection_witness:
  "\<exists>w0 c s calls. (sending_client_step raw_env)\<^sup>*\<^sup>* (GepClient_new raw_env raw_proto, senders_new w0, []) (c, s, calls) \<and>
     IsOpenSocket (cl_channel c) \<and> calls = [[(7, [], 0), (5, [1, 2], 0)]] \<and>
     (\<exists>pieces. list_all2 (call_part raw_proto) (calls ! 0) pieces \<and>
        snd (sent_parts (w_trace (sn_world s)) ! 0) = concat pieces)"
proof -
  let ?c = "demo_client\<lparr>cl_pc := C_Entry\<rparr>"
  obtain w0 s where r: "w_trace w0 = []" "sn_lock s = None"
    "(sending_client_step raw_env)\<^sup>*\<^sup>* (GepClient_new raw_env raw_proto, senders_new w0, []) (?c, s, [[(7, [], 0), (5, [1, 2], 0)]])"
    using two_calls_client by blast
  have op: "IsOpenSocket (cl_channel ?c)" by (simp add: IsOpenSocket_def GepChannel_new_def)
  have "\<exists>pieces. list_all2 (call_part raw_proto) ([[(7, [], 0), (5, [1, 2], 0)]] ! 0) pieces \<and>
      snd (sent_parts (w_trace (sn_world s)) ! 0) = concat pieces"
    using client_sends_per_connection [OF raw_client_env_ok raw_silent r(1,3) refl] half_sent_unlocked [OF r(2), of raw_proto]
    by (auto split: if_splits)
  then show ?thesis using r(3) op by blast
qed

text \<open>C2: The system: a client whose threads send in any interleaving while its service thread
  reconnects, and a server with any number of clients. When every send on one connection of the
  client returned 0 and some prefix of the bytes sent on it has reached the server as those of
  client \<open>cid\<close>, the callbacks the server has run for that client are those of a prefix of the
  deliverable messages, in the order their sends returned, once each and unchanged; and of all the
  deliverable ones once all the bytes have arrived. Deliverable are the messages before the first
  whose serialized form has 1048564 bytes or more: at that one the server refuses the stream, and
  nothing after it is delivered. Messages whose tag has no callback are skipped. Assumed: every
  message serializes, to fewer than 2 to the 31 bytes; both ends have the same protocol, mode and magic number and a codec that round-trips; the callbacks of the
  client send nothing and open no socket, those of the server and its hooks do not touch the
  library's sockets; kernel and callback tables as in \<open>server_env_ok\<close> and \<open>client_env_ok\<close>, and no
  descriptor is given out that is open.\<close>

theorem client_to_server:
  assumes "server_state S max_channels p s w" and "callbacks_local (se_chan S)" and "hooks_local S"
    and "fds_fresh (w_trace w)"
    and "client_env_ok Ec q" and "callbacks_silent Ec" and "w_trace w0 = []"
    and "e_pb (se_chan S) = e_pb Ec" and "e_vt (se_chan S) = e_vt Ec"
    and "pr_mode p = pr_mode q" and "pr_magic p = pr_magic q" and "codec_ok (e_pb Ec) (e_vt Ec)"
    and "\<forall>m \<in> set ms. \<exists>v. Serialize (e_pb Ec) q m = Some v \<and> length v < 2147483648"
    and "(sending_client_step Ec)\<^sup>*\<^sup>* (GepClient_new Ec q, senders_new w0, []) (c, st, calls)" and "sn_lock st = None"
    and "i < length calls"
    and "calls ! i = map (\<lambda>m. (vt_GetTag (e_vt Ec) m, the (Serialize (e_pb Ec) q m), 0)) ms"
    and "snd (sent_parts (w_trace (sn_world st)) ! i) = client_bytes cid (w_trace w) @ rest"
  shows "\<exists>k \<le> length (deliverable Ec q ms). callbacks_for cid (w_trace w) = expected (se_chan S) cid (take k ms) \<and>
    (rest = [] \<longrightarrow> k = length (deliverable Ec q ms))"
proof (rule stream_to_server [OF assms(1-4,8-13,17)])
  have "sends_ok q (cl_channel c) st calls"
    using sending_client_reach_inv [OF assms(14,5,6,7)] by (simp add: sending_client_inv_def)
  then have "returned_stream q (calls ! i) (snd (sent_parts (w_trace (sn_world st)) ! i))"
    using sends_ok_nth(3) [OF _ refl assms(16)] half_sent_unlocked [OF assms(15)] by fastforce
  then show "concat (map (\<lambda>(tag, v, r). frame_bytes (pr_magic q) (tag, v)) (calls ! i)) =
      client_bytes cid (w_trace w) @ rest"
    using returned_stream_frames [of q "calls ! i"] assms(18) by (auto simp: assms(17))
qed

theorem client_to_server_witness:
  "\<exists>s w. server_state raw_server_env 2 raw_proto s w \<and>
     (\<exists>k \<le> 2. callbacks_for 0 (w_trace w) = expected raw_env 0 (take k [(7, []), (5, [1, 2])]))"
proof -
  obtain s w where w: "server_state raw_server_env 2 raw_proto s w" "fds_fresh (w_trace w)"
    "client_bytes 0 (w_trace w) = arrived_bytes"
    using demo_received by blast
  obtain w0 st where st: "w_trace w0 = []" "sn_lock st = None"
    "(sending_client_step raw_env)\<^sup>*\<^sup>* (GepClient_new raw_env raw_proto, senders_new w0, [])
       (demo_client\<lparr>cl_pc := C_Entry\<rparr>, st, [[(7, [], 0), (5, [1, 2], 0)]])"
    "sent_parts (w_trace (sn_world st)) = [(3, frame_bytes kMagic (7, []) @ frame_bytes kMagic (5, [1, 2]))]"
    using two_calls_client by blast
  have sent: "snd (sent_parts (w_trace (sn_world st)) ! 0) =
      client_bytes 0 (w_trace w) @ drop 8 (frame_bytes kMagic (5, [1, 2]))"
    by (simp add: st(4) w(3) arrived_bytes_def)
  let ?ms = "[(7, []), (5, [1, 2])] :: raw_msg list"
  have all: "deliverable raw_env raw_proto ?ms = ?ms" by (simp add: deliverable_def raw_Serialize max_value_len_def)
  have "\<exists>k \<le> length (deliverable raw_env raw_proto ?ms). callbacks_for 0 (w_trace w) = expected (se_chan raw_server_env) 0 (take k ?ms) \<and>
      (drop 8 (frame_bytes kMagic (5, [1, 2])) = [] \<longrightarrow> k = length (deliverable raw_env raw_proto ?ms))"
    by (rule client_to_server [OF w(1) _ raw_local(2) w(2) raw_client_env_ok raw_silent st(1) _ _ _ _ _ _ st(3,2) _ _ sent])
      (simp_all add: raw_local raw_codec_ok raw_Serialize)
  then obtain k where k: "k \<le> length ?ms" "callbacks_for 0 (w_trace w) = expected raw_env 0 (take k ?ms)"
    unfolding all by auto
  have "k \<le> 2" using k(1) by simp
  then show ?thesis using w(1) k(2) by blast
qed

section \<open>A client and its connections\<close>

lemma client_state_streams:
  assumes "client_state E p c w" and "callbacks_local E"
  shows "dispatched (w_trace w) = deliver_parts E p (ch_id (cl_channel c)) (connection_parts (w_trace w))"
    and "cl_pc c \<noteq> C_Close \<Longrightarrow> parts_ok E p (cl_channel c) (w_trace w)"
proof -
  obtain w0 where w0: "w_trace w0 = []" "client_reach E (GepClient_new E p, w0) (c, w)" and env: "client_env_ok E p"
    using assms(1) by (auto simp: client_state_def)
  have inv: "client_inv E (GepClient_new E p, w0)"
    by (rule client_inv_init [OF env]) (simp_all add: w0(1))
  have "client_streams E (c, w)"
    by (rule client_reach_streams [OF w0(2) inv assms(2) client_streams_init [OF w0(1)]])
  moreover have "cl_proto (fst (c, w)) = p"
    using w0(2) unfolding client_reach_def
    by (rule rtranclp_invariant [where I = "\<lambda>y. cl_proto (fst y) = p"])
      (use client_step_proto in \<open>auto simp: GepClient_new_def\<close>)
  ultimately show "dispatched (w_trace w) = deliver_parts E p (ch_id (cl_channel c)) (connection_parts (w_trace w))"
    and "cl_pc c \<noteq> C_Close \<Longrightarrow> parts_ok E p (cl_channel c) (w_trace w)"
    by (auto simp: client_streams_def parts_ok_def split: if_splits)
qed

text \<open>The client of the applications after it has received a frame and a part of the next.\<close>

lemma demo_client_received:
  "\<exists>c w. client_state raw_env raw_proto c w \<and> connection_parts (w_trace w) = [arrived_bytes] \<and>
     ch_id (cl_channel c) = 0"
proof -
  let ?s = "quiet_script\<lparr>sc_select := [(1, 0, {3})], sc_recv := [Received arrived_bytes]\<rparr>"
  obtain w where w: "client_state raw_env raw_proto demo_client w" "w_os w = ?s"
    "w_trace w = [Ev_socket 3, Ev_connect 3 3456 0]"
    using demo_client_state [of ?s] by (auto simp: quiet_script_def)
  obtain w1 where run: "Client_run raw_env 3 demo_client w = Some (demo_client\<lparr>cl_pc := C_Recv 3 {3}\<rparr>, w1)"
    "sc_recv (w_os w1) = Received arrived_bytes # []" "connection_parts (w_trace w1) = [[]]"
    using w(2,3) by (simp add: numeral_3_eq_3 Client_RunThread_def Client_select_def FD_SET_def FD_SETSIZE_def
        script_select quiet_script_def connection_parts_def part_step_def)
  have st: "client_state raw_env raw_proto (demo_client\<lparr>cl_pc := C_Recv 3 {3}\<rparr>) w1"
    by (rule Client_run_state [OF w(1) _ run(1)]) simp
  have len: "length arrived_bytes = 20" by (simp add: arrived_bytes_def frame_bytes_def)
  then have ne: "arrived_bytes \<noteq> []" by auto
  have idle: "chan_idle raw_proto (GepChannel_new raw_env 0 3)" by (simp add: new_channel_idle)
  obtain ch' w2 where rd: "RecvData raw_env raw_proto (GepChannel_new raw_env 0 3) w1 = Some (0, ch', w2)"
    "received_on 3 (w_trace w2) = received_on 3 (w_trace w1) @ arrived_bytes"
    "same_conn (GepChannel_new raw_env 0 3) ch'"
    using raw_RecvData [OF idle run(2) ne, of "[(7, [])]"] parse_arrived len by (auto simp: raw_accepts)
  let ?c = "demo_client\<lparr>cl_channel := ch', cl_pc := C_Test 3\<rparr>"
  have "client_step raw_env (demo_client\<lparr>cl_pc := C_Recv 3 {3}\<rparr>, w1) (?c, w2)"
    by (rule client_step.thread) (simp_all add: Client_RunThread_def FD_ISSET_def FD_SETSIZE_def rd(1))
  then have st2: "client_state raw_env raw_proto ?c w2" by (rule client_state_step [OF st])
  obtain es where es: "w_trace w2 = w_trace w1 @ es" "list_all (serves 0 3) es"
    using RecvData_serves [OF raw_channel_env_ok raw_local(1) rd(1)] by (auto simp: grows_def)
  have "received_on 3 es = arrived_bytes" using rd(2) es(1) by simp
  then have parts: "connection_parts (w_trace w2) = [arrived_bytes]"
    using serves_parts [OF es(2), of "[]" "[]"] run(3) by (simp add: es(1) connection_parts_append)
  have "ch_id ch' = 0" using rd(3) by (simp add: same_conn_def)
  then show ?thesis using st2 parts by (intro exI [of _ ?c] exI [of _ w2]) simp
qed

text \<open>C30: The callbacks a client has run are those of its connections, one after the other: of each, the
  callbacks of the frames of the bytes it brought, in order, up to the first that is not accepted.
  What was left unfinished when a connection broke is forgotten: it is never joined to the bytes
  of the next connection. The buffer of an open channel, unless its receive has just failed, is the
  unfinished end of its own.\<close>

theorem client_delivers_per_connection:
  assumes "client_state E p c w" and "callbacks_local E"
  shows "dispatched (w_trace w) = deliver_parts E p (ch_id (cl_channel c)) (connection_parts (w_trace w)) \<and>
    (IsOpenSocket (cl_channel c) \<and> cl_pc c \<noteq> C_Close \<longrightarrow> connection_parts (w_trace w) \<noteq> [] \<and>
       snd (parse_frames (pr_magic p) (last (connection_parts (w_trace w)))) = More (content (cl_channel c)))"
  using client_state_streams [OF assms] by (auto simp: parts_ok_def IsOpenSocket_def)

theorem client_delivers_per_connection_witness:
  "\<exists>c w. client_state raw_env raw_proto c w \<and> connection_parts (w_trace w) = [arrived_bytes] \<and>
     dispatched (w_trace w) = [(0, 7, (7, []))]"
proof -
  obtain c w where c: "client_state raw_env raw_proto c w" "connection_parts (w_trace w) = [arrived_bytes]"
    "ch_id (cl_channel c) = 0"
    using demo_client_received by blast
  have "dispatched (w_trace w) = [(0, 7, (7, []))]"
    using client_delivers_per_connection [OF c(1) raw_local(1)] c(2,3) parse_arrived
    by (simp add: deliver_parts_def deliver_all_def raw_accepts raw_deliver)
  then show ?thesis using c by blast
qed

end
