(* ===== verification/Gep_Server_Sends.thy ===== *)
theory Gep_Server_Sends
  imports Gep_Server_Streams "HOL-Library.Sublist"
begin

text \<open>
  What a server sends, client by client, over a whole run: the bytes sent on the connection of
  each client against the calls of \<open>Send\<close> and \<open>SendTo\<close> that addressed it, while clients come
  and go and descriptors are closed and given out again.
\<close>

section \<open>The bytes sent to a client\<close>

text \<open>The bytes sent on a descriptor are for the client that owns it at that moment.\<close>

fun sent_to :: "int \<Rightarrow> conns \<Rightarrow> 'm event list \<Rightarrow> u8 list" where
  "sent_to cid c [] = []"
| "sent_to cid c (e # es) =
     (case e of Ev_send fd bs \<Rightarrow> if cn_owner c fd = Some cid then bs else [] | _ \<Rightarrow> []) @
     sent_to cid (conn_step c e) es"

definition client_sent :: "int \<Rightarrow> 'm event list \<Rightarrow> u8 list" where
  "client_sent cid tr = sent_to cid conns_new tr"

definition unsent :: "'m event \<Rightarrow> bool" where
  "unsent e \<longleftrightarrow> (case e of Ev_send _ _ \<Rightarrow> False | _ \<Rightarrow> True)"

lemma unsent_simps [simp]:
  "unsent (Ev_socket fd)" "unsent (Ev_close fd)" "unsent (Ev_accept l fd)" "unsent (Ev_add_client cid)"
  "unsent (Ev_del_client cid)" "unsent (Ev_recv fd bs)" "unsent (Ev_dispatch cid tag m)"
  by (simp_all add: unsent_def)

lemma unsent_silent: "silent e \<Longrightarrow> unsent e"
  by (simp add: unsent_def silent_def split: event.splits)

lemma unsent_tuning: "tuning e \<Longrightarrow> unsent e"
  by (intro unsent_silent silent_tuning)

lemma sent_to_append: "sent_to cid c (xs @ ys) = sent_to cid c xs @ sent_to cid (foldl conn_step c xs) ys"
  by (induction xs arbitrary: c) simp_all

lemma client_sent_append: "client_sent cid (xs @ ys) = client_sent cid xs @ sent_to cid (conns_of xs) ys"
  by (simp add: client_sent_def sent_to_append conns_of_def)

lemma unsent_client:
  fixes w :: "('w, 'm) world"
  assumes "grows unsent w w'"
  shows "client_sent cid (w_trace w') = client_sent cid (w_trace w)"
proof -
  have "list_all unsent es \<Longrightarrow> sent_to cid c es = []" for c and es :: "'m event list"
    by (induction es arbitrary: c) (auto simp: unsent_def split: event.splits)
  then show ?thesis using assms by (auto simp: grows_def client_sent_append)
qed

lemma sends_client:
  fixes w :: "('w, 'm) world"
  assumes "sends fd bs w w'"
  shows "conns_of (w_trace w') = conns_of (w_trace w)"
    and "client_sent cid (w_trace w') =
      client_sent cid (w_trace w) @ (if cn_owner (conns_of (w_trace w)) fd = Some cid then bs else [])"
proof -
  obtain es where es: "w_trace w' = w_trace w @ es" "list_all (send_event fd) es" "sent_on fd es = bs"
    using assms by (auto simp: sends_def)
  have same: "conn_step c e = c" if "send_event fd e" for c and e :: "'m event"
    using that by (cases e) (simp_all add: send_event_def conn_step_def)
  then have "list_all (send_event fd) es \<Longrightarrow> foldl conn_step c es = c" for c and es :: "'m event list"
    by (induction es) simp_all
  then show "conns_of (w_trace w') = conns_of (w_trace w)" using es by (simp add: conns_of_append)
  have "sent_to cid c es = (if cn_owner c fd = Some cid then sent_on fd es else [])" if "list_all (send_event fd) es"
    for c and es :: "'m event list"
    using that
  proof (induction es)
    case (Cons e es)
    then show ?case using same [of e] by (cases e) (auto simp: send_event_def sent_on_def)
  qed (simp add: sent_on_def)
  then show "client_sent cid (w_trace w') =
      client_sent cid (w_trace w) @ (if cn_owner (conns_of (w_trace w)) fd = Some cid then bs else [])"
    using es by (simp add: client_sent_append)
qed

section \<open>The calls\<close>

text \<open>
  The history of what was sent: client, message and result. \<open>Send\<close> addresses the open channels,
  \<open>SendTo\<close> the one with the id, if there is one.
\<close>

type_synonym 'm server_calls = "(int \<times> 'm \<times> int) list"

definition calls_to :: "int \<Rightarrow> 'm server_calls \<Rightarrow> ('m \<times> int) list" where
  "calls_to cid calls = map snd (filter (\<lambda>call. fst call = cid) calls)"

definition note_all :: "channel list \<Rightarrow> 'm \<Rightarrow> int \<Rightarrow> 'm server_calls" where
  "note_all chs msg r = map (\<lambda>ch. (ch_id ch, msg, r)) (filter IsOpenSocket chs)"

definition note_one :: "channel list \<Rightarrow> 'm \<Rightarrow> int \<Rightarrow> int \<Rightarrow> 'm server_calls" where
  "note_one chs msg cid r = (if \<exists>ch \<in> set chs. IsOpenSocket ch \<and> ch_id ch = cid then [(cid, msg, r)] else [])"

text \<open>What one call puts on the wire: a prefix of the message's frame, all of it if it succeeds.\<close>

definition message_part :: "('w, 'm) gep_env \<Rightarrow> proto \<Rightarrow> 'm \<times> int \<Rightarrow> u8 list \<Rightarrow> bool" where
  "message_part E p call bs \<longleftrightarrow>
     prefix bs (message_wire E p (fst call)) \<and>
     (snd call = 0 \<longrightarrow> Serialize (e_pb E) p (fst call) \<noteq> None \<and> bs = message_wire E p (fst call))"

definition calls_match :: "('w, 'm) gep_env \<Rightarrow> proto \<Rightarrow> ('m \<times> int) list \<Rightarrow> u8 list \<Rightarrow> bool" where
  "calls_match E p calls bs \<longleftrightarrow> (\<exists>parts. list_all2 (message_part E p) calls parts \<and> bs = concat parts)"

lemma calls_to_simps [simp]:
  "calls_to cid [] = []" "calls_to cid (call # calls) = (if fst call = cid then [snd call] else []) @ calls_to cid calls"
  "calls_to cid (xs @ ys) = calls_to cid xs @ calls_to cid ys"
  by (simp_all add: calls_to_def)

lemma calls_match_nil [simp]: "calls_match E p [] bs \<longleftrightarrow> bs = []"
  by (simp add: calls_match_def)

lemma calls_match_append:
  assumes "calls_match E p xs a" and "calls_match E p ys b"
  shows "calls_match E p (xs @ ys) (a @ b)"
proof -
  obtain as bs where "list_all2 (message_part E p) xs as" "a = concat as"
    "list_all2 (message_part E p) ys bs" "b = concat bs"
    using assms by (auto simp: calls_match_def)
  then have "list_all2 (message_part E p) (xs @ ys) (as @ bs)" "a @ b = concat (as @ bs)"
    by (simp_all add: list_all2_appendI)
  then show ?thesis unfolding calls_match_def by blast
qed

lemma calls_match_one: "message_part E p call bs \<Longrightarrow> calls_match E p [call] bs"
  unfolding calls_match_def by (rule exI [of _ "[bs]"]) simp

text \<open>When every call succeeded, the stream is that of the messages.\<close>

lemma calls_match_stream:
  assumes "calls_match E p (map (\<lambda>m. (m, 0)) ms) bs"
  shows "bs = message_stream E p ms \<and> (\<forall>m \<in> set ms. Serialize (e_pb E) p m \<noteq> None)"
proof -
  have "list_all2 (message_part E p) (map (\<lambda>m. (m, 0)) ms) parts \<Longrightarrow>
      parts = map (message_wire E p) ms \<and> (\<forall>m \<in> set ms. Serialize (e_pb E) p m \<noteq> None)" for parts
    by (induction ms arbitrary: parts) (auto simp: list_all2_Cons1 message_part_def)
  then show ?thesis using assms by (auto simp: calls_match_def message_stream_def)
qed

lemma SetPort_calls [simp]: "calls_match E (SetPort n p) = calls_match E p"
proof -
  have s: "Serialize pb (SetPort n p) = Serialize pb p" for pb by (rule Serialize_mode) (simp add: SetPort_def)
  have "message_wire E (SetPort n p) m = message_wire E p m" for m
    unfolding message_wire_def s by (simp add: SetPort_def split: option.split)
  then have "message_part E (SetPort n p) = message_part E p"
    by (intro ext) (simp add: message_part_def s)
  then show ?thesis by (intro ext) (simp add: calls_match_def)
qed

section \<open>What the sends add\<close>

text \<open>A send adds the parts of its calls to the streams of the clients it addresses.\<close>

definition sends_calls ::
  "('w, 'm) gep_env \<Rightarrow> proto \<Rightarrow> 'm server_calls \<Rightarrow> ('w, 'm) world \<Rightarrow> ('w, 'm) world \<Rightarrow> bool" where
  "sends_calls E p calls w w' \<longleftrightarrow>
     conns_of (w_trace w') = conns_of (w_trace w) \<and>
     (\<forall>cid. \<exists>bs. calls_match E p (calls_to cid calls) bs \<and>
        client_sent cid (w_trace w') = client_sent cid (w_trace w) @ bs)"

definition owned :: "channel list \<Rightarrow> ('w, 'm) world \<Rightarrow> bool" where
  "owned chs w \<longleftrightarrow> (\<forall>ch \<in> set chs. cn_owner (conns_of (w_trace w)) (ch_socket ch) = Some (ch_id ch))"

lemma sends_calls_none [simp]: "sends_calls E p [] w w"
  by (simp add: sends_calls_def)

lemma sends_calls_append:
  assumes "sends_calls E p xs w1 w2" and "sends_calls E p ys w2 w3"
  shows "sends_calls E p (xs @ ys) w1 w3"
proof -
  have "\<exists>bs. calls_match E p (calls_to cid (xs @ ys)) bs \<and>
      client_sent cid (w_trace w3) = client_sent cid (w_trace w1) @ bs" for cid
  proof -
    obtain a b where "calls_match E p (calls_to cid xs) a" "client_sent cid (w_trace w2) = client_sent cid (w_trace w1) @ a"
      "calls_match E p (calls_to cid ys) b" "client_sent cid (w_trace w3) = client_sent cid (w_trace w2) @ b"
      using assms unfolding sends_calls_def by metis
    then show ?thesis by (intro exI [of _ "a @ b"]) (simp add: calls_match_append)
  qed
  then show ?thesis using assms by (simp add: sends_calls_def)
qed

lemma SendMessage_calls:
  assumes "channel_env_ok E p" and "owned [ch] w" and "SendMessage E p ch m w = Some (r, w')" and "r' = 0 \<longrightarrow> r = 0"
  shows "sends_calls E p [(ch_id ch, m, r')] w w'" and "r \<in> {0, -1}"
proof -
  let ?wire = "message_wire E p m"
  obtain k where k: "k \<le> length ?wire" "sends (ch_socket ch) (take k ?wire) w w'"
    and r: "r = (if Serialize (e_pb E) p m \<noteq> None \<and> k = length ?wire then 0 else -1)"
    using SendMessage_prefix [OF assms(1,3)] by (auto simp: send_post_def)
  have "message_part E p (m, r') (take k ?wire)"
    using r assms(4) by (auto simp: message_part_def take_is_prefix split: if_splits)
  then have "calls_match E p [(m, r')] (take k ?wire)" by (rule calls_match_one)
  then show "sends_calls E p [(ch_id ch, m, r')] w w'"
    using sends_client [OF k(2)] assms(2) by (simp add: sends_calls_def owned_def)
  show "r \<in> {0, -1}" using r by simp
qed

lemma send_each_calls:
  assumes "channel_env_ok E p"
  shows "owned chs w \<Longrightarrow> send_each E p m chs ret w = Some (r, w') \<Longrightarrow> (r' = 0 \<longrightarrow> r = 0) \<Longrightarrow>
    sends_calls E p (note_all chs m r') w w' \<and> (r = 0 \<longrightarrow> ret = 0)"
proof (induction chs arbitrary: ret w)
  case (Cons ch chs)
  show ?case
  proof (cases "IsOpenSocket ch")
    case True
    then obtain r1 w1 where s: "SendMessage E p ch m w = Some (r1, w1)"
      "send_each E p m chs (if r1 < 0 then -1 else ret) w1 = Some (r, w')"
      using Cons.prems(2) by (auto split: bind_splits)
    have own: "owned [ch] w" using Cons.prems(1) by (simp add: owned_def)
    have "conns_of (w_trace w1) = conns_of (w_trace w)"
      using SendMessage_calls(1) [OF assms own s(1), of r1] by (simp add: sends_calls_def)
    then have "owned chs w1" using Cons.prems(1) by (simp add: owned_def)
    note rest = Cons.IH [OF this s(2) Cons.prems(3)]
    have ok: "r = 0 \<Longrightarrow> r1 = 0 \<and> ret = 0" using rest SendMessage_calls(2) [OF assms own s(1), of r1] by (auto split: if_splits)
    then have "sends_calls E p [(ch_id ch, m, r')] w w1"
      using Cons.prems(3) by (intro SendMessage_calls(1) [OF assms own s(1)]) blast
    then show ?thesis
      using sends_calls_append [of E p "[(ch_id ch, m, r')]" w w1] rest ok True by (simp add: note_all_def)
  next
    case False
    then have "send_each E p m chs ret w = Some (r, w')" "owned chs w" using Cons.prems by (simp_all add: owned_def)
    then show ?thesis using Cons.IH Cons.prems(3) False by (simp add: note_all_def)
  qed
qed (simp add: note_all_def)

lemma send_one_calls:
  assumes "channel_env_ok E p" and "owned chs w" and "send_one E p m cid chs w = Some (r, w')"
  shows "sends_calls E p (note_one chs m cid r) w w'"
  using assms(2,3)
proof (induction chs)
  case (Cons ch chs)
  then show ?case
    using SendMessage_calls(1) [OF assms(1), of ch w m r w' r] by (auto simp: note_one_def owned_def split: if_splits)
qed (simp add: note_one_def)

section \<open>A run with its calls\<close>

inductive calling_server_step ::
  "('w, 'm) server_env \<Rightarrow> server \<times> ('w, 'm) world \<times> 'm server_calls \<Rightarrow>
     server \<times> ('w, 'm) world \<times> 'm server_calls \<Rightarrow> bool"
  for S where
  thread: "sv_pc s \<noteq> S_None \<Longrightarrow> Server_RunThread S s w = Some (s', w') \<Longrightarrow>
    calling_server_step S (s, w, calls) (s', w', calls)"
| start: "sv_pc s = S_None \<Longrightarrow> Server_Start S s w = Some (r, s', w') \<Longrightarrow>
    calling_server_step S (s, w, calls) (s', w', calls)"
| stop: "\<not> sv_stopping s \<Longrightarrow> Server_Stop_request s = Some s' \<Longrightarrow>
    calling_server_step S (s, w, calls) (s', w, calls)"
| join: "sv_stopping s \<Longrightarrow> sv_pc s = S_Exit \<Longrightarrow> Server_Stop_join S s w = (s', w') \<Longrightarrow>
    calling_server_step S (s, w, calls) (s', w', calls)"
| send: "Server_Send S msg s w = Some (r, w') \<Longrightarrow>
    calling_server_step S (s, w, calls) (s, w', calls @ note_all (ca_channels (sv_array s)) msg r)"
| send_to: "Server_SendTo S msg cid s w = Some (r, w') \<Longrightarrow>
    calling_server_step S (s, w, calls) (s, w', calls @ note_one (ca_channels (sv_array s)) msg cid r)"

lemma calling_server_step: "calling_server_step S (s, w, calls) (s', w', calls') \<Longrightarrow> server_step S (s, w) (s', w')"
  by (erule calling_server_step.cases) (auto intro: server_step.intros)

text \<open>Every run of a server is one with its calls.\<close>

lemma server_reach_calling:
  assumes "server_reach S (s, w) (s', w')"
  shows "\<exists>calls'. (calling_server_step S)\<^sup>*\<^sup>* (s, w, calls) (s', w', calls')"
  using assms [unfolded server_reach_def]
proof (induction rule: rtranclp_induct2)
  case (step s1 w1 s2 w2)
  then obtain calls1 where run: "(calling_server_step S)\<^sup>*\<^sup>* (s, w, calls) (s1, w1, calls1)" by blast
  have "\<exists>calls2. calling_server_step S (s1, w1, calls1) (s2, w2, calls2)"
    using step.hyps(2) by cases (iprover intro: calling_server_step.intros)+
  then show ?case using rtranclp.rtrancl_into_rtrancl [OF run] by blast
qed blast

lemma thread_unsent:
  assumes "server_inv S (s, w)" and "callbacks_silent (se_chan S)" and "hooks_silent S"
    and "Server_RunThread S s w = Some (s', w')"
  shows "grows unsent w w'"
proof -
  note inv = server_invD [OF assms(1)]
  have cb: "callbacks_grow unsent (se_chan S)" and hk: "hooks_grow unsent S"
    using assms(2,3) grows_mono unsent_silent
    unfolding callbacks_silent_def callbacks_grow_def hooks_silent_def hooks_grow_def by blast+
  have tuned: "grows tuning x y \<Longrightarrow> grows unsent x y" for x y :: "('a, 'b) world"
    by (erule grows_mono) (rule unsent_tuning)
  have recv: "grows unsent w w'" if "Array_receive S (sv_proto s) fds (sv_array s) w = Some (failed, a, w')" for fds failed a
    using that RecvData_grows [OF server_env_okD(1) [OF inv(1)] cb]
    by (auto simp: Array_receive_def Let_def split: bind_splits option.splits)
  have drop: "grows unsent w w'" if "drop_channel S ch (sv_array s) w = (a, w')" for ch a
  proof -
    have "grows unsent x (DelClient S cid x)" for cid x using hooks_trace(2) [OF hk, of cid x] by (auto simp: grows_def)
    moreover have "grows unsent x (GepChannel_destroy E c x)" for E c and x :: "('a, 'b) world"
      by (auto simp: GepChannel_destroy_def Close_def grows_def open_close_trace)
    ultimately show ?thesis
      using that grows_trans by (auto simp: drop_channel_def Let_def split: if_splits) blast
  qed
  have acc: "grows unsent w w'" if "AcceptConnection S (sv_array s) w = Some (r, a, w')" for r a
    using AcceptConnection_trace [OF that hk unsent_tuning server_env_okD(3) [OF inv(1)]] by (auto simp: grows_def)
  have sel: "grows unsent w w'" if "Server_select S fd s w = Some (pc, w')" for fd pc
    using that tuned by (auto simp: Server_select_def Let_def split: bind_splits prod.splits dest: settings_tuned(7))
  show ?thesis
    using assms(4) recv drop acc sel
    by (cases "sv_pc s") (auto simp: Server_RunThread_def Let_def split: bind_splits prod.splits if_splits)
qed

section \<open>The invariant\<close>

definition calls_ok :: "('w, 'm) server_env \<Rightarrow> proto \<Rightarrow> 'm event list \<Rightarrow> 'm server_calls \<Rightarrow> bool" where
  "calls_ok S p tr calls \<longleftrightarrow>
     (fds_fresh tr \<longrightarrow> (\<forall>cid. calls_match (se_chan S) p (calls_to cid calls) (client_sent cid tr)))"

definition calling_server_inv ::
  "('w, 'm) server_env \<Rightarrow> proto \<Rightarrow> server \<times> ('w, 'm) world \<times> 'm server_calls \<Rightarrow> bool" where
  "calling_server_inv S p = (\<lambda>(s, w, calls). server_inv S (s, w) \<and> streams_inv S (s, w) \<and>
     sv_proto s = SetPort (pr_port (sv_proto s)) p \<and> calls_ok S p (w_trace w) calls)"

lemma calls_ok_unsent:
  assumes "calls_ok S p (w_trace w) calls" and "grows unsent w w'"
  shows "calls_ok S p (w_trace w') calls"
proof -
  have "fds_fresh (w_trace w') \<Longrightarrow> fds_fresh (w_trace w)" using assms(2) by (auto simp: grows_def fds_fresh_append)
  then show ?thesis using assms(1) unsent_client [OF assms(2)] by (simp add: calls_ok_def)
qed

lemma calls_ok_sends:
  assumes "calls_ok S p (w_trace w) calls" and "fds_fresh (w_trace w) \<Longrightarrow> sends_calls (se_chan S) p new w w'"
    and "grows plain w w'"
  shows "calls_ok S p (w_trace w') (calls @ new)"
proof -
  have "calls_match (se_chan S) p (calls_to cid (calls @ new)) (client_sent cid (w_trace w'))"
    if "fds_fresh (w_trace w')" for cid
  proof -
    have fresh: "fds_fresh (w_trace w)" using that assms(3) by (auto simp: grows_def fds_fresh_append)
    then obtain bs where "calls_match (se_chan S) p (calls_to cid new) bs"
      "client_sent cid (w_trace w') = client_sent cid (w_trace w) @ bs"
      using assms(2) unfolding sends_calls_def by blast
    then show ?thesis using assms(1) fresh by (simp add: calls_ok_def calls_match_append)
  qed
  then show ?thesis by (simp add: calls_ok_def)
qed

lemma Start_join_unsent:
  assumes "server_inv S (s, w)" and "hooks_silent S"
  shows "Server_Start S s w = Some (r, s', w') \<Longrightarrow> grows unsent w w'"
    and "Server_Stop_join S s w = (s', w') \<Longrightarrow> grows unsent w w'"
proof -
  have hk: "hooks_grow unsent S"
    using assms(2) grows_mono unsent_silent unfolding hooks_silent_def hooks_grow_def by blast
  note opened = OpenServerSocket_grows [OF _ server_env_okD(3) [OF server_invD(1) [OF assms(1)]] unsent_tuning]
  show "Server_Start S s w = Some (r, s', w') \<Longrightarrow> grows unsent w w'"
    by (auto simp: Server_Start_def Let_def split: if_splits bind_splits dest: opened)
  show "Server_Stop_join S s w = (s', w') \<Longrightarrow> grows unsent w w'"
    using Array_Stop_grows [OF _ hk]
    by (cases "Array_Stop S (sv_array s) w" rule: prod_cases3)
      (simp add: Server_Stop_join_def ClearGepChannelVector_def Let_def)
qed

lemma calling_server_step_inv:
  assumes "callbacks_local (se_chan S)" and "hooks_local S" and "callbacks_silent (se_chan S)" and "hooks_silent S"
    and "calling_server_step S (s, w, calls) (s', w', calls')" and "calling_server_inv S p (s, w, calls)"
  shows "calling_server_inv S p (s', w', calls')"
proof -
  have inv: "server_inv S (s, w)" "streams_inv S (s, w)" "sv_proto s = SetPort (pr_port (sv_proto s)) p"
    and ok: "calls_ok S p (w_trace w) calls"
    using assms(6) by (simp_all add: calling_server_inv_def)
  note step = calling_server_step [OF assms(5)]
  have "sv_proto s' = SetPort (pr_port (sv_proto s')) p"
    using server_step_proto [OF inv(1) step] inv(3) by (metis SetPort_twice)
  moreover have "calls_ok S p (w_trace w') calls'"
  proof -
    note env = server_env_okD(1) [OF server_invD(1) [OF inv(1)]]
    have own: "owned (ca_channels (sv_array s)) w" if "fds_fresh (w_trace w)"
    proof -
      have "serving_conns S s (w_trace w)" "serving_ok s" using that inv(1,2) by (simp_all add: streams_inv_def server_inv_def)
      then show ?thesis using serving_conns_owned unfolding sockets_owned_def owned_def by blast
    qed
    have same: "sends_calls E (sv_proto s) = sends_calls E p" for E
    proof -
      have "calls_match E (sv_proto s) = calls_match E p" using SetPort_calls [of E "pr_port (sv_proto s)" p] inv(3) by simp
      then show ?thesis by (intro ext) (simp add: sends_calls_def)
    qed
    show ?thesis
      using assms(5)
    proof cases
      case thread
      then show ?thesis using calls_ok_unsent [OF ok thread_unsent [OF inv(1) assms(3,4)]] by blast
    next
      case (start r)
      then show ?thesis using calls_ok_unsent [OF ok Start_join_unsent(1) [OF inv(1) assms(4)]] by blast
    next
      case join
      then show ?thesis using calls_ok_unsent [OF ok Start_join_unsent(2) [OF inv(1) assms(4)]] by blast
    next
      case (send msg r)
      have "sends_calls (se_chan S) p (note_all (ca_channels (sv_array s)) msg r) w w'" if "fds_fresh (w_trace w)"
        using send_each_calls [OF env own [OF that], of msg 0 r w' r] send(3)
        by (simp add: Server_Send_def Array_SendMessage_def same)
      then show ?thesis using calls_ok_sends [OF ok _ Server_Send_plain(1) [OF inv(1) send(3)]] send by blast
    next
      case (send_to msg cid r)
      have "sends_calls (se_chan S) p (note_one (ca_channels (sv_array s)) msg cid r) w w'" if "fds_fresh (w_trace w)"
        using send_one_calls [OF env own [OF that], of msg cid r w'] send_to(3)
        by (simp add: Server_SendTo_def Array_SendMessageTo_def same)
      then show ?thesis using calls_ok_sends [OF ok _ Server_Send_plain(2) [OF inv(1) send_to(3)]] send_to by blast
    qed (use ok in simp)
  qed
  ultimately show ?thesis
    using server_step_inv [OF inv(1) step] server_step_streams [OF inv(1) assms(1,2) inv(2) step]
    by (simp add: calling_server_inv_def)
qed

lemma calling_server_reach_inv:
  assumes "(calling_server_step S)\<^sup>*\<^sup>* (GepServer_new mx p, w0, []) y" and "server_env_ok S p" and "w_trace w0 = []"
    and "callbacks_local (se_chan S)" and "hooks_local S" and "callbacks_silent (se_chan S)" and "hooks_silent S"
  shows "calling_server_inv S p y"
  using assms(1)
proof (rule rtranclp_invariant)
  have "server_inv S (GepServer_new mx p, w0)"
    by (rule server_inv_init [OF assms(2)]) (simp add: assms(3) live_clients_def)
  then show "calling_server_inv S p (GepServer_new mx p, w0, [])"
    using streams_inv_init [OF assms(3)] assms(3)
    by (simp add: calling_server_inv_def calls_ok_def client_sent_def GepServer_new_def SetPort_def)
  show "calling_server_inv S p y" if "calling_server_inv S p x" "calling_server_step S x y" for x y
    using that calling_server_step_inv [OF assms(4-7)] by (cases x; cases y) blast
qed

end
