(* ===== verification/System_Properties.thy ===== *)
theory System_Properties
  imports Connection_Properties Gep_Server_Sends
begin

text \<open>
  The way back: what a server sends to each of its clients over a whole run, and what the client
  at the other end of a connection makes of it.
\<close>

section \<open>A server that has sent to its client\<close>

lemma raw_hooks_silent: "hooks_silent raw_server_env"
  by (simp add: hooks_silent_def hooks_grow_def)

lemma raw_Server_Send:
  assumes "sc_send (w_os w) = []" and "sc_clock_ms (w_os w) = []" and "length v < 2000000" and "v \<noteq> [120]"
  shows "\<exists>w'. Server_Send raw_server_env (tag, v) demo_server w = Some (0, w') \<and> w_os w' = w_os w"
  using raw_SendMessage [OF assms]
  by (simp add: Server_Send_def Array_SendMessage_def IsOpenSocket_def served_server_def GepChannel_new_def sent_def)

lemma demo_server_calls:
  "\<exists>w0 w. w_trace w0 = [] \<and> fds_fresh (w_trace w) \<and>
     (calling_server_step raw_server_env)\<^sup>*\<^sup>* (GepServer_new 2 raw_proto, w0, [])
       (demo_server, w, [(0, (7, []), 0), (0, (5, [1, 2]), 0)])"
proof -
  let ?w0 = "raw_world (one_client_script [] [])" and ?step = "calling_server_step raw_server_env"
  obtain w1 w2 where run: "Server_Start raw_server_env (GepServer_new 2 raw_proto) ?w0 = Some (0, started_server 2, w1)"
    "Server_run raw_server_env 7 (started_server 2) w1 = Some (demo_server, w2)"
    "w_os w2 = then_script [] []" "w_trace w2 = start_trace @ serve_trace"
    using demo_server_run [of 2 "[]" "[]"] by auto
  have pcs: "sv_pc (GepServer_new 2 raw_proto) = S_None" "sv_pc (started_server 2) \<noteq> S_None"
    by (simp_all add: GepServer_new_def started_server_def)
  have "?step (GepServer_new 2 raw_proto, ?w0, []) (started_server 2, w1, [])"
    by (rule calling_server_step.start [OF pcs(1) run(1)])
  moreover have "?step\<^sup>*\<^sup>* (started_server 2, w1, []) (demo_server, w2, [])"
    using Server_run_star [of raw_server_env ?step "\<lambda>s w. (s, w, [])", OF calling_server_step.thread pcs(2) run(2)] .
  ultimately have served: "?step\<^sup>*\<^sup>* (GepServer_new 2 raw_proto, ?w0, []) (demo_server, w2, [])"
    by (rule converse_rtranclp_into_rtranclp)
  have q: "sc_send (w_os w2) = []" "sc_clock_ms (w_os w2) = []"
    using run(3) by (simp_all add: then_script_def quiet_script_def)
  obtain w3 where s1: "Server_Send raw_server_env (7, []) demo_server w2 = Some (0, w3)" "w_os w3 = w_os w2"
    using raw_Server_Send [OF q, of "[]" 7] by auto
  obtain w4 where s2: "Server_Send raw_server_env (5, [1, 2]) demo_server w3 = Some (0, w4)"
    using raw_Server_Send [of w3 "[1, 2]" 5] q s1(2) by auto
  have noted: "note_all (ca_channels (sv_array demo_server)) msg r = [(0, msg, r)]" for msg :: raw_msg and r
    by (simp add: note_all_def served_server_def GepChannel_new_def IsOpenSocket_def)
  have reach: "?step\<^sup>*\<^sup>* (GepServer_new 2 raw_proto, ?w0, []) (demo_server, w4, [(0, (7, []), 0), (0, (5, [1, 2]), 0)])"
    using rtranclp.rtrancl_into_rtrancl [OF rtranclp.rtrancl_into_rtrancl [OF served calling_server_step.send [OF s1(1)]]
        calling_server_step.send [OF s2]]
    by (simp only: noted append_Nil append_Cons)
  have t0: "w_trace ?w0 = []" by (simp add: raw_world_def)
  have inv: "server_inv raw_server_env (demo_server, w2)"
    using calling_server_reach_inv [OF served raw_server_env_ok t0 _ raw_local(2) _ raw_hooks_silent] raw_local(1) raw_silent
    by (simp add: calling_server_inv_def)
  then have inv3: "server_inv raw_server_env (demo_server, w3)"
    using server_step_inv server_step.send [OF s1(1)] by blast
  have "grows plain w2 w4"
    using grows_trans [OF Server_Send_plain(1) [OF inv s1(1)] Server_Send_plain(1) [OF inv3 s2]] .
  moreover have "fds_fresh (w_trace w2)"
    by (simp add: run(4) start_trace_def serve_trace_def fds_fresh_def open_step_def)
  moreover have "list_all plain es \<Longrightarrow> fresh_from fds es" for fds and es :: "raw_msg event list"
    by (rule serves_fresh [of 0 0]) (auto simp: serves_def list_all_iff)
  ultimately have "fds_fresh (w_trace w4)" by (auto simp: grows_def fds_fresh_append)
  with t0 show ?thesis using reach by blast
qed

section \<open>Each client's stream\<close>

text \<open>C7: What a server has sent on the connection of a client, over any run, is made of the calls that
  addressed that client, in order: a broadcast addresses every client then in the vector, a send
  to one client that client alone. Each call put a prefix of its message's frame there, the whole
  frame if it returned 0; nothing else was sent, and nothing meant for another client, even when
  the descriptor of a client that is gone is given to a new one. Assumed as for the receives: the
  kernel gives out no descriptor that is open, callbacks and hooks leave the sockets alone; and
  they do not send.\<close>

theorem server_sends_per_client:
  assumes "server_env_ok S p" and "callbacks_local (se_chan S)" and "hooks_local S"
    and "callbacks_silent (se_chan S)" and "hooks_silent S" and "w_trace w0 = []"
    and "(calling_server_step S)\<^sup>*\<^sup>* (GepServer_new max_channels p, w0, []) (s, w, calls)" and "fds_fresh (w_trace w)"
  shows "\<exists>parts. list_all2 (message_part (se_chan S) p) (calls_to cid calls) parts \<and>
    client_sent cid (w_trace w) = concat parts"
proof -
  have "calls_ok S p (w_trace w) calls"
    using calling_server_reach_inv [OF assms(7,1,6,2-5)] by (simp add: calling_server_inv_def)
  then show ?thesis using assms(8) by (simp add: calls_ok_def calls_match_def)
qed

theorem server_sends_per_client_witness:
  "\<exists>w0 s w calls. (calling_server_step raw_server_env)\<^sup>*\<^sup>* (GepServer_new 2 raw_proto, w0, []) (s, w, calls) \<and>
     calls = [(0, (7, []), 0), (0, (5, [1, 2]), 0)] \<and>
     (\<exists>parts. list_all2 (message_part raw_env raw_proto) (calls_to 0 calls) parts \<and>
        client_sent 0 (w_trace w) = concat parts)"
proof -
  obtain w0 w calls where w: "w_trace w0 = []" "fds_fresh (w_trace w)"
    "(calling_server_step raw_server_env)\<^sup>*\<^sup>* (GepServer_new 2 raw_proto, w0, []) (demo_server, w, calls)"
    "calls = [(0, (7, []), 0), (0, (5, [1, 2]), 0)]"
    using demo_server_calls by blast
  have "\<exists>parts. list_all2 (message_part raw_env raw_proto) (calls_to 0 calls) parts \<and>
      client_sent 0 (w_trace w) = concat parts"
    using server_sends_per_client [OF raw_server_env_ok _ raw_local(2) _ raw_hooks_silent w(1,3,2)] raw_local(1) raw_silent
    by simp
  then show ?thesis using w(3,4) by blast
qed

section \<open>From the server to a client\<close>

text \<open>C3: The system, the other way: when every call of a server that addressed one of its clients
  returned 0, and a prefix of the bytes sent to that client has arrived on one of the connections
  of a client program, the callbacks that program has run for the connection are those of a prefix
  of the deliverable messages, in the order they were sent, once each and unchanged, and of all the
  deliverable ones once all the bytes have arrived; the callbacks of its earlier and later
  connections are not touched. Deliverable are the messages before the first whose serialized form
  has 1048564 bytes or more: there the client refuses the stream. Messages whose tag has no callback
  are skipped. Assumed: every
  message serializes, to fewer than 2 to the 31 bytes; both ends have the same protocol, mode and magic number and a codec that
  round-trips; the callbacks and hooks of the server send nothing and open no socket, and neither
  they nor the client's callbacks touch the library's sockets; kernel and callback tables as in
  \<open>server_env_ok\<close> and \<open>client_env_ok\<close>, and no descriptor is given out that is open.\<close>

theorem server_to_client:
  fixes S :: "('w, 'm) server_env" and Ec :: "('v, 'm) gep_env"
  assumes "server_env_ok S p" and "callbacks_local (se_chan S)" and "hooks_local S"
    and "callbacks_silent (se_chan S)" and "hooks_silent S" and "w_trace w0 = []"
    and "(calling_server_step S)\<^sup>*\<^sup>* (GepServer_new max_channels p, w0, []) (s, w, calls)" and "fds_fresh (w_trace w)"
    and "client_state Ec q c wc" and "callbacks_local Ec"
    and "e_pb Ec = e_pb (se_chan S)" and "e_vt Ec = e_vt (se_chan S)"
    and "pr_mode q = pr_mode p" and "pr_magic q = pr_magic p" and "codec_ok (e_pb (se_chan S)) (e_vt (se_chan S))"
    and "calls_to cid calls = map (\<lambda>m. (m, 0)) ms"
    and "\<forall>m \<in> set ms. \<exists>v. Serialize (e_pb (se_chan S)) p m = Some v \<and> length v < 2147483648"
    and "connection_parts (w_trace wc) = before @ part # after" and "client_sent cid (w_trace w) = part @ rest"
  shows "\<exists>k \<le> length (deliverable (se_chan S) p ms). dispatched (w_trace wc) =
      deliver_parts Ec q (ch_id (cl_channel c)) before @ expected Ec (ch_id (cl_channel c)) (take k ms) @
      deliver_parts Ec q (ch_id (cl_channel c)) after \<and> (rest = [] \<longrightarrow> k = length (deliverable (se_chan S) p ms))"
proof -
  have "calls_match (se_chan S) p (calls_to cid calls) (client_sent cid (w_trace w))"
    using calling_server_reach_inv [OF assms(7,1,6,2-5)] assms(8) by (simp add: calling_server_inv_def calls_ok_def)
  then have cut: "message_stream (se_chan S) p ms = part @ rest"
    using calls_match_stream [of "se_chan S" p ms] assms(16,19) by simp
  have "ops_ok Ec q" using assms(9) channel_env_okD(4) unfolding client_state_def client_env_ok_def by blast
  then obtain k where k: "k \<le> length (deliverable (se_chan S) p ms)"
    "rest = [] \<longrightarrow> k = length (deliverable (se_chan S) p ms)"
    "deliver_all Ec q (ch_id (cl_channel c)) (fst (parse_frames (pr_magic q) part)) =
       expected Ec (ch_id (cl_channel c)) (take k ms)"
    using stream_delivered [OF cut assms(17,11-15)] by blast
  have "dispatched (w_trace wc) = deliver_parts Ec q (ch_id (cl_channel c)) (before @ part # after)"
    using client_state_streams(1) [OF assms(9,10)] assms(18) by simp
  then show ?thesis using k by (intro exI [of _ k]) (simp add: deliver_parts_def)
qed

theorem server_to_client_witness:
  "\<exists>c wc. client_state raw_env raw_proto c wc \<and>
     (\<exists>k \<le> 2. dispatched (w_trace wc) = expected raw_env 0 (take k [(7, []), (5, [1, 2])]))"
proof -
  obtain w0 w calls where w: "w_trace w0 = []" "fds_fresh (w_trace w)"
    "(calling_server_step raw_server_env)\<^sup>*\<^sup>* (GepServer_new 2 raw_proto, w0, []) (demo_server, w, calls)"
    "calls = [(0, (7, []), 0), (0, (5, [1, 2]), 0)]"
    using demo_server_calls by blast
  obtain c wc where c: "client_state raw_env raw_proto c wc" "connection_parts (w_trace wc) = [] @ arrived_bytes # []"
    "ch_id (cl_channel c) = 0"
    using demo_client_received by auto
  let ?ms = "[(7, []), (5, [1, 2])] :: raw_msg list"
  have calls: "calls_to 0 calls = map (\<lambda>m. (m, 0)) ?ms" by (simp add: w(4))
  have "calls_ok raw_server_env raw_proto (w_trace w) calls"
    using calling_server_reach_inv [OF w(3) raw_server_env_ok w(1) _ raw_local(2) _ raw_hooks_silent] raw_local(1) raw_silent
    by (simp add: calling_server_inv_def)
  then have "calls_match raw_env raw_proto (map (\<lambda>m. (m, 0)) ?ms) (client_sent 0 (w_trace w))"
    using w(2) unfolding calls_ok_def calls [symmetric] by simp
  then have "client_sent 0 (w_trace w) = message_stream raw_env raw_proto ?ms"
    using calls_match_stream by blast
  then have sent: "client_sent 0 (w_trace w) = arrived_bytes @ drop 8 (frame_bytes kMagic (5, [1, 2]))"
    by (simp add: message_stream_def message_wire_def raw_env_def raw_vt_def raw_Serialize arrived_bytes_def)
  have all: "deliverable raw_env raw_proto ?ms = ?ms" by (simp add: deliverable_def raw_Serialize max_value_len_def)
  have env: "se_chan raw_server_env = raw_env" by (simp add: raw_server_env_def)
  have "\<exists>k \<le> length (deliverable (se_chan raw_server_env) raw_proto ?ms). dispatched (w_trace wc) = deliver_parts raw_env raw_proto (ch_id (cl_channel c)) [] @
      expected raw_env (ch_id (cl_channel c)) (take k ?ms) @ deliver_parts raw_env raw_proto (ch_id (cl_channel c)) [] \<and>
      (drop 8 (frame_bytes kMagic (5, [1, 2])) = [] \<longrightarrow> k = length (deliverable (se_chan raw_server_env) raw_proto ?ms))"
    by (rule server_to_client [OF raw_server_env_ok _ raw_local(2) _ raw_hooks_silent w(1,3,2) c(1) raw_local(1) _ _ _ _ _ calls _ c(2) sent])
      (simp_all add: raw_local raw_silent raw_codec_ok raw_Serialize)
  then obtain k where k: "k \<le> length ?ms" "dispatched (w_trace wc) = expected raw_env 0 (take k ?ms)"
    unfolding env all by (auto simp: deliver_parts_def c(3))
  have "k \<le> 2" using k(1) by simp
  then show ?thesis using c(1) k(2) by blast
qed

end
