(* ===== verification/Spec2Isabelle.thy ===== *)
theory Spec2Isabelle
  imports Channel_Properties Sender_Properties Server_Properties Client_Properties Utils_Properties
    Date_Properties Program_Properties Connection_Properties System_Properties
begin

text \<open>
  A verification library for libgep, a C++ library that sends protobuf messages between a server
  and its clients over TCP: the Generic Event Protocol. A message on the wire is a 12-byte header
  (magic number, tag, length of the value, big endian) and a value, the message serialized as
  text or binary.

  \<^bold>\<open>The program and the model.\<close> Each theory \<open>Gep_*\<close> models one part, in the order in which the
  parts use each other. Names are those of the source; an operation of a class takes the
  environment, the objects it uses and the world, and returns its result and what it changed.

  \<^item> \<open>Gep_Prelude\<close>: C integers, bounds-checked memory, undefined behaviour as \<open>None\<close>.
  \<^item> \<open>Gep_Utils\<close>, \<open>Gep_Date\<close> (\<open>src/utils.h\<close>, \<open>src/utils.cc\<close>): byte macros, time conversions, log
    level, printing into buffers, time stamps and log lines. \<open>Gep_Calendar\<close> and \<open>Gep_Stdlib\<close> are
    what the code uses of the C library (\<open>gmtime_r\<close>, \<open>strftime\<close>, \<open>strtol\<close>, \<open>getopt_long\<close>).
  \<^item> \<open>Gep_World\<close> (\<open>src/raw_socket_interface.h\<close>, \<open>src/time_manager.cc\<close>): the kernel as a parameter,
    the wrappers over it and the trace of effects.
  \<^item> \<open>Gep_Socket\<close> (\<open>src/socket_interface.cc\<close>): \<open>FullSend\<close> with its timeout, socket options,
    \<open>GetPort\<close>, \<open>GetPeerIP\<close>.
  \<^item> \<open>Gep_Protocol\<close> (\<open>src/gep_protocol.cc\<close>): tags, header, modes, codec.
  \<^item> \<open>Gep_Channel\<close> (\<open>src/gep_channel.cc\<close>): one connection and its receive buffer. \<open>Gep_Senders\<close>:
    several threads in \<open>SendTLV\<close>, with \<open>socket_lock_\<close>; \<open>Gep_Duplex\<close>: also one in \<open>RecvData\<close>, taken
    apart at the points where it gives that lock back and after each frame; \<open>Gep_Client_Senders\<close>:
    senders on a client whose service thread takes the lock to receive, close and reconnect.
  \<^item> \<open>Gep_Channel_Array\<close> (\<open>src/gep_channel_array.cc\<close>): a server's channels and listening socket.
  \<^item> \<open>Gep_Client\<close>, \<open>Gep_Server\<close> (\<open>src/gep_client.cc\<close>, \<open>src/gep_server.cc\<close>): the service threads as
    program counters with a step function, the calls of other threads, and their interleavings as
    the step relations \<open>client_step\<close> and \<open>server_step\<close>.
  \<^item> \<open>Gep_Sgp\<close>, \<open>Gep_Example\<close> (\<open>example/\<close>, \<open>include/gep_utils.h\<close>): the example protocol, callback
    tables, command line, fifo and main functions.

  The state: \<open>channel\<close> (id, socket, buffer, fill level), \<open>carray\<close> (channels, id counter, listening
  socket), \<open>client\<close> and \<open>server\<close> (the members, the thread's place and a flag for a pending
  \<open>Stop\<close>), \<open>world\<close> (kernel state, \<open>errno\<close>, log level, trace). The trace is a history of
  effects: bytes sent and received per descriptor, descriptors opened and closed, callbacks run,
  clients announced. \<open>RecvData\<close> receives into the buffer and runs \<open>RecvString\<close>, which runs a
  callback per complete frame; \<open>SendMessage\<close> serializes and calls \<open>SendTLV\<close>; the server's thread
  selects, receives from the first ready channel and accepts.

  \<^bold>\<open>What is shown.\<close>

  \<^item> Specifications: \<open>Gep_Wire\<close> is the wire format (\<open>parse_frames\<close>); \<open>Gep_Directory\<close> is what a server
    tells its user about clients. \<open>Gep_Receive\<close> and \<open>Gep_Delivery\<close> show that the buffer loop
    refines the first, \<open>Gep_End_To_End\<close> puts a sender and a receiver together, and
    \<open>Gep_Directory\<close> shows that the server refines the second.
  \<^item> Interfaces: \<open>socket_contract\<close> (\<open>Gep_Socket\<close>) is what a channel relies on about \<open>FullSend\<close> and
    \<open>Recv\<close>, \<open>channel_layer\<close> (\<open>Gep_Array_Inv\<close>) what the array relies on about a channel, and
    \<open>service_thread\<close> (\<open>Gep_Service\<close>) what stopping relies on about a thread; they are interpreted
    with the code's own operations (\<open>sock\<close>, \<open>chan\<close>, \<open>sv_thread\<close>, \<open>cl_thread\<close>). \<open>Gep_Send\<close>, \<open>Gep_Receive\<close> and
    \<open>Gep_Array_Inv\<close> prove the clients of these contracts once, inside them.
  \<^item> Invariants: \<open>array_ok\<close>, \<open>clients_known\<close> (\<open>Gep_Array_Inv\<close>, \<open>Gep_Array_Ops\<close>), \<open>server_inv\<close>,
    \<open>client_inv\<close> with the account of descriptors, \<open>senders_inv\<close>, \<open>sending_client_inv\<close>,
    \<open>duplex_inv\<close>; kept by every step.
  \<^item> Whole runs: \<open>Gep_Traces\<close> reads off the trace which client owns a descriptor, the bytes that
    reached each client and the callbacks run for it; \<open>Gep_Connections\<close> and \<open>Gep_Server_Streams\<close>
    show for every interleaving of a server that the callbacks are those of the frames of the
    bytes, \<open>Gep_Client_Streams\<close> the same for the successive connections of a client.
    \<open>Gep_Server_Sends\<close> compares the bytes a server sent to each client with the calls of \<open>Send\<close>
    and \<open>SendTo\<close> that addressed it. \<open>Connection_Properties\<close> and \<open>System_Properties\<close> put a client
    and a server together, in both directions.
  \<^item> Properties, with an application of each at a concrete run (\<open>Gep_Script\<close>, \<open>Gep_Runs\<close> and
    \<open>Gep_Server_Runs\<close>: a kernel that answers from a script): \<open>Channel_Properties\<close>,
    \<open>Sender_Properties\<close>, \<open>Server_Properties\<close>, \<open>Client_Properties\<close>, \<open>Utils_Properties\<close>,
    \<open>Date_Properties\<close>, \<open>Example_Properties\<close>, \<open>Program_Properties\<close>, \<open>Connection_Properties\<close>, \<open>System_Properties\<close>
    and, end to end, this theory.

  \<^bold>\<open>Undefined behaviour, loops and bounds.\<close> A definition yields \<open>None\<close> where C++ gives no meaning
  (signed overflow, access out of bounds, \<open>FD_SET\<close> out of range, joining no thread). The receive
  loop and the printing loops end by a measure. \<open>FullSend\<close> would go on for ever if the kernel
  refused a send and reported the socket writable again and again while the clock stood still; it is
  a partial function, and returns by its deadline when time passes (\<open>os_time_passes\<close>), after at most
  one logged call per nanosecond. \<open>Server_run\<close> and \<open>Client_run\<close> count the steps of the service
  thread: once it was asked to, it ends within 3 of them.
  The buffer has 1048576 bytes, so a value of 1048564 bytes or more is refused; lengths of
  messages sent are below 2 to the 31, which protobuf guarantees.

  \<^bold>\<open>What is assumed.\<close> Of the kernel: \<open>os_send_ok\<close> and \<open>os_recv_ok\<close> (no more bytes than there are or
  fit), \<open>os_clock_ok\<close>, \<open>os_select_ok\<close> (a failing \<open>select\<close> leaves the sets), \<open>os_fds_ok\<close>
  (descriptors below \<open>FD_SETSIZE\<close>), \<open>os_time_passes\<close> (the monotonic clock never goes back, and
  reading it takes time) and, for the reconnection only, \<open>os_connects\<close> (it does not refuse for ever). Of protobuf: \<open>codec_ok\<close>
  (a message that was printed parses back). Of the user's callbacks: \<open>ops_ok\<close> (they are defined,
  and an empty value unpacks), \<open>callbacks_steady\<close>, \<open>callbacks_quiet\<close>, \<open>hooks_steady\<close>, and for the
  whole runs \<open>callbacks_local\<close>, \<open>hooks_local\<close> (they do not touch the library's sockets),
  \<open>callbacks_silent\<close> and \<open>hooks_silent\<close> (they send nothing and open no socket). For those also
  \<open>fds_fresh\<close>: the kernel gives out no descriptor that is open. The scripted kernel and the example
  meet all of them.

  \<^bold>\<open>Not modelled.\<close> Where \<open>printf\<close> output goes and the log lines in the trace; what happens inside
  one system call; callbacks that call back into their own channel, \<open>Start\<close> or \<open>Stop\<close>;
  threads inside one operation of the array, which holds its lock, except that a server's receive
  leaves the lock free and drops a channel that failed in a second step; \<open>AcceptConnection\<close> is one
  step too, although the code takes the lock only for \<open>AddChannel\<close> at its end, after accepting and
  setting up a descriptor that no other thread knows. The step relations of
  the client and the server take one receive as a step; \<open>Gep_Duplex\<close> shows for a channel that what
  others do between its parts does not change what it delivers. Nor are modelled \<open>GetSockOpt\<close>, which
  is not used; \<open>GetUnixTimeSec\<close> and \<open>get_peer_ip\<close>, which are declared only; tests, mocks and build
  files.
\<close>

section \<open>Delivery\<close>

text \<open>C1: The protocol from end to end. When a sequence of messages has been sent successfully on one
  channel and some prefix of the bytes has arrived on another, in whatever pieces, the receiver
  has run exactly the callbacks of a prefix of those messages, in order, once each and with the
  messages unchanged (messages whose tag has no callback are skipped); and of all of them when
  all the bytes have arrived. Assumed: the two ends use the same protocol, the codec round-trips,
  and each serialized message is shorter than 1048564 bytes.\<close>

theorem end_to_end:
  assumes "channel_env_ok Es p" and "channel_env_ok Er q" and "callbacks_quiet Er"
    and "e_pb Er = e_pb Es" and "e_vt Er = e_vt Es" and "pr_mode q = pr_mode p" and "pr_magic q = pr_magic p"
    and "codec_ok (e_pb Es) (e_vt Es)"
    and "\<forall>m \<in> set ms. length (the (Serialize (e_pb Es) p m)) < max_value_len"
    and "send_run Es p sender ms ws = Some (0, ws')"
    and "chan_idle q receiver" and "content receiver = []"
    and "recv_run Er q n receiver wr = Some (r, receiver', wr')"
    and "sent_on (ch_socket sender) (w_trace ws') = sent_on (ch_socket sender) (w_trace ws) @ arrived @ rest"
    and "received_on (ch_socket receiver) (w_trace wr') = received_on (ch_socket receiver) (w_trace wr) @ arrived"
  shows "\<exists>k \<le> length ms.
    dispatched (w_trace wr') = dispatched (w_trace wr) @ expected Er (ch_id receiver) (take k ms) \<and>
    (rest = [] \<longrightarrow> k = length ms)"
  by (rule delivery [OF assms])

theorem end_to_end_witness:
  "\<exists>ws' ch' wr'. send_run raw_env raw_proto demo_channel demo_messages demo_sender_world = Some (0, ws') \<and>
     recv_run raw_env raw_proto 1 demo_channel demo_receiver_world = Some (0, ch', wr') \<and>
     dispatched (w_trace wr') = [(7, 5, (5, [1, 2])), (7, 7, (7, []))]"
proof -
  obtain ws' where s: "send_run raw_env raw_proto demo_channel demo_messages demo_sender_world = Some (0, ws')"
    "sent_on 4 (w_trace ws') = demo_stream"
    using demo_send by blast
  obtain ch' wr' where r: "recv_run raw_env raw_proto 1 demo_channel demo_receiver_world = Some (0, ch', wr')"
    "received_on 4 (w_trace wr') = demo_stream"
    using demo_recv by blast
  have v: "\<forall>m \<in> set demo_messages. length (the (Serialize (e_pb raw_env) raw_proto m)) < max_value_len"
    by (simp add: demo_messages_def raw_Serialize max_value_len_def)
  have "dispatched (w_trace wr') = expected raw_env 7 demo_messages"
    using end_to_end [OF raw_channel_env_ok raw_channel_env_ok raw_callbacks_quiet refl refl refl refl _ v s(1) _ _ r(1),
        of demo_stream "[]"] s(2) r(2) raw_codec_ok
    by (auto simp: demo_channel_def new_channel_idle demo_sender_world_def demo_receiver_world_def raw_world_def)
  then show ?thesis
    using s(1) r(1) by (simp add: expected_def demo_messages_def) (simp add: raw_env_def raw_vt_def)
qed

end
